(* ===== verification/Prelude.thy ===== *)
theory Prelude
  imports Main "HOL-Library.Word" "HOL-Library.Char_ord" "HOL-Library.List_Lexorder"
begin

text \<open>
  Shared vocabulary of the development.

  \<^item> Machine integers: \<open>u32\<close>, \<open>u64\<close> and \<open>u128\<close> are words; a plain Rust operator on them is
    the word operator, which wraps (the behaviour of the release profile, the only one
    Cargo.toml does not override); \<open>checked_add\<close>, \<open>saturating_add\<close>, \<open>saturating_mul\<close>,
    \<open>saturating_sub\<close> and \<open>checked_shr\<close> are the methods of the standard library. An \<open>i64\<close> is an
    \<open>int\<close> with the wrap-around written out (\<open>i64_wrap\<close>).
  \<^item> Strings: a Rust \<open>String\<close> or \<open>Vec<u8>\<close> is the list of its bytes (\<open>char list\<close>).
    Printing of integers (\<open>to_string\<close>, \<open>{:020}\<close>), parsing (\<open>parse::<u64>\<close>), slicing, byte
    encodings and UTF-8 validation are those of the standard library.
  \<^item> Results: \<open>Result<T, E>\<close> is \<open>'e + 'a\<close>. An operation on the database is a function
    from the database to a result and the database it leaves behind, on the error path too,
    because the code never rolls a write back. \<open>res_bind\<close>, \<open>read_bind\<close> and \<open>st_bind\<close> are the
    question mark operator after a pure call, a read and a write.
\<close>

unbundle bit_operations_syntax

named_theorems res_simps "equations of the result combinators"
named_theorems word_conv "transfer of machine arithmetic to natural numbers"

section \<open>Types\<close>

type_synonym u8 = "8 word"
type_synonym u32 = "32 word"
type_synonym u64 = "64 word"
type_synonym u128 = "128 word"
type_synonym i64 = int
type_synonym bytes = string

section \<open>Machine integers\<close>

definition checked_add :: "u64 \<Rightarrow> u64 \<Rightarrow> u64 option" where
  "checked_add a b = (if unat a + unat b < 2 ^ 64 then Some (a + b) else None)"

definition saturating_add :: "u64 \<Rightarrow> u64 \<Rightarrow> u64" where
  "saturating_add a b = (if unat a + unat b < 2 ^ 64 then a + b else - 1)"

definition saturating_mul :: "u64 \<Rightarrow> u64 \<Rightarrow> u64" where
  "saturating_mul a b = (if unat a * unat b < 2 ^ 64 then a * b else - 1)"

definition saturating_sub :: "'n::len word \<Rightarrow> 'n word \<Rightarrow> 'n word" where
  "saturating_sub a b = (if a < b then 0 else a - b)"

text \<open>\<open>u64::checked_shr\<close>: \<open>None\<close> when the shift amount is at least the width.\<close>

definition checked_shr :: "u64 \<Rightarrow> u32 \<Rightarrow> u64 option" where
  "checked_shr a n = (if unat n < 64 then Some (drop_bit (unat n) a) else None)"

text \<open>The \<open>as\<close> casts between unsigned widths truncate or extend with zeros.\<close>

abbreviation u64_as_u32 :: "u64 \<Rightarrow> u32" where "u64_as_u32 \<equiv> ucast"
abbreviation u32_as_u64 :: "u32 \<Rightarrow> u64" where "u32_as_u64 \<equiv> ucast"
abbreviation u64_as_u128 :: "u64 \<Rightarrow> u128" where "u64_as_u128 \<equiv> ucast"
abbreviation u128_as_u64 :: "u128 \<Rightarrow> u64" where "u128_as_u64 \<equiv> ucast"

definition i64_wrap :: "int \<Rightarrow> i64" where
  "i64_wrap x = (x + 2 ^ 63) mod 2 ^ 64 - 2 ^ 63"

text \<open>Signed division of Rust truncates towards zero.\<close>

definition i64_div :: "i64 \<Rightarrow> i64 \<Rightarrow> i64" where
  "i64_div a b = i64_wrap (sgn a * sgn b * (\<bar>a\<bar> div \<bar>b\<bar>))"

section \<open>Results\<close>

definition res_bind :: "'e + 'a \<Rightarrow> ('a \<Rightarrow> 'e + 'b) \<Rightarrow> 'e + 'b" where
  "res_bind r f = (case r of Inl e \<Rightarrow> Inl e | Inr x \<Rightarrow> f x)"

definition read_bind :: "'s \<Rightarrow> 'e + 'a \<Rightarrow> ('a \<Rightarrow> ('e + 'b) \<times> 's) \<Rightarrow> ('e + 'b) \<times> 's" where
  "read_bind s r f = (case r of Inl e \<Rightarrow> (Inl e, s) | Inr x \<Rightarrow> f x)"

definition st_bind :: "('e + 'a) \<times> 's \<Rightarrow> ('a \<Rightarrow> 's \<Rightarrow> ('e + 'b) \<times> 's) \<Rightarrow> ('e + 'b) \<times> 's" where
  "st_bind r f = (case r of (Inl e, s) \<Rightarrow> (Inl e, s) | (Inr x, s) \<Rightarrow> f x s)"

definition map_err :: "('e \<Rightarrow> 'f) \<Rightarrow> 'e + 'a \<Rightarrow> 'f + 'a" where
  "map_err f r = (case r of Inl e \<Rightarrow> Inl (f e) | Inr x \<Rightarrow> Inr x)"

definition ok_or :: "'a option \<Rightarrow> 'e \<Rightarrow> 'e + 'a" where
  "ok_or x e = (case x of None \<Rightarrow> Inl e | Some v \<Rightarrow> Inr v)"

text \<open>Collecting the items of an iterator of results: the first error ends the loop.\<close>

fun collect_items :: "('e + 'a) list \<Rightarrow> 'e + 'a list" where
  "collect_items [] = Inr []"
| "collect_items (r # rs) = res_bind r (\<lambda>x. res_bind (collect_items rs) (\<lambda>xs. Inr (x # xs)))"

section \<open>Digits, decimal printing and byte encodings\<close>

text \<open>The \<open>w\<close> lowest digits of \<open>n\<close> in base \<open>b\<close>, the most significant one first.\<close>

fun digits_fixed :: "nat \<Rightarrow> nat \<Rightarrow> nat \<Rightarrow> nat list" where
  "digits_fixed b 0 n = []"
| "digits_fixed b (Suc w) n = (n div b ^ w) mod b # digits_fixed b w n"

definition digit_char :: "nat \<Rightarrow> char" where
  "digit_char d = char_of (48 + d)"

fun dec_string :: "nat \<Rightarrow> string" where
  "dec_string n = (if n < 10 then [digit_char n] else dec_string (n div 10) @ [digit_char (n mod 10)])"

declare dec_string.simps [simp del]

definition u64_to_string :: "u64 \<Rightarrow> string" where
  "u64_to_string n = dec_string (unat n)"

definition u32_to_string :: "u32 \<Rightarrow> string" where
  "u32_to_string n = dec_string (unat n)"

definition i64_to_string :: "i64 \<Rightarrow> string" where
  "i64_to_string n = (if n < 0 then ''-'' @ dec_string (nat (- n)) else dec_string (nat n))"

text \<open>The format \<open>{:020}\<close> of an unsigned integer.\<close>

definition pad20 :: "u64 \<Rightarrow> string" where
  "pad20 n = (let s = u64_to_string n in replicate (20 - length s) (CHR ''0'') @ s)"

definition to_be_bytes :: "u64 \<Rightarrow> bytes" where
  "to_be_bytes n = map char_of (digits_fixed 256 8 (unat n))"

definition to_le_bytes :: "u64 \<Rightarrow> bytes" where
  "to_le_bytes n = rev (to_be_bytes n)"

definition i64_to_le_bytes :: "i64 \<Rightarrow> bytes" where
  "i64_to_le_bytes n = to_le_bytes (word_of_int n)"

text \<open>\<open>str::parse::<u64>\<close>: a leading plus sign is accepted, the first bad character or
  overflow ends the scan.\<close>

definition char_digit :: "char \<Rightarrow> nat option" where
  "char_digit c = (let d = (of_char c :: nat) in if 48 \<le> d \<and> d \<le> 57 then Some (d - 48) else None)"

fun parse_digits :: "nat \<Rightarrow> string \<Rightarrow> string + u64" where
  "parse_digits acc [] = Inr (of_nat acc)"
| "parse_digits acc (c # cs) =
     (case char_digit c of
        None \<Rightarrow> Inl ''invalid digit found in string''
      | Some d \<Rightarrow>
          (if acc * 10 + d < 2 ^ 64 then parse_digits (acc * 10 + d) cs
           else Inl ''number too large to fit in target type''))"

definition parse_u64 :: "string \<Rightarrow> string + u64" where
  "parse_u64 s =
     (if s = [] then Inl ''cannot parse integer from empty string''
      else if s = ''+'' \<or> s = ''-'' then Inl ''invalid digit found in string''
      else if hd s = CHR ''+'' then parse_digits 0 (tl s)
      else parse_digits 0 s)"

section \<open>Strings as UTF-8 bytes\<close>

definition is_cont :: "char \<Rightarrow> bool" where
  "is_cont c = (let b = (of_char c :: nat) in 128 \<le> b \<and> b < 192)"

text \<open>The slice \<open>&s[..n]\<close>: \<open>None\<close> is the panic out of range or inside a character.\<close>

definition str_prefix :: "nat \<Rightarrow> string \<Rightarrow> string option" where
  "str_prefix n s =
     (if n = length s \<or> n < length s \<and> \<not> is_cont (s ! n) then Some (take n s) else None)"

definition starts_with :: "string \<Rightarrow> string \<Rightarrow> bool" where
  "starts_with p s = (take (length p) s = p)"

text \<open>How many continuation bytes follow a lead byte, and which second bytes it allows.\<close>

definition utf8_lead :: "nat \<Rightarrow> (nat \<times> nat \<times> nat) option" where
  "utf8_lead b =
     (if 194 \<le> b \<and> b \<le> 223 then Some (1, 128, 191)
      else if b = 224 then Some (2, 160, 191)
      else if 225 \<le> b \<and> b \<le> 236 \<or> b = 238 \<or> b = 239 then Some (2, 128, 191)
      else if b = 237 then Some (2, 128, 159)
      else if b = 240 then Some (3, 144, 191)
      else if 241 \<le> b \<and> b \<le> 243 then Some (3, 128, 191)
      else if b = 244 then Some (3, 128, 143)
      else None)"

text \<open>\<open>cont_run k bs\<close>: how many of the next \<open>k\<close> bytes are continuation bytes, up to the
  first that is not.\<close>

fun cont_run :: "nat \<Rightarrow> bytes \<Rightarrow> nat" where
  "cont_run 0 bs = 0"
| "cont_run (Suc k) [] = 0"
| "cont_run (Suc k) (c # cs) = (if is_cont c then Suc (cont_run k cs) else 0)"

text \<open>The first invalid sequence: its offset and its length (\<open>None\<close> when the input ends
  inside a character), as \<open>Utf8Error\<close> reports it.\<close>

function utf8_error :: "nat \<Rightarrow> bytes \<Rightarrow> (nat \<times> nat option) option" where
  "utf8_error i [] = None"
| "utf8_error i (c # cs) =
     (let b = (of_char c :: nat) in
      if b < 128 then utf8_error (Suc i) cs
      else case utf8_lead b of
        None \<Rightarrow> Some (i, Some 1)
      | Some (k, lo, hi) \<Rightarrow>
          (case cs of
             [] \<Rightarrow> Some (i, None)
           | d # ds \<Rightarrow>
               (if \<not> (lo \<le> (of_char d :: nat) \<and> (of_char d :: nat) \<le> hi) then Some (i, Some 1)
                else let r = Suc (cont_run (k - 1) ds) in
                  if r = k then utf8_error (i + k + 1) (drop k cs)
                  else if length cs = r then Some (i, None)
                  else Some (i, Some (Suc r)))))"
  by pat_completeness auto
termination
  by (relation "measure (\<lambda>(i, bs). length bs)") auto

definition utf8_valid :: "bytes \<Rightarrow> bool" where
  "utf8_valid bs \<longleftrightarrow> utf8_error 0 bs = None"

definition from_utf8 :: "bytes \<Rightarrow> string + string" where
  "from_utf8 bs =
     (case utf8_error 0 bs of
        None \<Rightarrow> Inr bs
      | Some (i, Some n) \<Rightarrow>
          Inl (''invalid utf-8 sequence of '' @ dec_string n @ '' bytes from index '' @ dec_string i)
      | Some (i, None) \<Rightarrow> Inl (''incomplete utf-8 byte sequence from index '' @ dec_string i))"

text \<open>The UTF-8 encoding of the em dash that occurs in the messages of the program.\<close>

definition em_dash :: string where
  "em_dash = [CHR 0xE2, CHR 0x80, CHR 0x94]"

section \<open>Lemmas on results\<close>

lemma res_bind_simps [simp, res_simps]:
  "res_bind (Inl e) f = Inl e" "res_bind (Inr x) f = f x"
  by (simp_all add: res_bind_def)

lemma read_bind_simps [simp, res_simps]:
  "read_bind s (Inl e) f = (Inl e, s)" "read_bind s (Inr x) g = g x"
  by (simp_all add: read_bind_def)

lemma st_bind_simps [simp, res_simps]:
  "st_bind (Inl e, s) f = (Inl e, s)" "st_bind (Inr x, s) g = g x s"
  by (simp_all add: st_bind_def)

lemma map_err_simps [simp, res_simps]:
  "map_err f (Inl e) = Inl (f e)" "map_err f (Inr x) = Inr x"
  by (simp_all add: map_err_def)

lemma ok_or_simps [simp, res_simps]:
  "ok_or None e = Inl e" "ok_or (Some x) e = Inr x"
  by (simp_all add: ok_or_def)

lemma ok_or_Inr [simp]: "ok_or x e = Inr y \<longleftrightarrow> x = Some y"
  by (cases x) simp_all

lemma map_err_Inr [simp]: "map_err f r = Inr x \<longleftrightarrow> r = Inr x"
  by (cases r) simp_all

text \<open>The result of a sequence is a success only when every step is: the elimination rules
  take a successful run apart.\<close>

lemma res_bind_InrE:
  assumes "res_bind r f = Inr y"
  obtains x where "r = Inr x" "f x = Inr y"
  using assms by (cases r) auto

lemma read_bind_InrE:
  assumes "read_bind s r f = (Inr y, s')"
  obtains x where "r = Inr x" "f x = (Inr y, s')"
  using assms by (cases r) auto

lemma st_bind_InrE:
  assumes "st_bind r f = (Inr y, s')"
  obtains x s1 where "r = (Inr x, s1)" "f x s1 = (Inr y, s')"
  using assms by (cases r; cases "fst r") auto

lemmas bind_InrE = res_bind_InrE read_bind_InrE st_bind_InrE

lemma res_bind_eq_Inr: "res_bind r f = Inr y \<longleftrightarrow> (\<exists>x. r = Inr x \<and> f x = Inr y)"
  by (cases r) simp_all

lemma read_bind_split:
  "P (read_bind s r f) \<longleftrightarrow> (\<forall>e. r = Inl e \<longrightarrow> P (Inl e, s)) \<and> (\<forall>x. r = Inr x \<longrightarrow> P (f x))"
  by (cases r) simp_all

lemma st_bind_split:
  "P (st_bind r f) \<longleftrightarrow>
     (\<forall>e s. r = (Inl e, s) \<longrightarrow> P (Inl e, s)) \<and> (\<forall>x s. r = (Inr x, s) \<longrightarrow> P (f x s))"
  by (cases r; cases "fst r") simp_all

text \<open>The state a sequence leaves satisfies what each of its steps establishes, on the error
  path too.\<close>

lemma read_bind_state:
  assumes "P s" and "\<And>x. r = Inr x \<Longrightarrow> P (snd (f x))"
  shows "P (snd (read_bind s r f))"
  using assms by (cases r) simp_all

lemma st_bind_state:
  assumes "P (snd r)" and "\<And>x s. r = (Inr x, s) \<Longrightarrow> P (snd (f x s))"
  shows "P (snd (st_bind r f))"
  using assms by (cases r; cases "fst r") simp_all

text \<open>Sequencing keeps what each step keeps.\<close>

lemma st_bind_closed:
  assumes "P (snd m)" "\<And>x s. P s \<Longrightarrow> P (snd (f x s))"
  shows "P (snd (st_bind m f))"
  by (rule st_bind_state [where P = P]) (use assms in auto)

lemma collect_items_Inr: "collect_items rs = Inr xs \<longleftrightarrow> rs = map Inr xs"
proof (induction rs arbitrary: xs)
  case Nil
  then show ?case by auto
next
  case (Cons r rs)
  then show ?case by (cases r; cases xs) (auto simp: res_bind_eq_Inr)
qed

section \<open>Lemmas on machine integers\<close>

lemma u64_less [simp]: "unat (x :: u64) < 18446744073709551616"
proof -
  have "unat x < 2 ^ LENGTH(64)" by (rule unsigned_less)
  then show ?thesis by simp
qed

lemma u64_le: "unat (x :: u64) \<le> 18446744073709551615"
  by (rule less_Suc_eq_le [THEN iffD1]) simp

lemma unat_u64_max: "unat (- 1 :: u64) = 2 ^ 64 - 1"
  by (simp add: unsigned_minus_1_eq_mask mask_eq_exp_minus_1)

lemma checked_add_Some [word_conv]:
  "checked_add a b = Some c \<longleftrightarrow> unat c = unat a + unat b"
proof
  assume "checked_add a b = Some c"
  then show "unat c = unat a + unat b"
    by (auto simp: checked_add_def unat_word_ariths split: if_splits)
next
  assume c: "unat c = unat a + unat b"
  then have "unat a + unat b < 2 ^ 64" using u64_less [of c] by simp
  moreover from this have "a + b = c"
    by (simp add: word_eq_iff_unsigned [where 'a = nat] unat_word_ariths c)
  ultimately show "checked_add a b = Some c" by (simp add: checked_add_def)
qed

lemma checked_add_None [word_conv]:
  "checked_add a b = None \<longleftrightarrow> 2 ^ 64 \<le> unat a + unat b"
  by (auto simp: checked_add_def)

lemma unat_sub_le [word_conv]: "b \<le> a \<Longrightarrow> unat (a - b) = unat a - unat (b :: 'n::len word)"
  by (simp add: unat_sub)

text \<open>Machine addition and subtraction are exact where the bounds allow it.\<close>

lemma unat_add_exact: "unat a + unat b < 2 ^ 64 \<Longrightarrow> unat (a + b :: u64) = unat a + unat b"
  by (simp add: unat_word_ariths)

lemma unat_sub_exact: "unat b \<le> unat a \<Longrightarrow> unat (a - b :: u64) = unat a - unat b"
  by (simp add: unat_sub word_le_nat_alt)

text \<open>A difference that underflows is too large by \<open>2 ^ 64\<close>.\<close>

lemma unat_sub_plus: "unat (a - b :: u64) + unat b = unat a + (if b \<le> a then 0 else 2 ^ 64)"
  using u64_le [of b] by (auto simp: unat_sub_if_size word_size word_le_nat_alt)

lemma unat_sub_add_exact:
  assumes "unat b + unat c \<le> unat a"
  shows "unat (a - (b + c) :: u64) = unat a - (unat b + unat c)"
proof -
  have "unat (b + c) = unat b + unat c"
    by (rule unat_add_exact) (use le_less_trans [OF assms u64_less] in simp)
  with assms show ?thesis by (simp add: unat_sub_exact)
qed

lemma unat_add_sub_exact:
  assumes "unat a + unat b < 2 ^ 64" "unat c \<le> unat a + unat b"
  shows "unat (a + b - c :: u64) = unat a + unat b - unat c"
  using assms by (simp add: unat_sub_exact unat_add_exact)

lemma unat_saturating_add [word_conv]:
  "unat (saturating_add a b) = min (unat a + unat b) (2 ^ 64 - 1)"
proof (cases "unat a + unat b < 2 ^ 64")
  case True
  then show ?thesis by (simp add: saturating_add_def unat_word_ariths)
next
  case False
  moreover note unat_u64_max
  ultimately show ?thesis by (simp add: saturating_add_def min_def)
qed

lemma unat_saturating_mul [word_conv]:
  "unat (saturating_mul a b) = min (unat a * unat b) (2 ^ 64 - 1)"
proof (cases "unat a * unat b < 2 ^ 64")
  case True
  then show ?thesis by (simp add: saturating_mul_def unat_word_ariths)
next
  case False
  moreover note unat_u64_max
  ultimately show ?thesis by (simp add: saturating_mul_def min_def)
qed

lemma unat_saturating_sub [word_conv]: "unat (saturating_sub a b) = unat a - unat b"
  by (cases "a < b")
    (simp_all add: saturating_sub_def word_less_nat_alt unat_sub word_le_nat_alt)

lemma u64_Suc_ne [simp]: "(n :: u64) + 1 \<noteq> n" "n \<noteq> (n :: u64) + 1"
  by simp_all

section \<open>Lemmas on digits, printing and byte encodings\<close>

lemma length_digits_fixed [simp]: "length (digits_fixed b w n) = w"
  by (induction w) simp_all

lemma digits_fixed_less: "0 < b \<Longrightarrow> d \<in> set (digits_fixed b w n) \<Longrightarrow> d < b"
  by (induction w) auto

lemma digits_fixed_mod: "0 < b \<Longrightarrow> w \<le> v \<Longrightarrow> digits_fixed b w (n mod b ^ v) = digits_fixed b w n"
proof (induction w)
  case (Suc w)
  then obtain k where v: "v = w + Suc k" using less_iff_Suc_add [of w v] by auto
  have "n mod b ^ v div b ^ w mod b = n div b ^ w mod b ^ Suc k mod b"
    by (simp only: v power_add div_mult1_eq mod_mult2_eq) (simp add: Suc.prems(1))
  also have "\<dots> = n div b ^ w mod b"
    by (simp add: mod_mod_cancel)
  finally show ?case using Suc by simp
qed simp

text \<open>The lexicographic order of fixed-width numerals is the numeric order.\<close>

lemma digits_fixed_less_iff:
  assumes "0 < b" "n < b ^ w" "m < b ^ w"
  shows "digits_fixed b w n < digits_fixed b w m \<longleftrightarrow> n < m"
  using assms(2,3)
proof (induction w arbitrary: n m)
  case 0
  then show ?case by simp
next
  case (Suc w)
  have top: "n div b ^ w < b" "m div b ^ w < b"
    using Suc.prems by (simp_all add: less_mult_imp_div_less)
  have pos: "0 < b ^ w" using assms(1) by simp
  have IH: "digits_fixed b w n < digits_fixed b w m \<longleftrightarrow> n mod b ^ w < m mod b ^ w"
    using Suc.IH [of "n mod b ^ w" "m mod b ^ w"] pos
    by (simp add: digits_fixed_mod [OF assms(1) order.refl])
  have split: "n < m \<longleftrightarrow> n div b ^ w < m div b ^ w
      \<or> n div b ^ w = m div b ^ w \<and> n mod b ^ w < m mod b ^ w"
  proof (cases "n div b ^ w = m div b ^ w")
    case True
    then show ?thesis by (metis div_mult_mod_eq nat_add_left_cancel_less nless_le)
  next
    case False
    then show ?thesis
      by (metis div_le_mono leD leI le_neq_implies_less less_or_eq_imp_le)
  qed
  show ?case using top IH split by simp
qed

lemma of_char_digit_char: "d < 208 \<Longrightarrow> of_char (digit_char d) = (48 + d :: nat)"
  by (simp add: digit_char_def)

lemma char_digit_digit_char [simp]: "d < 10 \<Longrightarrow> char_digit (digit_char d) = Some d"
  by (simp add: char_digit_def of_char_digit_char)

lemma digit_char_less_iff: "c < 10 \<Longrightarrow> d < 10 \<Longrightarrow> digit_char c < digit_char d \<longleftrightarrow> c < d"
  by (simp add: less_char_def of_char_digit_char)

lemma digit_char_inj: "c < 10 \<Longrightarrow> d < 10 \<Longrightarrow> digit_char c = digit_char d \<longleftrightarrow> c = d"
  by (metis char_digit_digit_char option.inject)

lemma char_of_less_iff: "c < 256 \<Longrightarrow> d < 256 \<Longrightarrow> (char_of c :: char) < char_of d \<longleftrightarrow> c < (d :: nat)"
  by (simp add: less_char_def)

lemma char_of_inj: "c < 256 \<Longrightarrow> d < 256 \<Longrightarrow> (char_of c :: char) = char_of d \<longleftrightarrow> c = (d :: nat)"
  by (metis mod_less of_char_of)

lemma map_less_iff:
  fixes xs ys :: "'a::linorder list" and f :: "'a \<Rightarrow> 'b::linorder"
  assumes "length xs = length ys"
    and "\<And>x y. x \<in> set xs \<Longrightarrow> y \<in> set ys \<Longrightarrow> (f x < f y \<longleftrightarrow> x < y) \<and> (f x = f y \<longleftrightarrow> x = y)"
  shows "map f xs < map f ys \<longleftrightarrow> xs < ys"
  using assms by (induction xs ys rule: list_induct2) auto

lemma dec_string_nonempty [simp]: "dec_string n \<noteq> []"
  by (subst dec_string.simps) simp

lemma set_dec_string: "c \<in> set (dec_string n) \<Longrightarrow> \<exists>d<10. c = digit_char d"
proof (induction n rule: dec_string.induct)
  case (1 n)
  show ?case
  proof (cases "n < 10")
    case True
    with 1 show ?thesis by (auto simp: dec_string.simps [of n])
  next
    case False
    with 1 show ?thesis
      by (auto simp: dec_string.simps [of n]) (metis mod_less_divisor zero_less_numeral)
  qed
qed

text \<open>A decimal numeral, padded to any width that holds it, is the fixed-width numeral.\<close>

lemma digits_fixed_snoc:
  "0 < b \<Longrightarrow> digits_fixed b (Suc w) n = digits_fixed b w (n div b) @ [n mod b]"
proof (induction w)
  case 0
  then show ?case by simp
next
  case (Suc w)
  have "n div b ^ Suc w = n div b div b ^ w" by (simp add: div_mult2_eq)
  then show ?case using Suc by simp
qed

lemma pad_dec_string:
  "n < 10 ^ w \<Longrightarrow> 0 < w \<Longrightarrow>
     length (dec_string n) \<le> w
     \<and> replicate (w - length (dec_string n)) (digit_char 0) @ dec_string n
        = map digit_char (digits_fixed 10 w n)"
proof (induction w arbitrary: n)
  case 0
  then show ?case by simp
next
  case (Suc w)
  show ?case
  proof (cases "n < 10")
    case True
    have "digits_fixed 10 w 0 = replicate w 0" for w by (induction w) simp_all
    with True show ?thesis
      by (simp add: digits_fixed_snoc dec_string.simps [of n] map_replicate_const
          flip: replicate_append_same del: digits_fixed.simps)
  next
    case False
    with Suc.prems have w: "0 < w" by (cases w) simp_all
    have "n div 10 < 10 ^ w" using Suc.prems by (simp add: less_mult_imp_div_less)
    from Suc.IH [OF this w] False show ?thesis
      by (simp add: digits_fixed_snoc dec_string.simps [of n] del: digits_fixed.simps)
  qed
qed

lemma u64_less_dec20: "unat (n :: u64) < 10 ^ 20"
  by (rule order.strict_trans [OF u64_less]) simp

lemma pad20_digits: "pad20 n = map digit_char (digits_fixed 10 20 (unat n))"
proof -
  have "digit_char 0 = CHR ''0''" by code_simp
  then show ?thesis
    using pad_dec_string [OF u64_less_dec20 [of n]]
    by (simp add: pad20_def u64_to_string_def Let_def)
qed

lemma length_pad20 [simp]: "length (pad20 n) = 20"
  by (simp add: pad20_digits)

lemma length_to_be_bytes [simp]: "length (to_be_bytes n) = 8"
  by (simp add: to_be_bytes_def)

lemma length_to_le_bytes [simp]: "length (to_le_bytes n) = 8"
  by (simp add: to_le_bytes_def)

lemma length_i64_to_le_bytes [simp]: "length (i64_to_le_bytes n) = 8"
  by (simp add: i64_to_le_bytes_def)

lemma pad20_less_iff: "pad20 n < pad20 m \<longleftrightarrow> n < m"
proof -
  have "pad20 n < pad20 m \<longleftrightarrow> digits_fixed 10 20 (unat n) < digits_fixed 10 20 (unat m)"
    unfolding pad20_digits
    by (rule map_less_iff)
      (auto dest!: digits_fixed_less [rotated] simp: digit_char_less_iff digit_char_inj)
  also have "\<dots> \<longleftrightarrow> unat n < unat m"
    by (rule digits_fixed_less_iff) (use u64_less_dec20 in auto)
  finally show ?thesis by (simp add: word_less_nat_alt)
qed

lemma to_be_bytes_less_iff: "to_be_bytes n < to_be_bytes m \<longleftrightarrow> n < m"
proof -
  have "to_be_bytes n < to_be_bytes m
      \<longleftrightarrow> digits_fixed 256 8 (unat n) < digits_fixed 256 8 (unat m)"
    unfolding to_be_bytes_def
    by (rule map_less_iff)
      (auto dest!: digits_fixed_less [rotated] simp: char_of_less_iff char_of_inj)
  also have "\<dots> \<longleftrightarrow> unat n < unat m"
    by (rule digits_fixed_less_iff) (use u64_less in auto)
  finally show ?thesis by (simp add: word_less_nat_alt)
qed

lemma pad20_inj [simp]: "pad20 n = pad20 m \<longleftrightarrow> n = m"
  using pad20_less_iff [of n m] pad20_less_iff [of m n] by (cases n m rule: linorder_cases) auto

lemma to_be_bytes_inj [simp]: "to_be_bytes n = to_be_bytes m \<longleftrightarrow> n = m"
  using to_be_bytes_less_iff [of n m] to_be_bytes_less_iff [of m n] by (cases n m rule: linorder_cases) auto

lemma to_le_bytes_inj [simp]: "to_le_bytes n = to_le_bytes m \<longleftrightarrow> n = m"
  by (simp add: to_le_bytes_def)

text \<open>Printing and parsing are inverse.\<close>

lemma parse_digits_append:
  assumes "d < 10" and "parse_digits acc s = Inr m" and "unat m * 10 + d < 2 ^ 64" and "acc < 2 ^ 64"
  shows "parse_digits acc (s @ [digit_char d]) = Inr (of_nat (unat m * 10 + d))"
  using assms
proof (induction acc s rule: parse_digits.induct)
  case (1 acc)
  then have "unat m = acc" by (auto simp: unat_of_nat)
  with 1 show ?case by simp
next
  case (2 acc c cs)
  then show ?case by (auto split: option.splits if_splits)
qed

lemma parse_dec_string:
  "n < 2 ^ 64 \<Longrightarrow> parse_digits 0 (dec_string n) = Inr (of_nat n)"
proof (induction n rule: dec_string.induct)
  case (1 n)
  show ?case
  proof (cases "n < 10")
    case True
    then show ?thesis by (simp add: dec_string.simps [of n])
  next
    case False
    with 1 have IH: "parse_digits 0 (dec_string (n div 10)) = Inr (of_nat (n div 10))" by simp
    have "unat (of_nat (n div 10) :: u64) = n div 10"
      using 1 by (simp add: unat_of_nat)
    with parse_digits_append [OF _ IH, of "n mod 10"] False 1(2) show ?thesis
      by (simp add: dec_string.simps [of n])
  qed
qed

lemma dec_string_hd_digit: "\<exists>d<10. hd (dec_string n) = digit_char d"
  using set_dec_string [of "hd (dec_string n)" n] by simp

lemma digit_char_not_sign: "d < 10 \<Longrightarrow> digit_char d \<noteq> CHR ''+''" "d < 10 \<Longrightarrow> digit_char d \<noteq> CHR ''-''"
  by (auto dest!: arg_cong [of _ _ "of_char :: char \<Rightarrow> nat"] simp: of_char_digit_char)

lemma parse_u64_to_string [simp]: "parse_u64 (u64_to_string n) = Inr n"
proof -
  obtain d where "d < 10" "hd (u64_to_string n) = digit_char d"
    using dec_string_hd_digit [of "unat n"] by (auto simp: u64_to_string_def)
  then have "u64_to_string n \<noteq> []" "hd (u64_to_string n) \<noteq> CHR ''+''" "hd (u64_to_string n) \<noteq> CHR ''-''"
    by (simp_all add: digit_char_not_sign u64_to_string_def)
  then have "parse_u64 (u64_to_string n) = parse_digits 0 (u64_to_string n)"
    by (auto simp: parse_u64_def)
  then show ?thesis
    using parse_dec_string [of "unat n"] by (simp add: u64_to_string_def)
qed

lemma u64_to_string_inj [simp]: "u64_to_string n = u64_to_string m \<longleftrightarrow> n = m"
  by (metis parse_u64_to_string sum.inject(2))

section \<open>Lemmas on strings\<close>

lemma utf8_error_ascii: "\<forall>c \<in> set bs. (of_char c :: nat) < 128 \<Longrightarrow> utf8_error i bs = None"
  by (induction bs arbitrary: i) (simp_all add: Let_def)

lemma utf8_valid_ascii: "\<forall>c \<in> set bs. (of_char c :: nat) < 128 \<Longrightarrow> utf8_valid bs"
  by (simp add: utf8_valid_def utf8_error_ascii)

lemma from_utf8_valid [simp]: "utf8_valid bs \<Longrightarrow> from_utf8 bs = Inr bs"
  by (simp add: utf8_valid_def from_utf8_def)

lemma from_utf8_Inr: "from_utf8 bs = Inr s \<longleftrightarrow> utf8_valid bs \<and> s = bs"
  by (auto simp: utf8_valid_def from_utf8_def split: option.splits)

lemma utf8_valid_dec_string [simp]: "utf8_valid (dec_string n)"
  by (rule utf8_valid_ascii) (auto dest!: set_dec_string simp: of_char_digit_char)

lemma starts_with_append [simp]: "starts_with p (p @ s)"
  by (simp add: starts_with_def)

lemma starts_with_iff: "starts_with p s \<longleftrightarrow> (\<exists>t. s = p @ t)"
  by (metis append_eq_conv_conj append_take_drop_id starts_with_def)

section \<open>Totals over finite maps and proportional shares\<close>

definition map_total :: "('v \<Rightarrow> nat) \<Rightarrow> ('k \<Rightarrow> 'v option) \<Rightarrow> nat" where
  "map_total f m = (\<Sum>k \<in> dom m. f (the (m k)))"

definition opt_total :: "('v \<Rightarrow> nat) \<Rightarrow> 'v option \<Rightarrow> nat" where
  "opt_total f r = (case r of None \<Rightarrow> 0 | Some v \<Rightarrow> f v)"

lemma opt_total_simps [simp]: "opt_total f None = 0" "opt_total f (Some v) = f v"
  by (simp_all add: opt_total_def)

lemma map_total_empty [simp]: "map_total f (\<lambda>_. None) = 0"
  by (simp add: map_total_def)

lemma map_total_cong: "(\<And>k. k \<in> dom m \<Longrightarrow> m k = n k) \<Longrightarrow> dom m = dom n \<Longrightarrow> map_total f m = map_total f n"
  by (simp add: map_total_def)

text \<open>Changing one entry moves the total by the difference at its key.\<close>

lemma map_total_change:
  assumes "finite (dom m)"
  shows "map_total f (m(k := r)) + opt_total f (m k) = map_total f m + opt_total f r"
proof -
  have rest: "(\<Sum>j \<in> dom m - {k}. f (the ((m(k := r)) j))) = (\<Sum>j \<in> dom m - {k}. f (the (m j)))"
    by (rule sum.cong) auto
  have new: "map_total f (m(k := r)) = opt_total f r + (\<Sum>j \<in> dom m - {k}. f (the (m j)))"
    using assms rest by (cases r) (simp_all add: map_total_def sum.insert_remove)
  have old: "map_total f m = opt_total f (m k) + (\<Sum>j \<in> dom m - {k}. f (the (m j)))"
  proof (cases "m k")
    case None
    then have "dom m - {k} = dom m" by auto
    with None show ?thesis by (simp add: map_total_def)
  next
    case (Some v)
    then have "k \<in> dom m" by auto
    with assms Some show ?thesis by (simp add: map_total_def sum.remove [of "dom m" k])
  qed
  from new old show ?thesis by simp
qed

lemma map_total_entry_le: "finite (dom m) \<Longrightarrow> opt_total f (m k) \<le> map_total f m"
  using map_total_change [of m f k None] by simp

text \<open>A total is the sum over any list of the entries.\<close>

lemma map_total_list:
  assumes "distinct (map fst kps)"
  shows "map_total f (map_of kps) = (\<Sum>kp\<leftarrow>kps. f (snd kp))"
proof -
  have "map_total f (map_of kps) = (\<Sum>k \<in> set (map fst kps). f (the (map_of kps k)))"
    by (simp add: map_total_def dom_map_of_conv_image_fst)
  also have "\<dots> = (\<Sum>k\<leftarrow>map fst kps. f (the (map_of kps k)))"
    using assms by (simp only: sum_list_distinct_conv_sum_set)
  also have "\<dots> = (\<Sum>kp\<leftarrow>kps. f (snd kp))"
    using assms by (simp add: comp_def cong: map_cong) (auto intro!: arg_cong [of _ _ sum_list])
  finally show ?thesis .
qed

text \<open>Shares of \<open>t\<close> in proportion to weights, rounded down: their sum is at most \<open>t\<close>, and less
  than one unit per share is lost.\<close>

lemma sum_list_scaled: "(\<Sum>w\<leftarrow>ws. t * w) = sum_list ws * (t :: nat)"
  using sum_list_const_mult [of t "\<lambda>w. w" ws] by (simp only: list.map_ident mult.commute [of t])

lemma shares_le: "(\<Sum>w\<leftarrow>ws. t * w div sum_list ws) \<le> (t :: nat)"
proof (cases "sum_list ws = 0")
  case True
  then show ?thesis by (simp only: div_by_0) simp
next
  case False
  have "sum_list ws * (\<Sum>w\<leftarrow>ws. t * w div sum_list ws) = (\<Sum>w\<leftarrow>ws. sum_list ws * (t * w div sum_list ws))"
    by (simp add: sum_list_const_mult)
  also have "\<dots> \<le> (\<Sum>w\<leftarrow>ws. t * w)" by (intro sum_list_mono) simp
  also have "\<dots> = sum_list ws * t" by (rule sum_list_scaled)
  finally show ?thesis using False by simp
qed

lemma shares_dust:
  fixes t :: nat
  assumes "0 < sum_list ws"
  shows "t < (\<Sum>w\<leftarrow>ws. t * w div sum_list ws) + length ws"
proof -
  have ne: "ws \<noteq> []" using assms by auto
  have lt: "t * w < sum_list ws * (t * w div sum_list ws + 1)" for w
    using assms dividend_less_times_div [of "sum_list ws" "t * w"] by simp
  have "sum_list ws * t = (\<Sum>w\<leftarrow>ws. t * w)" by (rule sum_list_scaled [symmetric])
  also have "\<dots> < (\<Sum>w\<leftarrow>ws. sum_list ws * (t * w div sum_list ws + 1))"
    using ne lt by (intro sum_list_strict_mono) auto
  also have "\<dots> = sum_list ws * (\<Sum>w\<leftarrow>ws. t * w div sum_list ws + 1)" by (simp only: sum_list_const_mult)
  also have "(\<Sum>w\<leftarrow>ws. t * w div sum_list ws + 1) = (\<Sum>w\<leftarrow>ws. t * w div sum_list ws) + length ws"
    using sum_list_addf [of "\<lambda>w. t * w div sum_list ws" "\<lambda>_. 1" ws] by (simp add: sum_list_triv)
  finally show ?thesis using assms by simp
qed

end
