(* ===== verification/Types.thy ===== *)
theory Types
  imports Prelude
begin

text \<open>
  The data of the protocol: \<open>src/src/types/account.rs\<close>, \<open>transaction.rs\<close> and \<open>block.rs\<close>, with
  their methods, and the three structs other modules serialise (\<open>ChainTip\<close> of
  \<open>chain/block_producer.rs\<close>, \<open>StateSnapshot\<close> of \<open>storage/state_trie.rs\<close>, \<open>PendingUnstake\<close> of
  \<open>consensus/staking.rs\<close>). Field names carry the prefix of their struct, since the source
  uses \<open>hash\<close>, \<open>nonce\<close> and \<open>amount\<close> in several. The wall clock (\<open>Utc::now\<close>) is an
  argument \<open>now\<close>.
\<close>

section \<open>Accounts and validator tiers\<close>

datatype validator_tier = Igniter | Kinetic | Nexus

record account =
  acc_address :: string
  acc_balance :: u64
  acc_staked :: u64
  acc_nonce :: u64
  acc_tier :: "validator_tier option"
  acc_is_contract :: bool
  acc_last_reward_epoch :: u64

fun minimum_stake :: "validator_tier \<Rightarrow> u64" where
  "minimum_stake Igniter = 500000000000"
| "minimum_stake Kinetic = 5000000000000"
| "minimum_stake Nexus = 25000000000000"

fun reward_bonus_bps :: "validator_tier \<Rightarrow> u64" where
  "reward_bonus_bps Igniter = 0"
| "reward_bonus_bps Kinetic = 1500"
| "reward_bonus_bps Nexus = 3500"

definition from_staked_balance :: "u64 \<Rightarrow> validator_tier option" where
  "from_staked_balance staked =
     (if minimum_stake Nexus \<le> staked then Some Nexus
      else if minimum_stake Kinetic \<le> staked then Some Kinetic
      else if minimum_stake Igniter \<le> staked then Some Igniter
      else None)"

definition account_new :: "string \<Rightarrow> account" where
  "account_new addr =
     \<lparr>acc_address = addr, acc_balance = 0, acc_staked = 0, acc_nonce = 0, acc_tier = None,
      acc_is_contract = False, acc_last_reward_epoch = 0\<rparr>"

definition total_balance :: "account \<Rightarrow> u64" where
  "total_balance a = acc_balance a + acc_staked a"

definition can_afford :: "account \<Rightarrow> u64 \<Rightarrow> u64 \<Rightarrow> bool" where
  "can_afford a amt fee \<longleftrightarrow> amt + fee \<le> acc_balance a"

definition update_validator_tier :: "account \<Rightarrow> account" where
  "update_validator_tier a = a\<lparr>acc_tier := from_staked_balance (acc_staked a)\<rparr>"

definition is_validator :: "account \<Rightarrow> bool" where
  "is_validator a \<longleftrightarrow> acc_tier a \<noteq> None"

section \<open>Transactions\<close>

datatype transaction_type = Transfer | StakeLock | StakeUnlock | ContractDeploy | ContractCall

record transaction =
  tx_hash :: string
  tx_sender :: string
  tx_receiver :: string
  tx_amount :: u64
  tx_fee :: u64
  tx_nonce :: u64
  tx_signature :: string
  tx_timestamp :: i64
  tx_type :: transaction_type
  tx_data :: bytes

definition transaction_new ::
  "i64 \<Rightarrow> string \<Rightarrow> string \<Rightarrow> u64 \<Rightarrow> u64 \<Rightarrow> u64 \<Rightarrow> transaction_type \<Rightarrow> bytes \<Rightarrow> transaction" where
  "transaction_new now sndr rcvr amt fee nonce ty dat =
     \<lparr>tx_hash = '''', tx_sender = sndr, tx_receiver = rcvr, tx_amount = amt, tx_fee = fee,
      tx_nonce = nonce, tx_signature = '''', tx_timestamp = now, tx_type = ty, tx_data = dat\<rparr>"

definition is_signed :: "transaction \<Rightarrow> bool" where
  "is_signed t \<longleftrightarrow> tx_hash t \<noteq> [] \<and> tx_signature t \<noteq> []"

definition is_transfer :: "transaction \<Rightarrow> bool" where
  "is_transfer t \<longleftrightarrow> tx_type t = Transfer"

definition is_contract_deploy :: "transaction \<Rightarrow> bool" where
  "is_contract_deploy t \<longleftrightarrow> tx_type t = ContractDeploy"

section \<open>Blocks\<close>

record block_header =
  hdr_index :: u64
  hdr_timestamp :: i64
  hdr_previous_hash :: string
  hdr_merkle_root :: string
  hdr_nonce :: u64
  hdr_difficulty :: u32
  hdr_is_epoch :: bool
  hdr_epoch_index :: u64
  hdr_state_root :: string

record block =
  blk_header :: block_header
  blk_tx_hashes :: "string list"
  blk_hash :: string
  blk_validator_signature :: string
  blk_producer :: string
  blk_reward :: u64

definition block_header_new ::
  "i64 \<Rightarrow> u64 \<Rightarrow> string \<Rightarrow> string \<Rightarrow> u32 \<Rightarrow> bool \<Rightarrow> u64 \<Rightarrow> block_header" where
  "block_header_new now idx prev root diff epoch eidx =
     \<lparr>hdr_index = idx, hdr_timestamp = now, hdr_previous_hash = prev, hdr_merkle_root = root,
      hdr_nonce = 0, hdr_difficulty = diff, hdr_is_epoch = epoch, hdr_epoch_index = eidx,
      hdr_state_root = ''''\<rparr>"

definition block_new :: "block_header \<Rightarrow> string list \<Rightarrow> string \<Rightarrow> u64 \<Rightarrow> block" where
  "block_new header hashes producer reward =
     \<lparr>blk_header = header, blk_tx_hashes = hashes, blk_hash = '''', blk_validator_signature = '''',
      blk_producer = producer, blk_reward = reward\<rparr>"

definition block_is_epoch :: "block \<Rightarrow> bool" where
  "block_is_epoch b = hdr_is_epoch (blk_header b)"

definition block_height :: "block \<Rightarrow> u64" where
  "block_height b = hdr_index (blk_header b)"

section \<open>Structs of other modules that are stored\<close>

record chain_tip =
  tip_hash :: string
  tip_height :: u64
  tip_timestamp :: i64
  tip_difficulty :: u32
  tip_epoch_index :: u64
  tip_total_work :: u64

record state_snapshot =
  snap_height :: u64
  snap_state_root :: string
  snap_accounts :: "(string \<times> account option) list"

record pending_unstake =
  pu_address :: string
  pu_amount :: u64
  pu_request_epoch :: u64
  pu_unlock_epoch :: u64

section \<open>Lemmas on accounts\<close>

lemma account_new_simps [simp]:
  "acc_address (account_new k) = k" "acc_balance (account_new k) = 0"
  "acc_staked (account_new k) = 0" "acc_nonce (account_new k) = 0" "acc_tier (account_new k) = None"
  by (simp_all add: account_new_def)

lemma update_validator_tier_simps [simp]:
  "acc_address (update_validator_tier a) = acc_address a"
  "acc_balance (update_validator_tier a) = acc_balance a"
  "acc_staked (update_validator_tier a) = acc_staked a"
  "acc_nonce (update_validator_tier a) = acc_nonce a"
  "acc_tier (update_validator_tier a) = from_staked_balance (acc_staked a)"
  by (simp_all add: update_validator_tier_def)

text \<open>A tier is the highest one whose minimum the stake reaches.\<close>

lemma from_staked_balance_Some_iff:
  "from_staked_balance s = Some t \<longleftrightarrow>
     minimum_stake t \<le> s \<and> (\<forall>t'. minimum_stake t' \<le> s \<longrightarrow> minimum_stake t' \<le> minimum_stake t)"
proof -
  have all: "(\<forall>t'. P t') \<longleftrightarrow> P Igniter \<and> P Kinetic \<and> P Nexus" for P
    by (metis validator_tier.exhaust)
  show ?thesis
    by (cases t) (auto simp: from_staked_balance_def all word_le_nat_alt not_le)
qed

lemma from_staked_balance_None_iff:
  "from_staked_balance s = None \<longleftrightarrow> s < minimum_stake Igniter"
  by (auto simp: from_staked_balance_def word_le_nat_alt word_less_nat_alt)

lemma from_staked_balance_mono:
  assumes "s \<le> s'" and "from_staked_balance s = Some t"
  shows "\<exists>t'. from_staked_balance s' = Some t' \<and> minimum_stake t \<le> minimum_stake t'"
  using assms
  by (cases t) (auto simp: from_staked_balance_def word_le_nat_alt split: if_splits)

end
