(* ===== verification/Crates.thy ===== *)
theory Crates
  imports Types
begin

text \<open>
  The third-party code the program calls, as parameters of the model. Nothing here defines
  what a crate computes: a record holds its functions, a predicate states the documented
  behaviour the theorems rely on.

  \<^item> \<open>hashing\<close>: SHA3-256 (crate sha3; a hasher fed in pieces digests the concatenation) and
    the hexadecimal text of bytes (crate hex).
  \<^item> \<open>'t backend\<close>: the operations of a sled tree of type \<open>'t\<close> and the serde_json encoders
    and decoders of the stored structs. Every sled operation may return an error.
    \<open>tree_contents\<close> is not an operation: it names the map from keys to values a tree holds, for
    the laws to speak about.
  \<^item> \<open>backend_ok\<close> is what the storage layer relies on: a call that reports success did what
    it says, a single-key write that reports an error is either applied or not applied, and a
    value decodes to what was encoded. \<open>backend_total\<close> adds that no call reports an error.
\<close>

section \<open>Hashing\<close>

record hashing =
  sha3_256_digest :: "bytes \<Rightarrow> bytes"
  hex_encode :: "bytes \<Rightarrow> string"
  hex_decode :: "string \<Rightarrow> string + bytes"

definition lower_hex_digits :: "char set" where
  "lower_hex_digits = set ''0123456789abcdef''"

definition hashing_ok :: "hashing \<Rightarrow> bool" where
  "hashing_ok H \<longleftrightarrow>
     (\<forall>b. length (sha3_256_digest H b) = 32)
     \<and> (\<forall>b. length (hex_encode H b) = 2 * length b)
     \<and> (\<forall>b. set (hex_encode H b) \<subseteq> lower_hex_digits)
     \<and> (\<forall>b. hex_decode H (hex_encode H b) = Inr b)"

text \<open>No two of the inputs \<open>A\<close> share a digest. A theorem about what a hash binds names the
  finite set of inputs the program hashed, so that a violation is a collision among them.\<close>

definition collision_free :: "hashing \<Rightarrow> bytes set \<Rightarrow> bool" where
  "collision_free H A \<longleftrightarrow> inj_on (sha3_256_digest H) A"

section \<open>The key-value store and the encoders\<close>

record 'a codec =
  to_vec :: "'a \<Rightarrow> string + bytes"
  from_slice :: "bytes \<Rightarrow> string + 'a"

definition decode_entry :: "'a codec \<Rightarrow> bytes \<Rightarrow> 'a option" where
  "decode_entry c bs = (case from_slice c bs of Inl e \<Rightarrow> None | Inr a \<Rightarrow> Some a)"

definition codec_ok :: "'a codec \<Rightarrow> bool" where
  "codec_ok c \<longleftrightarrow> (\<forall>x bs. to_vec c x = Inr bs \<longrightarrow> from_slice c bs = Inr x)"

definition codec_total :: "'a codec \<Rightarrow> bool" where
  "codec_total c \<longleftrightarrow> (\<forall>x. \<exists>bs. to_vec c x = Inr bs)"

record 't backend =
  sled_open :: "string \<Rightarrow> string + 't"
  sled_open_temp :: "string + 't"
  sled_open_tree :: "'t \<Rightarrow> string \<Rightarrow> string + 't"
  sled_flush :: "'t \<Rightarrow> string + nat"
  sled_insert :: "'t \<Rightarrow> bytes \<Rightarrow> bytes \<Rightarrow> (string + bytes option) \<times> 't"
  sled_get :: "'t \<Rightarrow> bytes \<Rightarrow> string + bytes option"
  sled_remove :: "'t \<Rightarrow> bytes \<Rightarrow> (string + bytes option) \<times> 't"
  sled_contains_key :: "'t \<Rightarrow> bytes \<Rightarrow> string + bool"
  sled_len :: "'t \<Rightarrow> nat"
  sled_iter :: "'t \<Rightarrow> (string + bytes \<times> bytes) list"
  sled_scan_prefix :: "'t \<Rightarrow> bytes \<Rightarrow> (string + bytes \<times> bytes) list"
  tree_contents :: "'t \<Rightarrow> bytes \<Rightarrow> bytes option"
  account_json :: "account codec"
  block_json :: "block codec"
  tx_json :: "transaction codec"
  tip_json :: "chain_tip codec"
  snapshot_json :: "state_snapshot codec"
  pending_json :: "pending_unstake codec"

text \<open>A list of entries in strict key order that holds exactly the map \<open>m\<close>.\<close>

definition lists_map :: "(bytes \<times> bytes) list \<Rightarrow> (bytes \<Rightarrow> bytes option) \<Rightarrow> bool" where
  "lists_map kvs m \<longleftrightarrow> sorted_wrt (<) (map fst kvs) \<and> map_of kvs = m"

definition sled_ok :: "'t backend \<Rightarrow> bool" where
  "sled_ok B \<longleftrightarrow>
     (\<forall>t. finite (dom (tree_contents B t)))
     \<and> (\<forall>t k r. sled_get B t k = Inr r \<longrightarrow> r = tree_contents B t k)
     \<and> (\<forall>t k v r t'. sled_insert B t k v = (Inr r, t') \<longrightarrow>
          tree_contents B t' = (tree_contents B t)(k \<mapsto> v))
     \<and> (\<forall>t k v e t'. sled_insert B t k v = (Inl e, t') \<longrightarrow>
          tree_contents B t' = tree_contents B t
          \<or> tree_contents B t' = (tree_contents B t)(k \<mapsto> v))
     \<and> (\<forall>t k r t'. sled_remove B t k = (Inr r, t') \<longrightarrow>
          tree_contents B t' = (tree_contents B t)(k := None))
     \<and> (\<forall>t k e t'. sled_remove B t k = (Inl e, t') \<longrightarrow>
          tree_contents B t' = tree_contents B t
          \<or> tree_contents B t' = (tree_contents B t)(k := None))
     \<and> (\<forall>t k b. sled_contains_key B t k = Inr b \<longrightarrow> b = (tree_contents B t k \<noteq> None))
     \<and> (\<forall>t. sled_len B t = card (dom (tree_contents B t)))
     \<and> (\<forall>t kvs. sled_iter B t = map Inr kvs \<longrightarrow> lists_map kvs (tree_contents B t))
     \<and> (\<forall>t p kvs. sled_scan_prefix B t p = map Inr kvs \<longrightarrow>
          lists_map kvs (tree_contents B t |` {k. starts_with p k}))"

definition backend_ok :: "'t backend \<Rightarrow> bool" where
  "backend_ok B \<longleftrightarrow> sled_ok B \<and> codec_ok (account_json B) \<and> codec_ok (block_json B)
     \<and> codec_ok (tx_json B) \<and> codec_ok (tip_json B) \<and> codec_ok (snapshot_json B)
     \<and> codec_ok (pending_json B)"

definition backend_total :: "'t backend \<Rightarrow> bool" where
  "backend_total B \<longleftrightarrow> backend_ok B
     \<and> (\<forall>t k v. \<exists>r t'. sled_insert B t k v = (Inr r, t'))
     \<and> (\<forall>t k. \<exists>r. sled_get B t k = Inr r)
     \<and> (\<forall>t k. \<exists>r t'. sled_remove B t k = (Inr r, t'))
     \<and> (\<forall>t. \<exists>kvs. sled_iter B t = map Inr kvs)
     \<and> (\<forall>t p. \<exists>kvs. sled_scan_prefix B t p = map Inr kvs)
     \<and> codec_total (account_json B) \<and> codec_total (block_json B)
     \<and> codec_total (tx_json B) \<and> codec_total (tip_json B) \<and> codec_total (snapshot_json B)
     \<and> codec_total (pending_json B)"

section \<open>The laws, one by one\<close>

lemma digest_length: "hashing_ok H \<Longrightarrow> length (sha3_256_digest H b) = 32"
  by (simp add: hashing_ok_def)

lemma collision_freeD:
  "collision_free H A \<Longrightarrow> sha3_256_digest H a = sha3_256_digest H b \<Longrightarrow> a \<in> A \<Longrightarrow> b \<in> A \<Longrightarrow> a = b"
  by (simp add: collision_free_def inj_on_def)

lemma collision_free_subset: "collision_free H A \<Longrightarrow> B \<subseteq> A \<Longrightarrow> collision_free H B"
  by (simp add: collision_free_def inj_on_subset)

lemma hex_encode_length: "hashing_ok H \<Longrightarrow> length (hex_encode H b) = 2 * length b"
  by (simp add: hashing_ok_def)

lemma hex_encode_digits: "hashing_ok H \<Longrightarrow> set (hex_encode H b) \<subseteq> lower_hex_digits"
  by (simp add: hashing_ok_def)

lemma hex_decode_encode: "hashing_ok H \<Longrightarrow> hex_decode H (hex_encode H b) = Inr b"
  by (simp add: hashing_ok_def)

lemma lower_hex_ascii: "c \<in> lower_hex_digits \<Longrightarrow> (of_char c :: nat) < 128"
  by (auto simp: lower_hex_digits_def)

lemma hex_encode_valid: "hashing_ok H \<Longrightarrow> utf8_valid (hex_encode H b)"
  using hex_encode_digits lower_hex_ascii by (blast intro: utf8_valid_ascii)

lemma codec_roundtrip: "codec_ok c \<Longrightarrow> to_vec c x = Inr bs \<Longrightarrow> from_slice c bs = Inr x"
  by (simp add: codec_ok_def)

lemma to_vec_decode: "codec_ok c \<Longrightarrow> to_vec c x = Inr bs \<Longrightarrow> decode_entry c bs = Some x"
  by (simp add: decode_entry_def codec_roundtrip)

lemma decode_entry_Some: "decode_entry c bs = Some x \<longleftrightarrow> from_slice c bs = Inr x"
  by (simp add: decode_entry_def split: sum.splits)

lemma backend_okD:
  assumes "backend_ok B"
  shows "sled_ok B" "codec_ok (account_json B)" "codec_ok (block_json B)" "codec_ok (tx_json B)"
    "codec_ok (tip_json B)" "codec_ok (snapshot_json B)" "codec_ok (pending_json B)"
  using assms by (simp_all add: backend_ok_def)

lemma sled_finite: "sled_ok B \<Longrightarrow> finite (dom (tree_contents B t))"
  by (simp add: sled_ok_def)

lemma sled_get_contents: "sled_ok B \<Longrightarrow> sled_get B t k = Inr r \<Longrightarrow> r = tree_contents B t k"
  by (simp add: sled_ok_def)

lemma sled_insert_contents:
  "sled_ok B \<Longrightarrow> sled_insert B t k v = (Inr r, t') \<Longrightarrow>
     tree_contents B t' = (tree_contents B t)(k \<mapsto> v)"
  by (simp add: sled_ok_def)

lemma sled_insert_atomic:
  "sled_ok B \<Longrightarrow> sled_insert B t k v = (Inl e, t') \<Longrightarrow>
     tree_contents B t' = tree_contents B t \<or> tree_contents B t' = (tree_contents B t)(k \<mapsto> v)"
  by (simp add: sled_ok_def)

lemma sled_remove_contents:
  "sled_ok B \<Longrightarrow> sled_remove B t k = (Inr r, t') \<Longrightarrow>
     tree_contents B t' = (tree_contents B t)(k := None)"
  by (simp add: sled_ok_def)

lemma sled_remove_atomic:
  "sled_ok B \<Longrightarrow> sled_remove B t k = (Inl e, t') \<Longrightarrow>
     tree_contents B t' = tree_contents B t \<or> tree_contents B t' = (tree_contents B t)(k := None)"
  by (simp add: sled_ok_def)

lemma sled_contains_contents:
  "sled_ok B \<Longrightarrow> sled_contains_key B t k = Inr b \<Longrightarrow> b = (tree_contents B t k \<noteq> None)"
  by (simp add: sled_ok_def)

lemma sled_len_contents: "sled_ok B \<Longrightarrow> sled_len B t = card (dom (tree_contents B t))"
  by (simp add: sled_ok_def)

lemma sled_iter_contents:
  "sled_ok B \<Longrightarrow> sled_iter B t = map Inr kvs \<Longrightarrow> lists_map kvs (tree_contents B t)"
  by (simp add: sled_ok_def)

lemma sled_scan_contents:
  "sled_ok B \<Longrightarrow> sled_scan_prefix B t p = map Inr kvs \<Longrightarrow>
     lists_map kvs (tree_contents B t |` {k. starts_with p k})"
  by (simp add: sled_ok_def)

lemma backend_total_ok: "backend_total B \<Longrightarrow> backend_ok B"
  by (simp add: backend_total_def)

lemma total_insert: "backend_total B \<Longrightarrow> \<exists>r t'. sled_insert B t k v = (Inr r, t')"
  by (simp add: backend_total_def)

lemma total_remove: "backend_total B \<Longrightarrow> \<exists>r t'. sled_remove B t k = (Inr r, t')"
  by (simp add: backend_total_def)

lemma total_iter: "backend_total B \<Longrightarrow> \<exists>kvs. sled_iter B t = map Inr kvs"
  by (simp add: backend_total_def)

lemma total_scan: "backend_total B \<Longrightarrow> \<exists>kvs. sled_scan_prefix B t p = map Inr kvs"
  by (simp add: backend_total_def)

lemma total_get: "backend_total B \<Longrightarrow> sled_get B t k = Inr (tree_contents B t k)"
  unfolding backend_total_def backend_ok_def by (metis sled_get_contents)

lemma total_to_vec:
  assumes "backend_total B"
  shows "\<exists>bs. to_vec (account_json B) a = Inr bs" "\<exists>bs. to_vec (block_json B) b = Inr bs"
    "\<exists>bs. to_vec (tx_json B) t = Inr bs" "\<exists>bs. to_vec (tip_json B) c = Inr bs"
    "\<exists>bs. to_vec (snapshot_json B) s = Inr bs" "\<exists>bs. to_vec (pending_json B) p = Inr bs"
  using assms by (simp_all add: backend_total_def codec_total_def)

lemma lists_map_distinct: "lists_map kvs m \<Longrightarrow> distinct (map fst kvs)"
  unfolding lists_map_def by (metis strict_sorted_iff)

lemma lists_map_set: "lists_map kvs m \<Longrightarrow> (k, v) \<in> set kvs \<longleftrightarrow> m k = Some v"
  by (metis lists_map_def lists_map_distinct map_of_eq_Some_iff)

lemma lists_map_keys: "lists_map kvs m \<Longrightarrow> set (map fst kvs) = dom m"
  by (simp add: lists_map_def flip: dom_map_of_conv_image_fst)

end
