(* ===== verification/Db.thy ===== *)
theory Db
  imports Crates
begin

text \<open>
  The database handle, \<open>src/src/storage/db.rs\<close>: one record of sled trees and the thin wrappers
  that put the crate's error into a message. The wrappers work on a tree; \<open>on_accounts\<close> and its
  companions put the tree a write leaves behind back into the handle.

  The locale \<open>typed_store\<close> is the interface the stores above it share (accounts, blocks,
  transactions): a value is put under its own key and read back from it. Its client lemmas
  cover reading after writing and loops of writes (\<open>run_all\<close>, a Rust \<open>for\<close> loop whose body
  ends in a question mark); each store interprets it.
\<close>

section \<open>The handle\<close>

record 't kyvera_db =
  db_handle :: 't
  db_blocks_by_hash :: 't
  db_blocks_by_height :: 't
  db_accounts :: 't
  db_transactions :: 't
  db_metadata :: 't

definition db_open :: "'t backend \<Rightarrow> string \<Rightarrow> string + 't kyvera_db" where
  "db_open B path =
     res_bind (map_err (\<lambda>e. ''Failed to open database at '' @ path @ '': '' @ e) (sled_open B path)) (\<lambda>h.
     res_bind (map_err (\<lambda>e. ''Failed to open blocks_by_hash tree: '' @ e)
       (sled_open_tree B h ''blocks_by_hash'')) (\<lambda>bh.
     res_bind (map_err (\<lambda>e. ''Failed to open blocks_by_height tree: '' @ e)
       (sled_open_tree B h ''blocks_by_height'')) (\<lambda>bn.
     res_bind (map_err (\<lambda>e. ''Failed to open accounts tree: '' @ e)
       (sled_open_tree B h ''accounts'')) (\<lambda>ac.
     res_bind (map_err (\<lambda>e. ''Failed to open transactions tree: '' @ e)
       (sled_open_tree B h ''transactions'')) (\<lambda>txs.
     res_bind (map_err (\<lambda>e. ''Failed to open metadata tree: '' @ e)
       (sled_open_tree B h ''metadata'')) (\<lambda>md.
     Inr \<lparr>db_handle = h, db_blocks_by_hash = bh, db_blocks_by_height = bn, db_accounts = ac,
          db_transactions = txs, db_metadata = md\<rparr>))))))"

definition db_open_temp :: "'t backend \<Rightarrow> string + 't kyvera_db" where
  "db_open_temp B =
     res_bind (map_err (\<lambda>e. ''Failed to open temp database: '' @ e) (sled_open_temp B)) (\<lambda>h.
     res_bind (sled_open_tree B h ''blocks_by_hash'') (\<lambda>bh.
     res_bind (sled_open_tree B h ''blocks_by_height'') (\<lambda>bn.
     res_bind (sled_open_tree B h ''accounts'') (\<lambda>ac.
     res_bind (sled_open_tree B h ''transactions'') (\<lambda>txs.
     res_bind (sled_open_tree B h ''metadata'') (\<lambda>md.
     Inr \<lparr>db_handle = h, db_blocks_by_hash = bh, db_blocks_by_height = bn, db_accounts = ac,
          db_transactions = txs, db_metadata = md\<rparr>))))))"

definition db_flush :: "'t backend \<Rightarrow> 't kyvera_db \<Rightarrow> string + unit" where
  "db_flush B db =
     map_err (\<lambda>e. ''Flush failed: '' @ e) (res_bind (sled_flush B (db_handle db)) (\<lambda>_. Inr ()))"

definition db_write :: "'t backend \<Rightarrow> 't \<Rightarrow> bytes \<Rightarrow> bytes \<Rightarrow> (string + unit) \<times> 't" where
  "db_write B t k v =
     (case sled_insert B t k v of (r, t') \<Rightarrow>
        (map_err (\<lambda>e. ''Write failed: '' @ e) (res_bind r (\<lambda>_. Inr ())), t'))"

definition db_read :: "'t backend \<Rightarrow> 't \<Rightarrow> bytes \<Rightarrow> string + bytes option" where
  "db_read B t k = map_err (\<lambda>e. ''Read failed: '' @ e) (sled_get B t k)"

definition db_delete :: "'t backend \<Rightarrow> 't \<Rightarrow> bytes \<Rightarrow> (string + unit) \<times> 't" where
  "db_delete B t k =
     (case sled_remove B t k of (r, t') \<Rightarrow>
        (map_err (\<lambda>e. ''Delete failed: '' @ e) (res_bind r (\<lambda>_. Inr ())), t'))"

definition db_exists :: "'t backend \<Rightarrow> 't \<Rightarrow> bytes \<Rightarrow> string + bool" where
  "db_exists B t k = map_err (\<lambda>e. ''Exists check failed: '' @ e) (sled_contains_key B t k)"

definition db_count :: "'t backend \<Rightarrow> 't \<Rightarrow> nat" where
  "db_count B t = sled_len B t"

definition on_accounts :: "'t kyvera_db \<Rightarrow> 'r \<times> 't \<Rightarrow> 'r \<times> 't kyvera_db" where
  "on_accounts db p = (fst p, db\<lparr>db_accounts := snd p\<rparr>)"

definition on_blocks_by_hash :: "'t kyvera_db \<Rightarrow> 'r \<times> 't \<Rightarrow> 'r \<times> 't kyvera_db" where
  "on_blocks_by_hash db p = (fst p, db\<lparr>db_blocks_by_hash := snd p\<rparr>)"

definition on_blocks_by_height :: "'t kyvera_db \<Rightarrow> 'r \<times> 't \<Rightarrow> 'r \<times> 't kyvera_db" where
  "on_blocks_by_height db p = (fst p, db\<lparr>db_blocks_by_height := snd p\<rparr>)"

definition on_transactions :: "'t kyvera_db \<Rightarrow> 'r \<times> 't \<Rightarrow> 'r \<times> 't kyvera_db" where
  "on_transactions db p = (fst p, db\<lparr>db_transactions := snd p\<rparr>)"

definition on_metadata :: "'t kyvera_db \<Rightarrow> 'r \<times> 't \<Rightarrow> 'r \<times> 't kyvera_db" where
  "on_metadata db p = (fst p, db\<lparr>db_metadata := snd p\<rparr>)"

definition set_metadata ::
  "'t backend \<Rightarrow> 't kyvera_db \<Rightarrow> string \<Rightarrow> bytes \<Rightarrow> (string + unit) \<times> 't kyvera_db" where
  "set_metadata B db k v = on_metadata db (db_write B (db_metadata db) k v)"

definition get_metadata :: "'t backend \<Rightarrow> 't kyvera_db \<Rightarrow> string \<Rightarrow> string + bytes option" where
  "get_metadata B db k = db_read B (db_metadata db) k"

text \<open>A loop \<open>for x in xs { f(db, x)?; }\<close>.\<close>

fun run_all :: "('s \<Rightarrow> 'x \<Rightarrow> ('e + unit) \<times> 's) \<Rightarrow> 's \<Rightarrow> 'x list \<Rightarrow> ('e + unit) \<times> 's" where
  "run_all f s [] = (Inr (), s)"
| "run_all f s (x # xs) = st_bind (f s x) (\<lambda>_ s'. run_all f s' xs)"

section \<open>The wrappers over a lawful store\<close>

lemma on_tree_simps [simp]:
  "on_accounts db (r, t) = (r, db\<lparr>db_accounts := t\<rparr>)"
  "on_blocks_by_hash db (r, t) = (r, db\<lparr>db_blocks_by_hash := t\<rparr>)"
  "on_blocks_by_height db (r, t) = (r, db\<lparr>db_blocks_by_height := t\<rparr>)"
  "on_transactions db (r, t) = (r, db\<lparr>db_transactions := t\<rparr>)"
  "on_metadata db (r, t) = (r, db\<lparr>db_metadata := t\<rparr>)"
  by (simp_all add: on_accounts_def on_blocks_by_hash_def on_blocks_by_height_def
      on_transactions_def on_metadata_def)

lemma db_write_ok:
  "sled_ok B \<Longrightarrow> db_write B t k v = (Inr u, t') \<Longrightarrow>
     tree_contents B t' = (tree_contents B t)(k \<mapsto> v)"
  by (auto simp: db_write_def res_bind_eq_Inr sled_insert_contents split: prod.splits)

lemma db_write_atomic:
  assumes "sled_ok B"
  shows "tree_contents B (snd (db_write B t k v)) = tree_contents B t
    \<or> tree_contents B (snd (db_write B t k v)) = (tree_contents B t)(k \<mapsto> v)"
proof (cases "sled_insert B t k v")
  case (Pair r t')
  then show ?thesis
    using sled_insert_contents [OF assms] sled_insert_atomic [OF assms]
    by (cases r) (simp_all add: db_write_def)
qed

lemma db_delete_ok:
  "sled_ok B \<Longrightarrow> db_delete B t k = (Inr u, t') \<Longrightarrow>
     tree_contents B t' = (tree_contents B t)(k := None)"
  by (auto simp: db_delete_def res_bind_eq_Inr sled_remove_contents split: prod.splits)

lemma db_delete_atomic:
  assumes "sled_ok B"
  shows "tree_contents B (snd (db_delete B t k)) = tree_contents B t
    \<or> tree_contents B (snd (db_delete B t k)) = (tree_contents B t)(k := None)"
proof (cases "sled_remove B t k")
  case (Pair r t')
  then show ?thesis
    using sled_remove_contents [OF assms] sled_remove_atomic [OF assms]
    by (cases r) (simp_all add: db_delete_def)
qed

lemma db_read_ok: "sled_ok B \<Longrightarrow> db_read B t k = Inr r \<Longrightarrow> r = tree_contents B t k"
  by (simp add: db_read_def sled_get_contents)

text \<open>The read the stores share: look the key up, decode what is there.\<close>

lemma typed_read:
  assumes "sled_ok B"
    and "res_bind (db_read B t k) (\<lambda>d. case d of None \<Rightarrow> Inr None
      | Some bs \<Rightarrow> res_bind (map_err g (from_slice c bs)) (\<lambda>a. Inr (Some a))) = Inr r"
  shows "r = Option.bind (tree_contents B t k) (decode_entry c)"
proof -
  obtain d where "db_read B t k = Inr d" using assms(2) by (auto simp: res_bind_eq_Inr)
  then have "db_read B t k = Inr (tree_contents B t k)" using db_read_ok [OF assms(1)] by simp
  with assms(2) show ?thesis
    by (cases "tree_contents B t k") (auto simp: res_bind_eq_Inr decode_entry_def)
qed

lemma db_exists_ok: "sled_ok B \<Longrightarrow> db_exists B t k = Inr b \<Longrightarrow> b = (tree_contents B t k \<noteq> None)"
  using sled_contains_contents [of B t k b] by (simp add: db_exists_def)

lemma db_count_ok: "sled_ok B \<Longrightarrow> db_count B t = card (dom (tree_contents B t))"
  by (simp add: db_count_def sled_len_contents)

lemma db_read_total: "backend_total B \<Longrightarrow> db_read B t k = Inr (tree_contents B t k)"
  by (simp add: db_read_def total_get)

lemma db_write_total: "backend_total B \<Longrightarrow> \<exists>t'. db_write B t k v = (Inr (), t')"
  using total_insert [of B t k v] by (auto simp: db_write_def)

lemma db_delete_total: "backend_total B \<Longrightarrow> \<exists>t'. db_delete B t k = (Inr (), t')"
  using total_remove [of B t k] by (auto simp: db_delete_def)

lemma set_metadata_okE:
  assumes "set_metadata B db k v = (Inr u, db')"
  obtains t where "db_write B (db_metadata db) k v = (Inr u, t)" "db' = db\<lparr>db_metadata := t\<rparr>"
  using assms by (cases "db_write B (db_metadata db) k v") (auto simp: set_metadata_def)

lemma set_metadata_other:
  "\<exists>t. snd (set_metadata B db k v) = db\<lparr>db_metadata := t\<rparr>"
  by (auto simp: set_metadata_def on_metadata_def)

text \<open>The contents of the metadata tree, which many modules share.\<close>

definition metadata :: "'t backend \<Rightarrow> 't kyvera_db \<Rightarrow> bytes \<Rightarrow> bytes option" where
  "metadata B db = tree_contents B (db_metadata db)"

lemma get_metadata_view: "sled_ok B \<Longrightarrow> get_metadata B db k = Inr r \<Longrightarrow> r = metadata B db k"
  by (simp add: get_metadata_def metadata_def db_read_ok)

lemma get_metadata_total: "backend_total B \<Longrightarrow> get_metadata B db k = Inr (metadata B db k)"
  by (simp add: get_metadata_def metadata_def db_read_total)

lemma set_metadata_view:
  assumes "sled_ok B" "set_metadata B db k v = (Inr u, db')"
  shows "metadata B db' = (metadata B db)(k \<mapsto> v)"
proof -
  obtain t where "db_write B (db_metadata db) k v = (Inr u, t)" "db' = db\<lparr>db_metadata := t\<rparr>"
    using assms(2) by (rule set_metadata_okE)
  then show ?thesis using db_write_ok [OF assms(1)] by (simp add: metadata_def)
qed

lemma metadata_roundtrip:
  "sled_ok B \<Longrightarrow> set_metadata B db k v = (Inr u, db') \<Longrightarrow> get_metadata B db' k = Inr r \<Longrightarrow> r = Some v"
  using set_metadata_view [of B db k v u db'] get_metadata_view [of B db' k r] by simp

lemma set_metadata_total:
  assumes "backend_total B"
  obtains db' where "set_metadata B db k v = (Inr (), db')"
  using db_write_total [OF assms, of "db_metadata db" k v] by (auto simp: set_metadata_def)

section \<open>Loops\<close>

lemma run_all_append:
  "run_all f s (xs @ ys) = st_bind (run_all f s xs) (\<lambda>_ s'. run_all f s' ys)"
proof (induction xs arbitrary: s)
  case Nil
  then show ?case by simp
next
  case (Cons x xs)
  then show ?case by (cases "f s x"; cases "fst (f s x)") simp_all
qed

text \<open>What every pass of the body keeps, the loop keeps, whether it ends early or not.\<close>

lemma run_all_invariant:
  assumes "\<And>s x. x \<in> set xs \<Longrightarrow> P s \<Longrightarrow> P (snd (f s x))" and "P s"
  shows "P (snd (run_all f s xs))"
  using assms
proof (induction xs arbitrary: s)
  case Nil
  then show ?case by simp
next
  case (Cons x xs)
  have "P (snd (f s x))" by (rule Cons.prems) (use Cons.prems in simp_all)
  then show ?case
    unfolding run_all.simps
    by (rule st_bind_state) (metis Cons list.set_intros(2) snd_conv \<open>P (snd (f s x))\<close>)
qed

lemma run_all_total:
  assumes "\<And>s x. x \<in> set xs \<Longrightarrow> \<exists>s'. f s x = (Inr (), s')"
  shows "\<exists>s'. run_all f s xs = (Inr (), s')"
  using assms
proof (induction xs arbitrary: s)
  case Nil
  then show ?case by simp
next
  case (Cons x xs)
  from Cons.prems [of x s] obtain s1 where "f s x = (Inr (), s1)" by auto
  with Cons show ?case by simp
qed

section \<open>The interface of a typed store\<close>

locale typed_store =
  fixes ok :: "'e \<Rightarrow> bool"
    and view :: "'e \<Rightarrow> 's \<Rightarrow> 'k \<Rightarrow> 'v option"
    and key :: "'v \<Rightarrow> 'k"
    and valid :: "'k \<Rightarrow> bool"
    and put :: "'e \<Rightarrow> 's \<Rightarrow> 'v \<Rightarrow> (string + unit) \<times> 's"
    and get :: "'e \<Rightarrow> 's \<Rightarrow> 'k \<Rightarrow> string + 'v option"
  assumes put_view: "ok e \<Longrightarrow> valid (key v) \<Longrightarrow> put e s v = (Inr (), s') \<Longrightarrow>
      view e s' = (view e s)(key v \<mapsto> v)"
    and put_atomic: "ok e \<Longrightarrow> valid (key v) \<Longrightarrow> put e s v = (r, s') \<Longrightarrow>
      view e s' = view e s \<or> view e s' = (view e s)(key v \<mapsto> v)"
    and get_view: "ok e \<Longrightarrow> valid k \<Longrightarrow> get e s k = Inr w \<Longrightarrow> w = view e s k"
begin

lemma get_after_put:
  "ok e \<Longrightarrow> valid (key v) \<Longrightarrow> put e s v = (Inr (), s') \<Longrightarrow> get e s' (key v) = Inr r \<Longrightarrow> r = Some v"
  using get_view [of e "key v" s'] put_view [of e v s s'] by simp

lemma get_after_put_other:
  "ok e \<Longrightarrow> valid (key v) \<Longrightarrow> valid k \<Longrightarrow> k \<noteq> key v \<Longrightarrow> put e s v = (Inr (), s') \<Longrightarrow>
     get e s' k = Inr r \<Longrightarrow> r = view e s k"
  using get_view [of e k s'] put_view [of e v s s'] by simp

text \<open>A loop of writes: the last value written under a key is the one the store holds.\<close>

lemma puts_view:
  assumes "ok e" and "\<And>v. v \<in> set vs \<Longrightarrow> valid (key v)"
    and "run_all (put e) s vs = (Inr (), s')"
  shows "view e s' = view e s ++ map_of (rev (map (\<lambda>v. (key v, v)) vs))"
  using assms(2,3)
proof (induction vs arbitrary: s)
  case Nil
  then show ?case by simp
next
  case (Cons v vs)
  from Cons.prems(2) obtain s1
    where put: "put e s v = (Inr (), s1)" and run: "run_all (put e) s1 vs = (Inr (), s')"
    by (auto elim: st_bind_InrE)
  have "view e s1 = (view e s)(key v \<mapsto> v)"
    using put_view [OF assms(1) _ put] Cons.prems(1) by simp
  moreover have "view e s' = view e s1 ++ map_of (rev (map (\<lambda>v. (key v, v)) vs))"
    using Cons.IH [OF _ run] Cons.prems(1) by simp
  ultimately show ?case by (simp add: map_add_def fun_eq_iff split: option.splits)
qed

text \<open>A loop that fails has written a prefix of the values, the last of them perhaps.\<close>

lemma puts_failed:
  assumes "ok e" and "\<And>v. v \<in> set vs \<Longrightarrow> valid (key v)"
    and "run_all (put e) s vs = (r, s')"
  shows "\<exists>n \<le> length vs. view e s' = view e s ++ map_of (rev (map (\<lambda>v. (key v, v)) (take n vs)))"
  using assms(2,3)
proof (induction vs arbitrary: s)
  case Nil
  then show ?case by simp
next
  case (Cons v vs)
  obtain r1 s1 where put: "put e s v = (r1, s1)" by fastforce
  have valid: "valid (key v)" using Cons.prems(1) by simp
  show ?case
  proof (cases r1)
    case (Inl x)
    with put Cons.prems(2) have s': "s' = s1" by simp
    from put_atomic [OF assms(1) valid put] show ?thesis
    proof
      assume "view e s1 = view e s"
      with s' show ?thesis by (intro exI [of _ 0]) simp
    next
      assume "view e s1 = (view e s)(key v \<mapsto> v)"
      with s' show ?thesis by (intro exI [of _ 1]) (simp add: map_add_def fun_eq_iff)
    qed
  next
    case (Inr u)
    with put Cons.prems(2) have "run_all (put e) s1 vs = (r, s')" by simp
    with Cons.IH Cons.prems(1) obtain n where n: "n \<le> length vs"
      "view e s' = view e s1 ++ map_of (rev (map (\<lambda>v. (key v, v)) (take n vs)))" by auto
    have "view e s1 = (view e s)(key v \<mapsto> v)"
      using put_view [OF assms(1) valid] put Inr by simp
    with n show ?thesis
      by (intro exI [of _ "Suc n"]) (simp add: map_add_def fun_eq_iff split: option.splits)
  qed
qed

end

end
