(* ===== verification/Account_Store.thy ===== *)
theory Account_Store
  imports Db
begin

text \<open>
  Account state, \<open>src/src/storage/account_store.rs\<close>. Every function reads the account, changes
  the copy and writes the whole account back; errors are the strings of the source.

  The abstract view is the ledger, the map from addresses to accounts that the accounts tree
  encodes (\<open>ledger\<close>); \<open>ledger_ok\<close> is its invariant (an account is stored under its own address,
  a tier is the one the stake buys) and \<open>ledger_funds\<close> the number of units it holds. The
  lemmas \<open>*_ledger\<close> say what each operation does to the ledger, \<open>*_frame\<close> that it touches
  nothing but the accounts tree. The locale \<open>crediting\<close> is the interface the consensus layer
  relies on: a credit adds to one balance, so a loop of credits adds their sum.
\<close>

section \<open>The operations\<close>

definition save_account :: "'t backend \<Rightarrow> 't kyvera_db \<Rightarrow> account \<Rightarrow> (string + unit) \<times> 't kyvera_db" where
  "save_account B db a =
     read_bind db (map_err (\<lambda>e. ''Failed to serialize account: '' @ e) (to_vec (account_json B) a)) (\<lambda>bs.
     on_accounts db (db_write B (db_accounts db) (acc_address a) bs))"

definition get_account :: "'t backend \<Rightarrow> 't kyvera_db \<Rightarrow> string \<Rightarrow> string + account option" where
  "get_account B db addr =
     res_bind (db_read B (db_accounts db) addr) (\<lambda>d.
     case d of
       None \<Rightarrow> Inr None
     | Some bs \<Rightarrow>
         res_bind (map_err (\<lambda>e. ''Failed to deserialize account: '' @ e) (from_slice (account_json B) bs))
           (\<lambda>a. Inr (Some a)))"

definition get_or_create_account :: "'t backend \<Rightarrow> 't kyvera_db \<Rightarrow> string \<Rightarrow> string + account" where
  "get_or_create_account B db addr =
     res_bind (get_account B db addr) (\<lambda>r.
     case r of Some a \<Rightarrow> Inr a | None \<Rightarrow> Inr (account_new addr))"

definition get_balance :: "'t backend \<Rightarrow> 't kyvera_db \<Rightarrow> string \<Rightarrow> string + u64" where
  "get_balance B db addr =
     res_bind (get_account B db addr) (\<lambda>r. Inr (case r of Some a \<Rightarrow> acc_balance a | None \<Rightarrow> 0))"

definition get_staked_balance :: "'t backend \<Rightarrow> 't kyvera_db \<Rightarrow> string \<Rightarrow> string + u64" where
  "get_staked_balance B db addr =
     res_bind (get_account B db addr) (\<lambda>r. Inr (case r of Some a \<Rightarrow> acc_staked a | None \<Rightarrow> 0))"

definition credit_account ::
  "'t backend \<Rightarrow> 't kyvera_db \<Rightarrow> string \<Rightarrow> u64 \<Rightarrow> (string + unit) \<times> 't kyvera_db" where
  "credit_account B db addr amt =
     read_bind db (get_or_create_account B db addr) (\<lambda>a.
     read_bind db (ok_or (checked_add (acc_balance a) amt)
       (''Balance overflow '' @ em_dash @ '' this should never happen'')) (\<lambda>bal.
     save_account B db (a\<lparr>acc_balance := bal\<rparr>)))"

definition debit_account ::
  "'t backend \<Rightarrow> 't kyvera_db \<Rightarrow> string \<Rightarrow> u64 \<Rightarrow> (string + unit) \<times> 't kyvera_db" where
  "debit_account B db addr amt =
     read_bind db (get_or_create_account B db addr) (\<lambda>a.
     if acc_balance a < amt then
       (Inl (''Insufficient balance: '' @ addr @ '' has '' @ u64_to_string (acc_balance a)
             @ '' but needs '' @ u64_to_string amt), db)
     else save_account B db (a\<lparr>acc_balance := acc_balance a - amt\<rparr>))"

definition increment_nonce ::
  "'t backend \<Rightarrow> 't kyvera_db \<Rightarrow> string \<Rightarrow> (string + unit) \<times> 't kyvera_db" where
  "increment_nonce B db addr =
     read_bind db (get_or_create_account B db addr) (\<lambda>a.
     save_account B db (a\<lparr>acc_nonce := acc_nonce a + 1\<rparr>))"

definition get_nonce :: "'t backend \<Rightarrow> 't kyvera_db \<Rightarrow> string \<Rightarrow> string + u64" where
  "get_nonce B db addr =
     res_bind (get_account B db addr) (\<lambda>r. Inr (case r of Some a \<Rightarrow> acc_nonce a | None \<Rightarrow> 0))"

definition lock_stake ::
  "'t backend \<Rightarrow> 't kyvera_db \<Rightarrow> string \<Rightarrow> u64 \<Rightarrow> (string + unit) \<times> 't kyvera_db" where
  "lock_stake B db addr amt =
     read_bind db (get_or_create_account B db addr) (\<lambda>a.
     if acc_balance a < amt then
       (Inl (''Insufficient balance to stake: has '' @ u64_to_string (acc_balance a)
             @ '' needs '' @ u64_to_string amt), db)
     else
       read_bind db (ok_or (checked_add (acc_staked a) amt) ''Staked balance overflow'') (\<lambda>st.
       save_account B db
         (update_validator_tier (a\<lparr>acc_balance := acc_balance a - amt, acc_staked := st\<rparr>))))"

definition unlock_stake ::
  "'t backend \<Rightarrow> 't kyvera_db \<Rightarrow> string \<Rightarrow> u64 \<Rightarrow> (string + unit) \<times> 't kyvera_db" where
  "unlock_stake B db addr amt =
     read_bind db (get_or_create_account B db addr) (\<lambda>a.
     if acc_staked a < amt then
       (Inl (''Insufficient staked balance: has '' @ u64_to_string (acc_staked a)
             @ '' needs '' @ u64_to_string amt), db)
     else
       read_bind db (ok_or (checked_add (acc_balance a) amt) ''Balance overflow during unstake'') (\<lambda>bal.
       save_account B db
         (update_validator_tier (a\<lparr>acc_staked := acc_staked a - amt, acc_balance := bal\<rparr>))))"

text \<open>The loop over the accounts tree: the first item that is an error, or does not decode,
  ends it.\<close>

fun collect_validators :: "'t backend \<Rightarrow> (string + bytes \<times> bytes) list \<Rightarrow> string + account list" where
  "collect_validators B [] = Inr []"
| "collect_validators B (r # rs) =
     res_bind (map_err (\<lambda>e. ''Database iteration error: '' @ e) r) (\<lambda>(k, bs).
     res_bind (map_err (\<lambda>e. ''Failed to deserialize account: '' @ e) (from_slice (account_json B) bs)) (\<lambda>a.
     res_bind (collect_validators B rs) (\<lambda>vs.
     Inr (if is_validator a then a # vs else vs))))"

definition get_validators :: "'t backend \<Rightarrow> 't kyvera_db \<Rightarrow> string + account list" where
  "get_validators B db = collect_validators B (sled_iter B (db_accounts db))"

definition account_count :: "'t backend \<Rightarrow> 't kyvera_db \<Rightarrow> nat" where
  "account_count B db = db_count B (db_accounts db)"

section \<open>The ledger\<close>

definition ledger :: "'t backend \<Rightarrow> 't kyvera_db \<Rightarrow> string \<Rightarrow> account option" where
  "ledger B db k = Option.bind (tree_contents B (db_accounts db) k) (decode_entry (account_json B))"

definition account_at :: "(string \<Rightarrow> account option) \<Rightarrow> string \<Rightarrow> account" where
  "account_at L k = (case L k of Some a \<Rightarrow> a | None \<Rightarrow> account_new k)"

definition account_ok :: "string \<Rightarrow> account \<Rightarrow> bool" where
  "account_ok k a \<longleftrightarrow> acc_address a = k \<and> acc_tier a = from_staked_balance (acc_staked a)"

definition ledger_ok :: "(string \<Rightarrow> account option) \<Rightarrow> bool" where
  "ledger_ok L \<longleftrightarrow> (\<forall>k a. L k = Some a \<longrightarrow> account_ok k a)"

definition account_funds :: "account \<Rightarrow> nat" where
  "account_funds a = unat (acc_balance a) + unat (acc_staked a)"

definition ledger_funds :: "(string \<Rightarrow> account option) \<Rightarrow> nat" where
  "ledger_funds = map_total account_funds"

text \<open>Every entry of the accounts tree decodes.\<close>

definition accounts_readable :: "'t backend \<Rightarrow> 't kyvera_db \<Rightarrow> bool" where
  "accounts_readable B db \<longleftrightarrow> dom (tree_contents B (db_accounts db)) = dom (ledger B db)"

text \<open>Only the accounts tree differs.\<close>

definition same_but_accounts :: "'t kyvera_db \<Rightarrow> 't kyvera_db \<Rightarrow> bool" where
  "same_but_accounts db db' \<longleftrightarrow> db' = db\<lparr>db_accounts := db_accounts db'\<rparr>"

section \<open>Facts about ledgers\<close>

lemma same_but_accounts_refl [simp]: "same_but_accounts db db"
  by (simp add: same_but_accounts_def)

lemma same_but_accounts_upd [simp]: "same_but_accounts db (db\<lparr>db_accounts := t\<rparr>)"
  by (simp add: same_but_accounts_def)

lemma same_but_accounts_trans:
  "same_but_accounts a b \<Longrightarrow> same_but_accounts b c \<Longrightarrow> same_but_accounts a c"
  unfolding same_but_accounts_def by (metis kyvera_db.update_convs(4) kyvera_db.surjective)

lemma same_but_accounts_fields:
  assumes "same_but_accounts db db'"
  shows "db_blocks_by_hash db' = db_blocks_by_hash db" "db_blocks_by_height db' = db_blocks_by_height db"
    "db_transactions db' = db_transactions db" "db_metadata db' = db_metadata db"
    "db_handle db' = db_handle db"
  using assms unfolding same_but_accounts_def by (metis kyvera_db.ext_inject kyvera_db.surjective
      kyvera_db.update_convs(4))+

lemma account_at_simps [simp]:
  "L k = Some a \<Longrightarrow> account_at L k = a" "L k = None \<Longrightarrow> account_at L k = account_new k"
  by (simp_all add: account_at_def)

lemma account_at_upd: "account_at (L(k \<mapsto> a)) k' = (if k' = k then a else account_at L k')"
  by (simp add: account_at_def)

lemma account_ok_new [simp]: "account_ok k (account_new k)"
  by (simp add: account_ok_def from_staked_balance_def)

lemma account_ok_at: "ledger_ok L \<Longrightarrow> account_ok k (account_at L k)"
  by (cases "L k") (auto simp: ledger_ok_def)

lemma acc_address_at: "ledger_ok L \<Longrightarrow> acc_address (account_at L k) = k"
  using account_ok_at account_ok_def by blast

lemma ledger_ok_upd: "ledger_ok L \<Longrightarrow> account_ok k a \<Longrightarrow> ledger_ok (L(k \<mapsto> a))"
  by (simp add: ledger_ok_def)

lemma ledger_ok_empty [simp]: "ledger_ok (\<lambda>_. None)"
  by (simp add: ledger_ok_def)

lemma account_funds_new [simp]: "account_funds (account_new k) = 0"
  by (simp add: account_funds_def)

lemma ledger_funds_empty [simp]: "ledger_funds (\<lambda>_. None) = 0"
  by (simp add: ledger_funds_def)

text \<open>Writing one account moves the total by the difference at that address.\<close>

lemma opt_total_account_at: "opt_total account_funds (L k) = account_funds (account_at L k)"
  by (cases "L k") simp_all

lemma ledger_funds_upd:
  assumes "finite (dom L)"
  shows "ledger_funds (L(k \<mapsto> a)) + account_funds (account_at L k) = ledger_funds L + account_funds a"
  using map_total_change [OF assms, of account_funds k "Some a"]
  by (simp add: ledger_funds_def opt_total_account_at)

lemma account_funds_le_ledger: "finite (dom L) \<Longrightarrow> account_funds (account_at L k) \<le> ledger_funds L"
  using ledger_funds_upd [of L k "account_new k"] by simp

lemma account_funds_two_le:
  assumes "finite (dom L)" "j \<noteq> k"
  shows "account_funds (account_at L j) + account_funds (account_at L k) \<le> ledger_funds L"
proof -
  have "ledger_funds (L(j \<mapsto> account_new j)) + account_funds (account_at L j) = ledger_funds L"
    using ledger_funds_upd [OF assms(1), of j "account_new j"] by simp
  moreover have "account_funds (account_at L k) \<le> ledger_funds (L(j \<mapsto> account_new j))"
    using account_funds_le_ledger [of "L(j \<mapsto> account_new j)" k] assms
    by (simp add: account_at_upd)
  ultimately show ?thesis by simp
qed

section \<open>The store refines the ledger\<close>

lemma finite_ledger: "backend_ok B \<Longrightarrow> finite (dom (ledger B db))"
  by (rule finite_subset [OF _ sled_finite [of B "db_accounts db"]])
    (auto simp: ledger_def backend_okD bind_eq_Some_conv)

lemma ledger_cong: "db_accounts db' = db_accounts db \<Longrightarrow> ledger B db' = ledger B db"
  by (simp add: ledger_def fun_eq_iff)

lemma ledger_other_trees [simp]:
  "ledger B (db\<lparr>db_metadata := t\<rparr>) = ledger B db"
  "ledger B (db\<lparr>db_transactions := t\<rparr>) = ledger B db"
  "ledger B (db\<lparr>db_blocks_by_hash := t\<rparr>) = ledger B db"
  "ledger B (db\<lparr>db_blocks_by_height := t\<rparr>) = ledger B db"
  by (simp_all add: ledger_def fun_eq_iff)

lemma set_metadata_ledger:
  "ledger B (snd (set_metadata B db k v)) = ledger B db"
  "set_metadata B db k v = (r, db') \<Longrightarrow> ledger B db' = ledger B db"
  using set_metadata_other [of B db k v] by auto

lemma get_account_ledger:
  "backend_ok B \<Longrightarrow> get_account B db k = Inr r \<Longrightarrow> r = ledger B db k"
  unfolding get_account_def ledger_def by (rule typed_read [OF backend_okD(1)])

lemma get_or_create_ledger:
  assumes "backend_ok B" "get_or_create_account B db k = Inr a"
  shows "a = account_at (ledger B db) k"
  using assms(2) get_account_ledger [OF assms(1), of db k]
  by (auto simp: get_or_create_account_def res_bind_eq_Inr account_at_def split: option.splits)

lemma save_account_ledger:
  assumes "backend_ok B" "save_account B db a = (Inr u, db')"
  shows "ledger B db' = (ledger B db)(acc_address a \<mapsto> a)" "same_but_accounts db db'"
proof -
  from assms(2) obtain bs t where enc: "to_vec (account_json B) a = Inr bs"
    and w: "db_write B (db_accounts db) (acc_address a) bs = (Inr u, t)"
    and db': "db' = db\<lparr>db_accounts := t\<rparr>"
    unfolding save_account_def
    by (elim read_bind_InrE) (auto simp: on_accounts_def prod_eq_iff)
  have "tree_contents B t = (tree_contents B (db_accounts db))(acc_address a \<mapsto> bs)"
    by (rule db_write_ok [OF _ w]) (simp add: assms(1) backend_okD)
  then show "ledger B db' = (ledger B db)(acc_address a \<mapsto> a)"
    using to_vec_decode [OF _ enc] assms(1) by (auto simp: ledger_def db' backend_okD fun_eq_iff)
  show "same_but_accounts db db'" by (simp add: db')
qed

lemma save_account_atomic:
  assumes "backend_ok B"
  shows "ledger B (snd (save_account B db a)) = ledger B db
    \<or> ledger B (snd (save_account B db a)) = (ledger B db)(acc_address a \<mapsto> a)"
proof (cases "to_vec (account_json B) a")
  case (Inl e)
  then show ?thesis by (simp add: save_account_def)
next
  case (Inr bs)
  define t where "t = snd (db_write B (db_accounts db) (acc_address a) bs)"
  have "tree_contents B t = tree_contents B (db_accounts db)
    \<or> tree_contents B t = (tree_contents B (db_accounts db))(acc_address a \<mapsto> bs)"
    unfolding t_def by (rule db_write_atomic) (simp add: assms backend_okD)
  moreover have "snd (save_account B db a) = db\<lparr>db_accounts := t\<rparr>"
    by (simp add: save_account_def Inr on_accounts_def t_def)
  ultimately show ?thesis
    using to_vec_decode [OF _ Inr] assms by (auto simp: ledger_def backend_okD fun_eq_iff)
qed

lemma save_account_frame: "same_but_accounts db (snd (save_account B db a))"
  unfolding save_account_def by (rule read_bind_state) (simp_all add: on_accounts_def)

lemma get_account_total:
  assumes "backend_total B" "accounts_readable B db"
  shows "get_account B db k = Inr (ledger B db k)"
proof (cases "tree_contents B (db_accounts db) k")
  case None
  with assms(1) show ?thesis by (simp add: get_account_def db_read_total ledger_def)
next
  case (Some bs)
  then have "k \<in> dom (ledger B db)" using assms(2) by (auto simp: accounts_readable_def)
  with Some obtain a where "from_slice (account_json B) bs = Inr a"
    by (auto simp: ledger_def decode_entry_def split: sum.splits)
  with Some assms(1) show ?thesis
    by (simp add: get_account_def db_read_total ledger_def decode_entry_def)
qed

lemma get_or_create_total:
  assumes "backend_total B" "accounts_readable B db"
  shows "get_or_create_account B db k = Inr (account_at (ledger B db) k)"
  by (simp add: get_or_create_account_def get_account_total [OF assms] account_at_def
      split: option.splits)

lemma save_account_readable:
  assumes "backend_ok B" "accounts_readable B db" "save_account B db a = (Inr u, db')"
  shows "accounts_readable B db'"
proof -
  from assms(3) obtain bs t where enc: "to_vec (account_json B) a = Inr bs"
    and w: "db_write B (db_accounts db) (acc_address a) bs = (Inr u, t)"
    and db': "db' = db\<lparr>db_accounts := t\<rparr>"
    unfolding save_account_def
    by (elim read_bind_InrE) (auto simp: on_accounts_def prod_eq_iff)
  have "tree_contents B t = (tree_contents B (db_accounts db))(acc_address a \<mapsto> bs)"
    by (rule db_write_ok [OF _ w]) (simp add: assms(1) backend_okD)
  with assms(2) show ?thesis
    by (simp add: accounts_readable_def db' save_account_ledger(1) [OF assms(1,3), unfolded db'])
qed

lemma save_account_total:
  assumes "backend_total B"
  shows "\<exists>db'. save_account B db a = (Inr (), db')"
proof -
  obtain bs where "to_vec (account_json B) a = Inr bs" using total_to_vec [OF assms] by blast
  moreover obtain t where "db_write B (db_accounts db) (acc_address a) bs = (Inr (), t)"
    using db_write_total [OF assms] by blast
  ultimately show ?thesis by (simp add: save_account_def)
qed

interpretation accounts: typed_store backend_ok ledger acc_address "\<lambda>_. True" save_account get_account
proof unfold_locales
  fix B :: "'t backend" and s s' :: "'t kyvera_db" and v :: account and k r w
  assume ok: "backend_ok B"
  show "save_account B s v = (Inr (), s') \<Longrightarrow> ledger B s' = (ledger B s)(acc_address v \<mapsto> v)"
    by (rule save_account_ledger(1) [OF ok])
  show "save_account B s v = (r, s') \<Longrightarrow>
      ledger B s' = ledger B s \<or> ledger B s' = (ledger B s)(acc_address v \<mapsto> v)"
    using save_account_atomic [OF ok, of s v] by simp
  show "get_account B s k = Inr w \<Longrightarrow> w = ledger B s k"
    by (rule get_account_ledger [OF ok])
qed

section \<open>The operations on the ledger\<close>

text \<open>The database invariant of the account store: its ledger is well formed.\<close>

definition db_ok :: "'t backend \<Rightarrow> 't kyvera_db \<Rightarrow> bool" where
  "db_ok B db \<longleftrightarrow> ledger_ok (ledger B db)"

lemma rmw_okE:
  assumes "backend_ok B" "read_bind db (get_or_create_account B db k) f = (Inr u, db')"
  obtains "f (account_at (ledger B db) k) = (Inr u, db')"
  using assms(2) get_or_create_ledger [OF assms(1)] by (auto elim: read_bind_InrE)

text \<open>A read-modify-write keeps whatever holds before it and after each way the update can end.\<close>

lemma rmw_state:
  assumes "backend_ok B" "P db" "P (snd (f (account_at (ledger B db) k)))"
  shows "P (snd (read_bind db (get_or_create_account B db k) f))"
  using assms(2)
  by (rule read_bind_state) (use get_or_create_ledger [OF assms(1)] assms(3) in auto)

lemma save_account_db_ok:
  assumes "backend_ok B" "db_ok B db" "account_ok (acc_address a) a"
  shows "db_ok B (snd (save_account B db a))"
  using save_account_atomic [OF assms(1), of db a] assms(2,3)
  by (auto simp: db_ok_def ledger_ok_upd)

lemma account_ok_balance: "account_ok k a \<Longrightarrow> account_ok k (a\<lparr>acc_balance := b\<rparr>)"
  by (simp add: account_ok_def)

lemma account_ok_nonce: "account_ok k a \<Longrightarrow> account_ok k (a\<lparr>acc_nonce := n\<rparr>)"
  by (simp add: account_ok_def)

lemma account_ok_tiered:
  "acc_address a = k \<Longrightarrow> account_ok k (update_validator_tier a)"
  by (simp add: account_ok_def)

lemma account_ok_address: "account_ok k a \<Longrightarrow> acc_address a = k"
  by (simp add: account_ok_def)

lemma db_ok_at:
  "db_ok B db \<Longrightarrow> account_ok k (account_at (ledger B db) k)"
  "db_ok B db \<Longrightarrow> acc_address (account_at (ledger B db) k) = k"
  by (simp_all add: db_ok_def account_ok_at acc_address_at)

lemmas account_ok_intros = account_ok_balance account_ok_nonce account_ok_tiered

text \<open>A successful credit, debit, lock and unlock.\<close>

lemma credit_account_ledger:
  assumes "backend_ok B" "db_ok B db" "credit_account B db k amt = (Inr u, db')"
  defines "a \<equiv> account_at (ledger B db) k"
  shows "unat (acc_balance a) + unat amt < 2 ^ 64"
    and "ledger B db' = (ledger B db)(k \<mapsto> a\<lparr>acc_balance := acc_balance a + amt\<rparr>)"
    and "same_but_accounts db db'"
proof -
  from assms(3) obtain bal where bal: "checked_add (acc_balance a) amt = Some bal"
    and save: "save_account B db (a\<lparr>acc_balance := bal\<rparr>) = (Inr u, db')"
    unfolding credit_account_def a_def
    by (auto elim!: rmw_okE [OF assms(1)] elim: read_bind_InrE)
  then have "unat (acc_balance a) + unat amt < 2 ^ 64" "bal = acc_balance a + amt"
    by (auto simp: checked_add_def split: if_splits)
  with save_account_ledger [OF assms(1) save] db_ok_at(2) [OF assms(2)]
  show "unat (acc_balance a) + unat amt < 2 ^ 64"
    "ledger B db' = (ledger B db)(k \<mapsto> a\<lparr>acc_balance := acc_balance a + amt\<rparr>)"
    "same_but_accounts db db'" by (simp_all add: a_def)
qed

lemma debit_account_ledger:
  assumes "backend_ok B" "db_ok B db" "debit_account B db k amt = (Inr u, db')"
  defines "a \<equiv> account_at (ledger B db) k"
  shows "amt \<le> acc_balance a"
    and "ledger B db' = (ledger B db)(k \<mapsto> a\<lparr>acc_balance := acc_balance a - amt\<rparr>)"
    and "same_but_accounts db db'"
proof -
  from assms(3) have amt: "amt \<le> acc_balance a"
    and save: "save_account B db (a\<lparr>acc_balance := acc_balance a - amt\<rparr>) = (Inr u, db')"
    unfolding debit_account_def a_def
    by (auto elim!: rmw_okE [OF assms(1)] split: if_splits)
  show "amt \<le> acc_balance a" by (rule amt)
  from save_account_ledger [OF assms(1) save] db_ok_at(2) [OF assms(2)]
  show "ledger B db' = (ledger B db)(k \<mapsto> a\<lparr>acc_balance := acc_balance a - amt\<rparr>)"
    "same_but_accounts db db'" by (simp_all add: a_def)
qed

lemma lock_stake_ledger:
  assumes "backend_ok B" "db_ok B db" "lock_stake B db k amt = (Inr u, db')"
  defines "a \<equiv> account_at (ledger B db) k"
  shows "amt \<le> acc_balance a" and "unat (acc_staked a) + unat amt < 2 ^ 64"
    and "ledger B db' = (ledger B db)(k \<mapsto> update_validator_tier
      (a\<lparr>acc_balance := acc_balance a - amt, acc_staked := acc_staked a + amt\<rparr>))"
    and "same_but_accounts db db'"
proof -
  obtain st where amt: "amt \<le> acc_balance a"
    and st: "checked_add (acc_staked a) amt = Some st"
    and save: "save_account B db (update_validator_tier
      (a\<lparr>acc_balance := acc_balance a - amt, acc_staked := st\<rparr>)) = (Inr u, db')"
    unfolding a_def
    by (rule rmw_okE [OF assms(1) assms(3) [unfolded lock_stake_def]])
      (auto elim!: read_bind_InrE split: if_splits)
  from st have "unat (acc_staked a) + unat amt < 2 ^ 64" "st = acc_staked a + amt"
    by (auto simp: checked_add_def split: if_splits)
  with amt save_account_ledger [OF assms(1) save] db_ok_at(2) [OF assms(2)]
  show "amt \<le> acc_balance a" "unat (acc_staked a) + unat amt < 2 ^ 64"
    "ledger B db' = (ledger B db)(k \<mapsto> update_validator_tier
      (a\<lparr>acc_balance := acc_balance a - amt, acc_staked := acc_staked a + amt\<rparr>))"
    "same_but_accounts db db'" by (simp_all add: a_def)
qed

lemma unlock_stake_ledger:
  assumes "backend_ok B" "db_ok B db" "unlock_stake B db k amt = (Inr u, db')"
  defines "a \<equiv> account_at (ledger B db) k"
  shows "amt \<le> acc_staked a" and "unat (acc_balance a) + unat amt < 2 ^ 64"
    and "ledger B db' = (ledger B db)(k \<mapsto> update_validator_tier
      (a\<lparr>acc_staked := acc_staked a - amt, acc_balance := acc_balance a + amt\<rparr>))"
    and "same_but_accounts db db'"
proof -
  obtain bal where amt: "amt \<le> acc_staked a"
    and bal: "checked_add (acc_balance a) amt = Some bal"
    and save: "save_account B db (update_validator_tier
      (a\<lparr>acc_staked := acc_staked a - amt, acc_balance := bal\<rparr>)) = (Inr u, db')"
    unfolding a_def
    by (rule rmw_okE [OF assms(1) assms(3) [unfolded unlock_stake_def]])
      (auto elim!: read_bind_InrE split: if_splits)
  from bal have "unat (acc_balance a) + unat amt < 2 ^ 64" "bal = acc_balance a + amt"
    by (auto simp: checked_add_def split: if_splits)
  with amt save_account_ledger [OF assms(1) save] db_ok_at(2) [OF assms(2)]
  show "amt \<le> acc_staked a" "unat (acc_balance a) + unat amt < 2 ^ 64"
    "ledger B db' = (ledger B db)(k \<mapsto> update_validator_tier
      (a\<lparr>acc_staked := acc_staked a - amt, acc_balance := acc_balance a + amt\<rparr>))"
    "same_but_accounts db db'" by (simp_all add: a_def)
qed

text \<open>
  Every operation changes the database by writing well-formed accounts under the addresses it
  is given, so it keeps every predicate that such writes keep, whatever it returns: the
  invariant itself, that the other trees are left alone, that other addresses are.
\<close>

definition write_closed ::
  "'t backend \<Rightarrow> string set \<Rightarrow> ('t kyvera_db \<Rightarrow> bool) \<Rightarrow> bool" where
  "write_closed B K P \<longleftrightarrow> (\<forall>db. P db \<longrightarrow> db_ok B db)
     \<and> (\<forall>db a. P db \<longrightarrow> acc_address a \<in> K \<longrightarrow> account_ok (acc_address a) a \<longrightarrow>
          P (snd (save_account B db a)))"

lemma write_closedD:
  assumes "write_closed B K P" "P db"
  shows "db_ok B db" "account_ok k a \<Longrightarrow> k \<in> K \<Longrightarrow> P (snd (save_account B db a))"
  using assms by (auto simp: write_closed_def account_ok_def)

lemma write_closed_db_ok: "backend_ok B \<Longrightarrow> write_closed B K (db_ok B)"
  by (simp add: write_closed_def save_account_db_ok)

lemma write_closed_frame:
  "backend_ok B \<Longrightarrow> write_closed B K (\<lambda>db. db_ok B db \<and> same_but_accounts db0 db)"
  by (auto simp: write_closed_def save_account_db_ok intro: same_but_accounts_trans save_account_frame)

lemma write_closed_elsewhere:
  assumes "backend_ok B" "k \<notin> K"
  shows "write_closed B K (\<lambda>db. db_ok B db \<and> ledger B db k = r)"
proof -
  have "ledger B (snd (save_account B db a)) k = ledger B db k" if "acc_address a \<in> K" for db a
    using save_account_atomic [OF assms(1), of db a] assms(2) that by auto
  then show ?thesis by (simp add: write_closed_def save_account_db_ok assms(1))
qed

lemma rmw_closed:
  assumes "backend_ok B" "write_closed B K P" "P db"
    and "\<And>a. account_ok k a \<Longrightarrow> P (snd (f a))"
  shows "P (snd (read_bind db (get_or_create_account B db k) f))"
  by (rule rmw_state [where P = P, OF assms(1,3)], rule assms(4))
    (rule db_ok_at(1) [OF write_closedD(1) [OF assms(2,3)]])

lemma credit_account_closed:
  assumes "backend_ok B" "write_closed B K P" "P db" "k \<in> K"
  shows "P (snd (credit_account B db k amt))"
  unfolding credit_account_def
  by (rule rmw_closed [where P = P, OF assms(1-3)])
    (use assms write_closedD(2) [OF assms(2,3) _ assms(4)] in
      \<open>auto intro!: read_bind_state [where P = P] simp: account_ok_def\<close>)

lemma debit_account_closed:
  assumes "backend_ok B" "write_closed B K P" "P db" "k \<in> K"
  shows "P (snd (debit_account B db k amt))"
  unfolding debit_account_def
  by (rule rmw_closed [where P = P, OF assms(1-3)])
    (use assms write_closedD(2) [OF assms(2,3) _ assms(4)] in
      \<open>auto intro!: read_bind_state [where P = P] simp: account_ok_def\<close>)

lemma increment_nonce_closed:
  assumes "backend_ok B" "write_closed B K P" "P db" "k \<in> K"
  shows "P (snd (increment_nonce B db k))"
  unfolding increment_nonce_def
  by (rule rmw_closed [where P = P, OF assms(1-3)])
    (use assms write_closedD(2) [OF assms(2,3) _ assms(4)] in
      \<open>auto intro!: read_bind_state [where P = P] simp: account_ok_def\<close>)

lemma lock_stake_closed:
  assumes "backend_ok B" "write_closed B K P" "P db" "k \<in> K"
  shows "P (snd (lock_stake B db k amt))"
  unfolding lock_stake_def
  by (rule rmw_closed [where P = P, OF assms(1-3)])
    (use assms write_closedD(2) [OF assms(2,3) _ assms(4)] in
      \<open>auto intro!: read_bind_state [where P = P] simp: account_ok_def\<close>)

lemma unlock_stake_closed:
  assumes "backend_ok B" "write_closed B K P" "P db" "k \<in> K"
  shows "P (snd (unlock_stake B db k amt))"
  unfolding unlock_stake_def
  by (rule rmw_closed [where P = P, OF assms(1-3)])
    (use assms write_closedD(2) [OF assms(2,3) _ assms(4)] in
      \<open>auto intro!: read_bind_state [where P = P] simp: account_ok_def\<close>)

lemmas account_ops_closed = credit_account_closed debit_account_closed increment_nonce_closed
  lock_stake_closed unlock_stake_closed

lemma credit_account_db_ok:
  "backend_ok B \<Longrightarrow> db_ok B db \<Longrightarrow> db_ok B (snd (credit_account B db k amt))"
  by (rule credit_account_closed [OF _ write_closed_db_ok, where K = UNIV]) simp_all

section \<open>The crediting interface\<close>

definition with_credit :: "account \<Rightarrow> u64 \<Rightarrow> account" where
  "with_credit a amt = a\<lparr>acc_balance := acc_balance a + amt\<rparr>"

locale crediting =
  fixes ok :: "'e \<Rightarrow> bool"
    and inv :: "'e \<Rightarrow> 's \<Rightarrow> bool"
    and view :: "'e \<Rightarrow> 's \<Rightarrow> string \<Rightarrow> account option"
    and credit :: "'e \<Rightarrow> 's \<Rightarrow> string \<Rightarrow> u64 \<Rightarrow> (string + unit) \<times> 's"
  assumes credit_no_overflow: "ok e \<Longrightarrow> inv e s \<Longrightarrow> credit e s k amt = (Inr (), s') \<Longrightarrow>
      unat (acc_balance (account_at (view e s) k)) + unat amt < 2 ^ 64"
    and credit_view: "ok e \<Longrightarrow> inv e s \<Longrightarrow> credit e s k amt = (Inr (), s') \<Longrightarrow>
      view e s' = (view e s)(k \<mapsto> with_credit (account_at (view e s) k) amt)"
    and credit_inv: "ok e \<Longrightarrow> inv e s \<Longrightarrow> inv e (snd (credit e s k amt))"
    and finite_view: "ok e \<Longrightarrow> finite (dom (view e s))"
begin

lemma credit_funds:
  assumes "ok e" "inv e s" "credit e s k amt = (Inr (), s')"
  shows "ledger_funds (view e s') = ledger_funds (view e s) + unat amt"
proof -
  have "unat (acc_balance (account_at (view e s) k) + amt)
      = unat (acc_balance (account_at (view e s) k)) + unat amt"
    using credit_no_overflow [OF assms] by (simp add: unat_word_ariths)
  then show ?thesis
    using ledger_funds_upd [OF finite_view [OF assms(1)], of s k
        "with_credit (account_at (view e s) k) amt"] credit_view [OF assms]
    by (simp add: account_funds_def with_credit_def)
qed

lemma credit_balance:
  assumes "ok e" "inv e s" "credit e s k amt = (Inr (), s')"
  shows "unat (acc_balance (account_at (view e s') j))
    = unat (acc_balance (account_at (view e s) j)) + (if j = k then unat amt else 0)"
  using credit_no_overflow [OF assms]
  by (simp add: credit_view [OF assms] account_at_upd with_credit_def unat_word_ariths)

lemma credit_staked:
  assumes "ok e" "inv e s" "credit e s k amt = (Inr (), s')"
  shows "acc_staked (account_at (view e s') j) = acc_staked (account_at (view e s) j)"
  by (simp add: credit_view [OF assms] account_at_upd with_credit_def)

abbreviation (input) credits :: "'e \<Rightarrow> 's \<Rightarrow> (string \<times> u64) list \<Rightarrow> (string + unit) \<times> 's" where
  "credits e \<equiv> run_all (\<lambda>s p. credit e s (fst p) (snd p))"

lemma credits_run:
  assumes "ok e" "inv e s" "credits e s ps = (Inr (), s')"
  shows "inv e s'"
    and "ledger_funds (view e s') = ledger_funds (view e s) + (\<Sum>p\<leftarrow>ps. unat (snd p))"
    and "unat (acc_balance (account_at (view e s') j))
      = unat (acc_balance (account_at (view e s) j)) + (\<Sum>p\<leftarrow>ps. if j = fst p then unat (snd p) else 0)"
    and "acc_staked (account_at (view e s') j) = acc_staked (account_at (view e s) j)"
proof -
  have "inv e s' \<and> ledger_funds (view e s') = ledger_funds (view e s) + (\<Sum>p\<leftarrow>ps. unat (snd p))
      \<and> unat (acc_balance (account_at (view e s') j))
        = unat (acc_balance (account_at (view e s) j)) + (\<Sum>p\<leftarrow>ps. if j = fst p then unat (snd p) else 0)
      \<and> acc_staked (account_at (view e s') j) = acc_staked (account_at (view e s) j)"
    using assms(2,3)
  proof (induction ps arbitrary: s)
    case Nil
    then show ?case by simp
  next
    case (Cons p ps)
    from Cons.prems(2) obtain s1 where c: "credit e s (fst p) (snd p) = (Inr (), s1)"
      and r: "credits e s1 ps = (Inr (), s')" by (auto elim: st_bind_InrE)
    have "inv e s1" using credit_inv [OF assms(1) Cons.prems(1), of "fst p" "snd p"] c by simp
    from Cons.IH [OF this r] show ?case
      using credit_funds [OF assms(1) Cons.prems(1) c] credit_balance [OF assms(1) Cons.prems(1) c]
        credit_staked [OF assms(1) Cons.prems(1) c] by simp
  qed
  then show "inv e s'"
    "ledger_funds (view e s') = ledger_funds (view e s) + (\<Sum>p\<leftarrow>ps. unat (snd p))"
    "unat (acc_balance (account_at (view e s') j))
      = unat (acc_balance (account_at (view e s) j)) + (\<Sum>p\<leftarrow>ps. if j = fst p then unat (snd p) else 0)"
    "acc_staked (account_at (view e s') j) = acc_staked (account_at (view e s) j)"
    by simp_all
qed

end

interpretation credits: crediting backend_ok db_ok ledger credit_account
  by unfold_locales
    (use credit_account_ledger credit_account_db_ok finite_ledger in
      \<open>simp_all add: with_credit_def\<close>)

text \<open>\<open>Balance overflow, this should never happen\<close>: as long as the ledger and the credit
  together stay below \<open>2 ^ 64\<close> units, a credit on a working store succeeds.\<close>

lemma credit_account_total:
  assumes "backend_total B" "db_ok B db" "accounts_readable B db"
    and "ledger_funds (ledger B db) + unat amt < 2 ^ 64"
  shows "\<exists>db'. credit_account B db k amt = (Inr (), db') \<and> accounts_readable B db'"
proof -
  let ?a = "account_at (ledger B db) k"
  have ok: "backend_ok B" by (rule backend_total_ok [OF assms(1)])
  have "unat (acc_balance ?a) \<le> ledger_funds (ledger B db)"
    using account_funds_le_ledger [OF finite_ledger [OF ok], of db k] by (simp add: account_funds_def)
  then have "checked_add (acc_balance ?a) amt = Some (acc_balance ?a + amt)"
    using assms(4) by (simp add: checked_add_def)
  moreover obtain db' where
    save: "save_account B db (?a\<lparr>acc_balance := acc_balance ?a + amt\<rparr>) = (Inr (), db')"
    using save_account_total [OF assms(1)] by blast
  ultimately have "credit_account B db k amt = (Inr (), db')"
    by (simp add: credit_account_def get_or_create_total [OF assms(1,3)])
  with save_account_readable [OF ok assms(3) save] show ?thesis by blast
qed

section \<open>The validator set\<close>

lemma collect_validators_Inr:
  "collect_validators B rs = Inr vs \<Longrightarrow>
     \<exists>kvs as. rs = map Inr kvs \<and> map (from_slice (account_json B) \<circ> snd) kvs = map Inr as
       \<and> vs = filter is_validator as"
proof (induction rs arbitrary: vs)
  case Nil
  then show ?case by (auto intro: exI [of _ "[]"])
next
  case (Cons r rs)
  from Cons.prems obtain k bs a ws where r: "r = Inr (k, bs)"
    and a: "from_slice (account_json B) bs = Inr a"
    and ws: "collect_validators B rs = Inr ws"
    and vs: "vs = (if is_validator a then a # ws else ws)"
    by (auto simp: res_bind_eq_Inr)
  from Cons.IH [OF ws] obtain kvs as where "rs = map Inr kvs"
    "map (from_slice (account_json B) \<circ> snd) kvs = map Inr as" "ws = filter is_validator as"
    by blast
  with r a vs show ?case
    by (intro exI [of _ "(k, bs) # kvs"] exI [of _ "a # as"]) (simp add: comp_def)
qed

text \<open>The validator set is the validators of the ledger, each once, in address order.\<close>

lemma get_validators_ledger:
  assumes "backend_ok B" "db_ok B db" "get_validators B db = Inr vs"
  shows "set vs = {a. \<exists>k. ledger B db k = Some a \<and> is_validator a}"
    and "sorted_wrt (<) (map acc_address vs)"
proof -
  from collect_validators_Inr [OF assms(3) [unfolded get_validators_def]] obtain kvs as
    where it: "sled_iter B (db_accounts db) = map Inr kvs"
      and dec: "map (from_slice (account_json B) \<circ> snd) kvs = map Inr as"
      and vs: "vs = filter is_validator as" by auto
  have lm: "lists_map kvs (tree_contents B (db_accounts db))"
    by (rule sled_iter_contents [OF backend_okD(1) [OF assms(1)] it])
  have len: "length kvs = length as" using dec map_eq_imp_length_eq by blast
  have nth: "from_slice (account_json B) (snd (kvs ! i)) = Inr (as ! i)" if "i < length as" for i
    using arg_cong [OF dec, of "\<lambda>xs. xs ! i"] that len by simp
  have led: "ledger B db (fst (kvs ! i)) = Some (as ! i)" if "i < length as" for i
  proof -
    have "kvs ! i \<in> set kvs" using that len by simp
    then have "tree_contents B (db_accounts db) (fst (kvs ! i)) = Some (snd (kvs ! i))"
      using lists_map_set [OF lm, of "fst (kvs ! i)" "snd (kvs ! i)"] by simp
    with nth [OF that] show ?thesis by (simp add: ledger_def decode_entry_def)
  qed
  have addr: "map acc_address as = map fst kvs"
  proof (rule nth_equalityI)
    show "length (map acc_address as) = length (map fst kvs)" by (simp add: len)
    fix i assume "i < length (map acc_address as)"
    then show "map acc_address as ! i = map fst kvs ! i"
      using led [of i] assms(2) len by (auto simp: db_ok_def ledger_ok_def account_ok_def)
  qed
  have "sorted_wrt (<) (map acc_address as)"
    using lm by (simp add: addr lists_map_def)
  then show "sorted_wrt (<) (map acc_address vs)"
    by (simp add: vs sorted_wrt_map sorted_wrt_filter)
  have "set as = ran (ledger B db)"
  proof
    show "set as \<subseteq> ran (ledger B db)"
    proof
      fix a assume "a \<in> set as"
      then obtain i where "i < length as" "as ! i = a" by (auto simp: in_set_conv_nth)
      with led show "a \<in> ran (ledger B db)" by (metis ranI)
    qed
    show "ran (ledger B db) \<subseteq> set as"
    proof
      fix a assume "a \<in> ran (ledger B db)"
      then obtain k where k: "ledger B db k = Some a" by (auto simp: ran_def)
      then obtain bs where "tree_contents B (db_accounts db) k = Some bs"
        by (auto simp: ledger_def bind_eq_Some_conv)
      then have "(k, bs) \<in> set kvs" by (simp add: lists_map_set [OF lm])
      then obtain i where "i < length as" "kvs ! i = (k, bs)" using len by (auto simp: in_set_conv_nth)
      with led [of i] k show "a \<in> set as" by auto
    qed
  qed
  then show "set vs = {a. \<exists>k. ledger B db k = Some a \<and> is_validator a}"
    by (auto simp: vs ran_def)
qed

end
