(* ===== verification/Chain_Hash.thy ===== *)
theory Chain_Hash
  imports Crates
begin

text \<open>
  Hashing of the chain, \<open>src/src/chain/hash.rs\<close>, and the copy of its core function in
  \<open>src/src/crypto/mod.rs\<close>. SHA3-256 and hex are the parameters of \<open>hashing\<close>; everything
  around them (which fields are hashed, in which order and encoding; how a difficulty is
  checked) is the program's.
\<close>

definition sha3_256_hex :: "hashing \<Rightarrow> bytes \<Rightarrow> string" where
  "sha3_256_hex H input = hex_encode H (sha3_256_digest H input)"

definition double_sha3_256 :: "hashing \<Rightarrow> bytes \<Rightarrow> string" where
  "double_sha3_256 H input = sha3_256_hex H (sha3_256_hex H input)"

text \<open>The text a header hash is computed from: the fields in order, nothing between them.\<close>

definition header_preimage ::
  "u64 \<Rightarrow> i64 \<Rightarrow> string \<Rightarrow> string \<Rightarrow> u64 \<Rightarrow> u32 \<Rightarrow> bool \<Rightarrow> u64 \<Rightarrow> string \<Rightarrow> bytes" where
  "header_preimage idx ts prev root nonce diff epoch eidx state =
     u64_to_string idx @ i64_to_string ts @ prev @ root @ u64_to_string nonce
     @ u32_to_string diff @ (if epoch then ''1'' else ''0'') @ u64_to_string eidx @ state"

definition hash_block_header ::
  "hashing \<Rightarrow> u64 \<Rightarrow> i64 \<Rightarrow> string \<Rightarrow> string \<Rightarrow> u64 \<Rightarrow> u32 \<Rightarrow> bool \<Rightarrow> u64 \<Rightarrow> string \<Rightarrow> string" where
  "hash_block_header H idx ts prev root nonce diff epoch eidx state =
     sha3_256_hex H (header_preimage idx ts prev root nonce diff epoch eidx state)"

text \<open>The fields of a transaction in the order the hasher is fed; the hasher digests their
  concatenation.\<close>

definition transaction_preimage ::
  "string \<Rightarrow> string \<Rightarrow> u64 \<Rightarrow> u64 \<Rightarrow> u64 \<Rightarrow> i64 \<Rightarrow> string \<Rightarrow> bytes \<Rightarrow> string \<Rightarrow> bytes" where
  "transaction_preimage sndr rcvr amt fee nonce ts ty dat sig =
     sndr @ rcvr @ to_le_bytes amt @ to_le_bytes fee @ to_le_bytes nonce @ i64_to_le_bytes ts
     @ ty @ dat @ sig"

definition hash_transaction ::
  "hashing \<Rightarrow> string \<Rightarrow> string \<Rightarrow> u64 \<Rightarrow> u64 \<Rightarrow> u64 \<Rightarrow> i64 \<Rightarrow> string \<Rightarrow> bytes \<Rightarrow> string \<Rightarrow> string" where
  "hash_transaction H sndr rcvr amt fee nonce ts ty dat sig =
     hex_encode H (sha3_256_digest H (transaction_preimage sndr rcvr amt fee nonce ts ty dat sig))"

definition meets_difficulty :: "string \<Rightarrow> u32 \<Rightarrow> bool" where
  "meets_difficulty h diff =
     (let required = unat diff in
      if length h < required then False
      else list_all (\<lambda>c. c = CHR ''0'') (take required h))"

definition count_leading_zeros :: "string \<Rightarrow> u32" where
  "count_leading_zeros h = of_nat (length (takeWhile (\<lambda>c. c = CHR ''0'') h))"

section \<open>Lemmas\<close>

lemma sha3_256_hex_length: "hashing_ok H \<Longrightarrow> length (sha3_256_hex H b) = 64"
  by (simp add: sha3_256_hex_def hex_encode_length digest_length)

lemma sha3_256_hex_digits: "hashing_ok H \<Longrightarrow> set (sha3_256_hex H b) \<subseteq> lower_hex_digits"
  by (simp add: sha3_256_hex_def hex_encode_digits)

lemma sha3_256_hex_valid: "hashing_ok H \<Longrightarrow> utf8_valid (sha3_256_hex H b)"
  by (simp add: sha3_256_hex_def hex_encode_valid)

lemma sha3_256_hex_nonempty: "hashing_ok H \<Longrightarrow> sha3_256_hex H b \<noteq> []"
  using sha3_256_hex_length [of H b] by auto

text \<open>Two inputs have the same text only when they have the same digest.\<close>

lemma sha3_256_hex_eq_iff:
  "hashing_ok H \<Longrightarrow> sha3_256_hex H b = sha3_256_hex H c \<longleftrightarrow> sha3_256_digest H b = sha3_256_digest H c"
  unfolding sha3_256_hex_def by (metis hex_decode_encode sum.inject(2))

lemma takeWhile_length_ge:
  "n \<le> length (takeWhile P xs) \<longleftrightarrow> n \<le> length xs \<and> list_all P (take n xs)"
proof (induction xs arbitrary: n)
  case Nil
  then show ?case by auto
next
  case (Cons x xs)
  then show ?case by (cases n) auto
qed

text \<open>Proof of work is a count of leading zeros.\<close>

lemma meets_difficulty_zeros:
  "meets_difficulty h d \<longleftrightarrow> unat d \<le> length (takeWhile (\<lambda>c. c = CHR ''0'') h)"
  by (auto simp: meets_difficulty_def Let_def takeWhile_length_ge)

lemma meets_difficulty_count:
  assumes "length h < 2 ^ 32"
  shows "meets_difficulty h d \<longleftrightarrow> d \<le> count_leading_zeros h"
proof -
  have "length (takeWhile (\<lambda>c. c = CHR ''0'') h) < 2 ^ 32"
    using assms length_takeWhile_le le_less_trans by blast
  then show ?thesis
    by (simp add: meets_difficulty_zeros count_leading_zeros_def word_le_nat_alt unat_of_nat)
qed

lemma meets_difficulty_antimono: "d \<le> e \<Longrightarrow> meets_difficulty h e \<Longrightarrow> meets_difficulty h d"
  by (simp add: meets_difficulty_zeros word_le_nat_alt)

lemma meets_difficulty_zero [simp]: "meets_difficulty h 0"
  by (simp add: meets_difficulty_def)

lemma meets_difficulty_max:
  assumes "hashing_ok H" "meets_difficulty (sha3_256_hex H b) d"
  shows "d \<le> 64"
proof -
  have "unat d \<le> length (sha3_256_hex H b)"
    using assms(2) length_takeWhile_le [of "\<lambda>c. c = CHR ''0''" "sha3_256_hex H b"]
    by (simp add: meets_difficulty_zeros)
  then show ?thesis by (simp add: sha3_256_hex_length [OF assms(1)] word_le_nat_alt)
qed

text \<open>Nothing separates the numbers of a header, so headers that differ share a preimage: a
  digit moves from one field to its neighbour.\<close>

lemma header_preimage_shift:
  "header_preimage 1 23 prev root nonce diff epoch eidx state
     = header_preimage 12 3 prev root nonce diff epoch eidx state"
  by (simp add: header_preimage_def u64_to_string_def i64_to_string_def dec_string.simps)

text \<open>With the two hash fields, the timestamp and the state root of fixed length the position
  of the fields in a transaction is determined by the lengths of the texts around them.\<close>

lemma transaction_preimage_inj:
  assumes "transaction_preimage s r a f n ts ty d sig = transaction_preimage s' r' a' f' n' ts' ty' d' sig'"
    and "length s = length s'" "length r = length r'"
  shows "s = s' \<and> r = r' \<and> a = a' \<and> f = f' \<and> n = n' \<and> i64_to_le_bytes ts = i64_to_le_bytes ts'
    \<and> ty @ d @ sig = ty' @ d' @ sig'"
  using assms by (simp add: transaction_preimage_def)

end
