(* ===== verification/State_Trie.thy ===== *)
theory State_Trie
  imports Account_Store Chain_Hash
begin

text \<open>
  State transitions, \<open>src/src/storage/state_trie.rs\<close>: the state root, snapshots and rollback,
  and the application of a transaction to the accounts. The lemmas show what a transaction
  does to the ledger (funds are conserved up to the fee, the sender's nonce moves by one, the
  invariant is kept on every path, a part-applied transfer is visible) and that a rollback
  restores the ledger a snapshot was taken of.
\<close>

section \<open>State root\<close>

definition state_root_key :: string where "state_root_key = ''state_root''"
definition snapshot_count_key :: string where "snapshot_count_key = ''snapshot_count''"

fun collect_account_hashes ::
  "hashing \<Rightarrow> 't backend \<Rightarrow> (string + bytes \<times> bytes) list \<Rightarrow> string + string list" where
  "collect_account_hashes H B [] = Inr []"
| "collect_account_hashes H B (r # rs) =
     res_bind (map_err (\<lambda>e. ''State trie iteration error: '' @ e) r) (\<lambda>(k, bs).
     res_bind (map_err (\<lambda>e. ''Invalid address key: '' @ e) (from_utf8 k)) (\<lambda>addr.
     res_bind (map_err (\<lambda>e. ''Failed to deserialize account: '' @ e) (from_slice (account_json B) bs)) (\<lambda>a.
     res_bind (map_err (\<lambda>e. ''Failed to serialize account: '' @ e) (to_vec (account_json B) a)) (\<lambda>js.
     res_bind (collect_account_hashes H B rs) (\<lambda>hs.
     Inr (sha3_256_hex H (addr @ js) # hs))))))"

definition compute_state_root :: "hashing \<Rightarrow> 't backend \<Rightarrow> 't kyvera_db \<Rightarrow> string + string" where
  "compute_state_root H B db =
     res_bind (collect_account_hashes H B (sled_iter B (db_accounts db))) (\<lambda>hs.
     if hs = [] then Inr (sha3_256_hex H ''kyvera-empty-state'')
     else Inr (sha3_256_hex H (concat (sort hs))))"

definition save_state_root ::
  "'t backend \<Rightarrow> 't kyvera_db \<Rightarrow> string \<Rightarrow> (string + unit) \<times> 't kyvera_db" where
  "save_state_root B db root = set_metadata B db state_root_key root"

definition load_state_root :: "'t backend \<Rightarrow> 't kyvera_db \<Rightarrow> string + string option" where
  "load_state_root B db =
     res_bind (get_metadata B db state_root_key) (\<lambda>d.
     case d of
       None \<Rightarrow> Inr None
     | Some bs \<Rightarrow>
         res_bind (map_err (\<lambda>e. ''Invalid state root bytes: '' @ e) (from_utf8 bs)) (\<lambda>s. Inr (Some s)))"

section \<open>Snapshots\<close>

fun snapshot_accounts ::
  "'t backend \<Rightarrow> 't kyvera_db \<Rightarrow> string list \<Rightarrow> string + (string \<times> account option) list" where
  "snapshot_accounts B db [] = Inr []"
| "snapshot_accounts B db (addr # addrs) =
     res_bind (get_account B db addr) (\<lambda>a.
     res_bind (snapshot_accounts B db addrs) (\<lambda>rest. Inr ((addr, a) # rest)))"

definition take_snapshot ::
  "hashing \<Rightarrow> 't backend \<Rightarrow> 't kyvera_db \<Rightarrow> u64 \<Rightarrow> string list \<Rightarrow> string + state_snapshot" where
  "take_snapshot H B db height addrs =
     res_bind (load_state_root B db) (\<lambda>r.
     let root = (case r of Some s \<Rightarrow> s | None \<Rightarrow> sha3_256_hex H ''kyvera-empty-state'') in
     res_bind (snapshot_accounts B db addrs) (\<lambda>accs.
     Inr \<lparr>snap_height = height, snap_state_root = root, snap_accounts = accs\<rparr>))"

definition get_snapshot_count :: "'t backend \<Rightarrow> 't kyvera_db \<Rightarrow> string + u64" where
  "get_snapshot_count B db =
     res_bind (get_metadata B db snapshot_count_key) (\<lambda>d.
     case d of
       None \<Rightarrow> Inr 0
     | Some bs \<Rightarrow>
         res_bind (map_err (\<lambda>e. ''Invalid snapshot count: '' @ e) (from_utf8 bs)) (\<lambda>s.
         map_err (\<lambda>e. ''Invalid snapshot count format: '' @ e) (parse_u64 s)))"

definition save_snapshot ::
  "'t backend \<Rightarrow> 't kyvera_db \<Rightarrow> state_snapshot \<Rightarrow> (string + unit) \<times> 't kyvera_db" where
  "save_snapshot B db snap =
     read_bind db (map_err (\<lambda>e. ''Failed to serialize snapshot: '' @ e) (to_vec (snapshot_json B) snap)) (\<lambda>bs.
     read_bind db (get_snapshot_count B db) (\<lambda>count.
     st_bind (set_metadata B db (''snapshot:'' @ pad20 count) bs) (\<lambda>_ db.
     st_bind (set_metadata B db snapshot_count_key (u64_to_string count)) (\<lambda>_ db.
     (Inr (), db)))))"

definition restore_account ::
  "'t backend \<Rightarrow> 't kyvera_db \<Rightarrow> string \<times> account option \<Rightarrow> (string + unit) \<times> 't kyvera_db" where
  "restore_account B db entry =
     (case snd entry of
        Some a \<Rightarrow> save_account B db a
      | None \<Rightarrow> on_accounts db (db_delete B (db_accounts db) (fst entry)))"

definition rollback_to_snapshot ::
  "'t backend \<Rightarrow> 't kyvera_db \<Rightarrow> state_snapshot \<Rightarrow> (string + unit) \<times> 't kyvera_db" where
  "rollback_to_snapshot B db snap =
     st_bind (run_all (restore_account B) db (snap_accounts snap)) (\<lambda>_ db.
     st_bind (save_state_root B db (snap_state_root snap)) (\<lambda>_ db.
     (Inr (), db)))"

section \<open>Transactions\<close>

definition fee_treasury_address :: string where
  "fee_treasury_address = ''kyv10000000000000000000000000000000000000000000000000000treasury00''"

definition apply_fee_split :: "'t backend \<Rightarrow> 't kyvera_db \<Rightarrow> u64 \<Rightarrow> (string + unit) \<times> 't kyvera_db" where
  "apply_fee_split B db fee =
     (let treasury_share = fee div 10 in
      if 0 < treasury_share then
        st_bind (credit_account B db fee_treasury_address treasury_share) (\<lambda>_ db. (Inr (), db))
      else (Inr (), db))"

definition nonce_error :: "u64 \<Rightarrow> u64 \<Rightarrow> string" where
  "nonce_error expected got =
     ''Nonce mismatch: expected '' @ u64_to_string expected @ '' got '' @ u64_to_string got"

definition apply_transfer ::
  "'t backend \<Rightarrow> 't kyvera_db \<Rightarrow> transaction \<Rightarrow> (string + unit) \<times> 't kyvera_db" where
  "apply_transfer B db tx =
     read_bind db (get_or_create_account B db (tx_sender tx)) (\<lambda>sender.
     read_bind db (ok_or (checked_add (tx_amount tx) (tx_fee tx)) ''Transaction cost overflow'') (\<lambda>cost.
     if acc_balance sender < cost then
       (Inl (''Insufficient balance: '' @ tx_sender tx @ '' has '' @ u64_to_string (acc_balance sender)
             @ '' but needs '' @ u64_to_string cost), db)
     else if acc_nonce sender \<noteq> tx_nonce tx then
       (Inl (nonce_error (acc_nonce sender) (tx_nonce tx)), db)
     else
       st_bind (save_account B db
         (sender\<lparr>acc_balance := acc_balance sender - cost, acc_nonce := acc_nonce sender + 1\<rparr>)) (\<lambda>_ db.
       read_bind db (get_or_create_account B db (tx_receiver tx)) (\<lambda>receiver.
       read_bind db (ok_or (checked_add (acc_balance receiver) (tx_amount tx)) ''Receiver balance overflow'') (\<lambda>bal.
       st_bind (save_account B db (receiver\<lparr>acc_balance := bal\<rparr>)) (\<lambda>_ db.
       st_bind (apply_fee_split B db (tx_fee tx)) (\<lambda>_ db.
       (Inr (), db))))))))"

definition apply_stake_lock ::
  "'t backend \<Rightarrow> 't kyvera_db \<Rightarrow> transaction \<Rightarrow> (string + unit) \<times> 't kyvera_db" where
  "apply_stake_lock B db tx =
     read_bind db (get_or_create_account B db (tx_sender tx)) (\<lambda>a.
     read_bind db (ok_or (checked_add (tx_amount tx) (tx_fee tx)) ''Stake cost overflow'') (\<lambda>cost.
     if acc_balance a < cost then
       (Inl (''Insufficient balance to stake: has '' @ u64_to_string (acc_balance a)
             @ '' needs '' @ u64_to_string cost), db)
     else if acc_nonce a \<noteq> tx_nonce tx then
       (Inl (nonce_error (acc_nonce a) (tx_nonce tx)), db)
     else
       read_bind db (ok_or (checked_add (acc_staked a) (tx_amount tx)) ''Staked balance overflow'') (\<lambda>st.
       st_bind (save_account B db (update_validator_tier
         (a\<lparr>acc_balance := acc_balance a - cost, acc_staked := st, acc_nonce := acc_nonce a + 1\<rparr>))) (\<lambda>_ db.
       st_bind (apply_fee_split B db (tx_fee tx)) (\<lambda>_ db.
       (Inr (), db))))))"

definition apply_stake_unlock ::
  "'t backend \<Rightarrow> 't kyvera_db \<Rightarrow> transaction \<Rightarrow> (string + unit) \<times> 't kyvera_db" where
  "apply_stake_unlock B db tx =
     read_bind db (get_or_create_account B db (tx_sender tx)) (\<lambda>a.
     if acc_staked a < tx_amount tx then
       (Inl (''Insufficient staked balance: has '' @ u64_to_string (acc_staked a)
             @ '' needs '' @ u64_to_string (tx_amount tx)), db)
     else if acc_balance a < tx_fee tx then
       (Inl (''Insufficient balance for fee: has '' @ u64_to_string (acc_balance a)
             @ '' needs '' @ u64_to_string (tx_fee tx)), db)
     else if acc_nonce a \<noteq> tx_nonce tx then
       (Inl (nonce_error (acc_nonce a) (tx_nonce tx)), db)
     else
       read_bind db (ok_or (checked_add (acc_balance a) (tx_amount tx)) ''Balance overflow during unstake'') (\<lambda>bal.
       st_bind (save_account B db (update_validator_tier
         (a\<lparr>acc_staked := acc_staked a - tx_amount tx, acc_balance := bal - tx_fee tx,
            acc_nonce := acc_nonce a + 1\<rparr>))) (\<lambda>_ db.
       st_bind (apply_fee_split B db (tx_fee tx)) (\<lambda>_ db.
       (Inr (), db)))))"

definition apply_fee_only ::
  "'t backend \<Rightarrow> 't kyvera_db \<Rightarrow> transaction \<Rightarrow> (string + unit) \<times> 't kyvera_db" where
  "apply_fee_only B db tx =
     read_bind db (get_or_create_account B db (tx_sender tx)) (\<lambda>a.
     if acc_balance a < tx_fee tx then (Inl ''Insufficient balance for fee'', db)
     else if acc_nonce a \<noteq> tx_nonce tx then
       (Inl (nonce_error (acc_nonce a) (tx_nonce tx)), db)
     else
       st_bind (save_account B db
         (a\<lparr>acc_balance := acc_balance a - tx_fee tx, acc_nonce := acc_nonce a + 1\<rparr>)) (\<lambda>_ db.
       st_bind (apply_fee_split B db (tx_fee tx)) (\<lambda>_ db.
       (Inr (), db))))"

definition apply_transaction ::
  "'t backend \<Rightarrow> 't kyvera_db \<Rightarrow> transaction \<Rightarrow> (string + unit) \<times> 't kyvera_db" where
  "apply_transaction B db tx =
     (case tx_type tx of
        Transfer \<Rightarrow> apply_transfer B db tx
      | StakeLock \<Rightarrow> apply_stake_lock B db tx
      | StakeUnlock \<Rightarrow> apply_stake_unlock B db tx
      | ContractDeploy \<Rightarrow> apply_fee_only B db tx
      | ContractCall \<Rightarrow> apply_fee_only B db tx)"

section \<open>The ledger a transaction asks for\<close>

text \<open>
  The abstract transition: the sender's account is charged and its nonce moves on, a transfer
  credits the receiver, a tenth of the fee goes to the treasury; \<open>None\<close> when any part is
  refused. It mentions no database, no encoding and no order of writes.
\<close>

definition ledger_credit ::
  "(string \<Rightarrow> account option) \<Rightarrow> string \<Rightarrow> u64 \<Rightarrow> (string \<Rightarrow> account option) option" where
  "ledger_credit L k amt =
     (if unat (acc_balance (account_at L k)) + unat amt < 2 ^ 64
      then Some (L(k \<mapsto> with_credit (account_at L k) amt)) else None)"

definition charge :: "account \<Rightarrow> transaction \<Rightarrow> account option" where
  "charge a tx =
     (let bal = unat (acc_balance a); amt = unat (tx_amount tx); fee = unat (tx_fee tx);
          stk = unat (acc_staked a)
      in case tx_type tx of
        Transfer \<Rightarrow>
          (if amt + fee \<le> bal then Some (a\<lparr>acc_balance := acc_balance a - (tx_amount tx + tx_fee tx)\<rparr>) else None)
      | StakeLock \<Rightarrow>
          (if amt + fee \<le> bal \<and> stk + amt < 2 ^ 64
           then Some (update_validator_tier
             (a\<lparr>acc_balance := acc_balance a - (tx_amount tx + tx_fee tx), acc_staked := acc_staked a + tx_amount tx\<rparr>))
           else None)
      | StakeUnlock \<Rightarrow>
          (if amt \<le> stk \<and> fee \<le> bal \<and> bal + amt < 2 ^ 64
           then Some (update_validator_tier
             (a\<lparr>acc_staked := acc_staked a - tx_amount tx,
                acc_balance := acc_balance a + tx_amount tx - tx_fee tx\<rparr>))
           else None)
      | _ \<Rightarrow> (if fee \<le> bal then Some (a\<lparr>acc_balance := acc_balance a - tx_fee tx\<rparr>) else None))"

definition ledger_fee :: "(string \<Rightarrow> account option) \<Rightarrow> u64 \<Rightarrow> (string \<Rightarrow> account option) option" where
  "ledger_fee L fee = (if 0 < fee div 10 then ledger_credit L fee_treasury_address (fee div 10) else Some L)"

definition ledger_apply ::
  "(string \<Rightarrow> account option) \<Rightarrow> transaction \<Rightarrow> (string \<Rightarrow> account option) option" where
  "ledger_apply L tx =
     (let a = account_at L (tx_sender tx) in
      if acc_nonce a \<noteq> tx_nonce tx then None
      else Option.bind (charge a tx) (\<lambda>a'.
        let L1 = L(tx_sender tx \<mapsto> a'\<lparr>acc_nonce := acc_nonce a + 1\<rparr>) in
        Option.bind (if tx_type tx = Transfer then ledger_credit L1 (tx_receiver tx) (tx_amount tx) else Some L1)
          (\<lambda>L2. ledger_fee L2 (tx_fee tx))))"

section \<open>Funds, nonces and the invariant on ledgers\<close>

lemma ledger_credit_funds:
  assumes "finite (dom L)" "ledger_credit L k amt = Some L'"
  shows "ledger_funds L' = ledger_funds L + unat amt" "finite (dom L')"
proof -
  from assms(2) have lt: "unat (acc_balance (account_at L k)) + unat amt < 2 ^ 64"
    and L': "L' = L(k \<mapsto> with_credit (account_at L k) amt)"
    by (auto simp: ledger_credit_def split: if_splits)
  show "ledger_funds L' = ledger_funds L + unat amt"
    using ledger_funds_upd [OF assms(1), of k "with_credit (account_at L k) amt"] lt
    by (simp add: L' account_funds_def with_credit_def unat_word_ariths)
  show "finite (dom L')" using assms(1) by (simp add: L')
qed

lemma ledger_credit_ok: "ledger_ok L \<Longrightarrow> ledger_credit L k amt = Some L' \<Longrightarrow> ledger_ok L'"
  using account_ok_at [of L k]
  by (auto simp: ledger_credit_def with_credit_def account_ok_def intro!: ledger_ok_upd split: if_splits)

lemma ledger_credit_nonce:
  "ledger_credit L k amt = Some L' \<Longrightarrow> acc_nonce (account_at L' j) = acc_nonce (account_at L j)"
  by (auto simp: ledger_credit_def with_credit_def account_at_upd split: if_splits)

lemma ledger_fee_funds:
  assumes "finite (dom L)" "ledger_fee L fee = Some L'"
  shows "ledger_funds L' = ledger_funds L + unat fee div 10" "finite (dom L')"
proof -
  have "unat (fee div 10) = unat fee div 10" by (simp add: unat_div)
  moreover from this have "unat fee div 10 = 0" if "\<not> 0 < fee div 10"
    using that by (metis unat_0 word_neq_0_conv)
  ultimately show "ledger_funds L' = ledger_funds L + unat fee div 10" "finite (dom L')"
    using assms ledger_credit_funds [OF assms(1)]
    by (auto simp: ledger_fee_def split: if_splits)
qed

lemma ledger_fee_ok: "ledger_ok L \<Longrightarrow> ledger_fee L fee = Some L' \<Longrightarrow> ledger_ok L'"
  by (auto simp: ledger_fee_def ledger_credit_ok split: if_splits)

lemma ledger_fee_nonce:
  "ledger_fee L fee = Some L' \<Longrightarrow> acc_nonce (account_at L' j) = acc_nonce (account_at L j)"
  by (auto simp: ledger_fee_def ledger_credit_nonce split: if_splits)

text \<open>A charge takes the fee, and for a transfer the amount, out of the sender's account;
  locking and unlocking only move the amount between its two halves.\<close>

lemma charge_funds:
  assumes "charge a tx = Some a'"
  shows "account_funds a' + unat (tx_fee tx) + (if tx_type tx = Transfer then unat (tx_amount tx) else 0)
    = account_funds a"
  using assms
  by (auto simp: charge_def Let_def account_funds_def unat_add_exact unat_sub_exact
      unat_sub_add_exact unat_add_sub_exact split: transaction_type.splits if_splits)

lemma charge_ok: "account_ok k a \<Longrightarrow> charge a tx = Some a' \<Longrightarrow> account_ok k a'"
  by (auto simp: charge_def Let_def account_ok_def split: transaction_type.splits if_splits)

lemma charge_fields: "charge a tx = Some a' \<Longrightarrow> acc_address a' = acc_address a \<and> acc_nonce a' = acc_nonce a"
  by (auto simp: charge_def Let_def split: transaction_type.splits if_splits)

lemma ledger_applyE:
  assumes "ledger_apply L tx = Some L'"
  obtains a' L2 where
    "acc_nonce (account_at L (tx_sender tx)) = tx_nonce tx"
    "charge (account_at L (tx_sender tx)) tx = Some a'"
    "(if tx_type tx = Transfer
      then ledger_credit (L(tx_sender tx \<mapsto> a'\<lparr>acc_nonce := tx_nonce tx + 1\<rparr>)) (tx_receiver tx) (tx_amount tx)
      else Some (L(tx_sender tx \<mapsto> a'\<lparr>acc_nonce := tx_nonce tx + 1\<rparr>))) = Some L2"
    "ledger_fee L2 (tx_fee tx) = Some L'"
proof -
  let ?a = "account_at L (tx_sender tx)"
  from assms have n: "acc_nonce ?a = tx_nonce tx"
    by (simp add: ledger_apply_def Let_def split: if_splits)
  define charged where "charged a' = L(tx_sender tx \<mapsto> a'\<lparr>acc_nonce := tx_nonce tx + 1\<rparr>)" for a'
  have "Option.bind (charge ?a tx) (\<lambda>a'. Option.bind (if tx_type tx = Transfer
        then ledger_credit (charged a') (tx_receiver tx) (tx_amount tx) else Some (charged a'))
      (\<lambda>L2. ledger_fee L2 (tx_fee tx))) = Some L'"
    using assms unfolding ledger_apply_def Let_def charged_def n by simp
  then obtain a' L2 where "charge ?a tx = Some a'"
    "(if tx_type tx = Transfer then ledger_credit (charged a') (tx_receiver tx) (tx_amount tx)
      else Some (charged a')) = Some L2" "ledger_fee L2 (tx_fee tx) = Some L'"
    unfolding bind_eq_Some_conv by blast
  with n show thesis unfolding charged_def by (rule that)
qed

lemma ledger_apply_funds:
  assumes "finite (dom L)" "ledger_apply L tx = Some L'"
  shows "ledger_funds L' + unat (tx_fee tx) = ledger_funds L + unat (tx_fee tx) div 10"
  using assms(2)
proof (rule ledger_applyE)
  fix a' :: account and L2
  let ?a = "account_at L (tx_sender tx)" and ?a' = "a'\<lparr>acc_nonce := tx_nonce tx + 1\<rparr>"
  let ?L1 = "L(tx_sender tx \<mapsto> ?a')"
  assume ch: "charge ?a tx = Some a'"
    and cr: "(if tx_type tx = Transfer then ledger_credit ?L1 (tx_receiver tx) (tx_amount tx)
      else Some ?L1) = Some L2"
    and fee: "ledger_fee L2 (tx_fee tx) = Some L'"
  have fin1: "finite (dom ?L1)" using assms(1) by simp
  have "ledger_funds ?L1 + account_funds ?a = ledger_funds L + account_funds a'"
    using ledger_funds_upd [OF assms(1), of "tx_sender tx" ?a'] by (simp add: account_funds_def)
  moreover have "finite (dom L2) \<and> ledger_funds L2
      = ledger_funds ?L1 + (if tx_type tx = Transfer then unat (tx_amount tx) else 0)"
    using cr ledger_credit_funds [OF fin1] fin1 by (auto split: if_splits)
  ultimately show ?thesis
    using charge_funds [OF ch] ledger_fee_funds [OF _ fee] by (simp split: if_splits)
qed

lemma ledger_apply_ok:
  assumes "ledger_ok L" "ledger_apply L tx = Some L'"
  shows "ledger_ok L'"
  using assms(2)
proof (rule ledger_applyE)
  fix a' :: account and L2
  let ?L1 = "L(tx_sender tx \<mapsto> a'\<lparr>acc_nonce := tx_nonce tx + 1\<rparr>)"
  assume ch: "charge (account_at L (tx_sender tx)) tx = Some a'"
    and cr: "(if tx_type tx = Transfer then ledger_credit ?L1 (tx_receiver tx) (tx_amount tx)
      else Some ?L1) = Some L2"
    and fee: "ledger_fee L2 (tx_fee tx) = Some L'"
  have "account_ok (tx_sender tx) a'"
    using charge_ok [OF account_ok_at [OF assms(1)] ch] .
  then have "ledger_ok ?L1"
    using assms(1) by (simp add: ledger_ok_upd account_ok_def)
  then have "ledger_ok L2"
    using cr by (auto elim: ledger_credit_ok split: if_splits)
  then show ?thesis using fee by (rule ledger_fee_ok)
qed

lemma ledger_apply_nonce:
  assumes "ledger_apply L tx = Some L'"
  shows "acc_nonce (account_at L (tx_sender tx)) = tx_nonce tx"
    and "acc_nonce (account_at L' k)
      = (if k = tx_sender tx then tx_nonce tx + 1 else acc_nonce (account_at L k))"
proof -
  show *: "acc_nonce (account_at L (tx_sender tx)) = tx_nonce tx"
    using assms by (rule ledger_applyE)
  from assms show "acc_nonce (account_at L' k)
      = (if k = tx_sender tx then tx_nonce tx + 1 else acc_nonce (account_at L k))"
  proof (rule ledger_applyE)
    fix a' :: account and L2
    let ?L1 = "L(tx_sender tx \<mapsto> a'\<lparr>acc_nonce := tx_nonce tx + 1\<rparr>)"
    assume cr: "(if tx_type tx = Transfer then ledger_credit ?L1 (tx_receiver tx) (tx_amount tx)
        else Some ?L1) = Some L2"
      and fee: "ledger_fee L2 (tx_fee tx) = Some L'"
    have "acc_nonce (account_at L2 k) = acc_nonce (account_at ?L1 k)"
      using cr by (auto simp: ledger_credit_nonce split: if_splits)
    then show ?thesis by (simp add: ledger_fee_nonce [OF fee] account_at_upd)
  qed
qed

text \<open>A transaction the ledger has taken is refused from then on, until the nonce has gone
  round: the nonce no longer matches.\<close>

lemma ledger_apply_replay:
  "ledger_apply L tx = Some L' \<Longrightarrow> ledger_apply L' tx = None"
  using ledger_apply_nonce(2) [of L tx L' "tx_sender tx"]
  by (simp add: ledger_apply_def Let_def)

section \<open>The database refines the ledger\<close>

lemma credit_refines:
  assumes "backend_ok B" "db_ok B db" "credit_account B db k amt = (Inr u, db')"
  shows "ledger_credit (ledger B db) k amt = Some (ledger B db')" "db_ok B db'"
  using credit_account_ledger [OF assms] credit_account_db_ok [OF assms(1,2), of k amt] assms(3)
  by (simp_all add: ledger_credit_def with_credit_def)

lemma fee_split_refines:
  assumes "backend_ok B" "db_ok B db" "apply_fee_split B db fee = (Inr u, db')"
  shows "ledger_fee (ledger B db) fee = Some (ledger B db')"
proof (cases "0 < fee div 10")
  case True
  with assms(3) obtain v where "credit_account B db fee_treasury_address (fee div 10) = (Inr v, db')"
    by (auto simp: apply_fee_split_def Let_def elim: st_bind_InrE)
  with True show ?thesis using credit_refines(1) [OF assms(1,2)] by (simp add: ledger_fee_def)
next
  case False
  with assms(3) show ?thesis by (simp add: apply_fee_split_def ledger_fee_def)
qed

text \<open>The receiving half of a transfer is a credit, up to the message of its overflow error.\<close>

lemma receive_is_credit:
  assumes "read_bind db (get_or_create_account B db k) (\<lambda>r.
      read_bind db (ok_or (checked_add (acc_balance r) amt) msg) (\<lambda>bal.
      st_bind (save_account B db (r\<lparr>acc_balance := bal\<rparr>)) f)) = (Inr u, db')"
  obtains v db1 where "credit_account B db k amt = (Inr v, db1)" "f v db1 = (Inr u, db')"
  using assms by (auto simp: credit_account_def elim!: read_bind_InrE st_bind_InrE)

lemma apply_transfer_refines:
  assumes "backend_ok B" "db_ok B db" "tx_type tx = Transfer" "apply_transfer B db tx = (Inr u, db')"
  shows "ledger_apply (ledger B db) tx = Some (ledger B db')"
proof -
  let ?a = "account_at (ledger B db) (tx_sender tx)"
  let ?a' = "?a\<lparr>acc_balance := acc_balance ?a - (tx_amount tx + tx_fee tx), acc_nonce := acc_nonce ?a + 1\<rparr>"
  obtain cost v db1 where cost: "checked_add (tx_amount tx) (tx_fee tx) = Some cost"
    and bal: "\<not> acc_balance ?a < cost" and nonce: "acc_nonce ?a = tx_nonce tx"
    and save: "save_account B db
      (?a\<lparr>acc_balance := acc_balance ?a - cost, acc_nonce := acc_nonce ?a + 1\<rparr>) = (Inr v, db1)"
    and rest: "read_bind db1 (get_or_create_account B db1 (tx_receiver tx)) (\<lambda>receiver.
       read_bind db1 (ok_or (checked_add (acc_balance receiver) (tx_amount tx)) ''Receiver balance overflow'') (\<lambda>bal.
       st_bind (save_account B db1 (receiver\<lparr>acc_balance := bal\<rparr>)) (\<lambda>_ db.
       st_bind (apply_fee_split B db (tx_fee tx)) (\<lambda>_ db. (Inr (), db))))) = (Inr u, db')"
    by (rule rmw_okE [OF assms(1) assms(4) [unfolded apply_transfer_def]], erule read_bind_InrE)
      (auto elim: st_bind_InrE split: if_splits)
  have cost': "cost = tx_amount tx + tx_fee tx" "unat cost = unat (tx_amount tx) + unat (tx_fee tx)"
    using cost by (auto simp: checked_add_def unat_add_exact split: if_splits)
  have ch: "charge ?a tx = Some (?a\<lparr>acc_balance := acc_balance ?a - (tx_amount tx + tx_fee tx)\<rparr>)"
    using bal cost' assms(3) by (simp add: charge_def word_less_nat_alt)
  have led1: "ledger B db1 = (ledger B db)(tx_sender tx \<mapsto> ?a')"
    using save_account_ledger(1) [OF assms(1) save] db_ok_at(2) [OF assms(2)] by (simp add: cost')
  have ok1: "db_ok B db1"
    using assms(2) db_ok_at(1) [OF assms(2), of "tx_sender tx"]
    by (simp add: db_ok_def led1 ledger_ok_upd account_ok_def)
  obtain w db2 where cr: "credit_account B db1 (tx_receiver tx) (tx_amount tx) = (Inr w, db2)"
    and fee: "apply_fee_split B db2 (tx_fee tx) = (Inr (), db')"
    by (rule receive_is_credit [OF rest]) (auto elim!: st_bind_InrE)
  show ?thesis
    using assms(3) ch nonce credit_refines [OF assms(1) ok1 cr] fee_split_refines [OF assms(1) _ fee]
    by (simp add: ledger_apply_def Let_def led1)
qed

text \<open>The other kinds charge one account and split the fee.\<close>

lemma charge_only_refines:
  assumes "backend_ok B" "db_ok B db" "tx_type tx \<noteq> Transfer"
    and "acc_nonce (account_at (ledger B db) (tx_sender tx)) = tx_nonce tx"
    and "charge (account_at (ledger B db) (tx_sender tx)) tx = Some c"
    and "a' = c\<lparr>acc_nonce := tx_nonce tx + 1\<rparr>"
    and "st_bind (save_account B db a') (\<lambda>_ db. st_bind (apply_fee_split B db (tx_fee tx)) (\<lambda>_ db. (Inr (), db)))
      = (Inr u, db')"
  shows "ledger_apply (ledger B db) tx = Some (ledger B db')"
proof -
  obtain v db1 where save: "save_account B db a' = (Inr v, db1)"
    and fee: "apply_fee_split B db1 (tx_fee tx) = (Inr (), db')"
    using assms(7) by (auto elim!: st_bind_InrE)
  have c: "account_ok (tx_sender tx) c"
    by (rule charge_ok [OF db_ok_at(1) [OF assms(2)] assms(5)])
  have led1: "ledger B db1 = (ledger B db)(tx_sender tx \<mapsto> a')"
    using save_account_ledger(1) [OF assms(1) save] c assms(6) by (simp add: account_ok_def)
  have "db_ok B db1"
    using assms(2,6) c by (simp add: db_ok_def led1 ledger_ok_upd account_ok_def)
  from fee_split_refines [OF assms(1) this fee] show ?thesis
    using assms(3-6) by (simp add: ledger_apply_def Let_def led1)
qed

lemma apply_stake_lock_refines:
  assumes "backend_ok B" "db_ok B db" "tx_type tx = StakeLock" "apply_stake_lock B db tx = (Inr u, db')"
  shows "ledger_apply (ledger B db) tx = Some (ledger B db')"
proof -
  let ?a = "account_at (ledger B db) (tx_sender tx)"
  obtain cost st where cost: "checked_add (tx_amount tx) (tx_fee tx) = Some cost"
    and bal: "\<not> acc_balance ?a < cost" and nonce: "acc_nonce ?a = tx_nonce tx"
    and st: "checked_add (acc_staked ?a) (tx_amount tx) = Some st"
    and rest: "st_bind (save_account B db (update_validator_tier
        (?a\<lparr>acc_balance := acc_balance ?a - cost, acc_staked := st, acc_nonce := acc_nonce ?a + 1\<rparr>)))
      (\<lambda>_ db. st_bind (apply_fee_split B db (tx_fee tx)) (\<lambda>_ db. (Inr (), db))) = (Inr u, db')"
    by (rule rmw_okE [OF assms(1) assms(4) [unfolded apply_stake_lock_def]], erule read_bind_InrE)
      (auto elim: read_bind_InrE split: if_splits)
  have "cost = tx_amount tx + tx_fee tx" "unat cost = unat (tx_amount tx) + unat (tx_fee tx)"
    "st = acc_staked ?a + tx_amount tx" "unat (acc_staked ?a) + unat (tx_amount tx) < 2 ^ 64"
    using cost st by (auto simp: checked_add_def unat_add_exact split: if_splits)
  then show ?thesis
    using bal nonce assms(3)
    by (intro charge_only_refines [OF assms(1,2) _ _ _ _ rest])
      (auto simp: charge_def word_less_nat_alt update_validator_tier_def)
qed

lemma apply_stake_unlock_refines:
  assumes "backend_ok B" "db_ok B db" "tx_type tx = StakeUnlock" "apply_stake_unlock B db tx = (Inr u, db')"
  shows "ledger_apply (ledger B db) tx = Some (ledger B db')"
proof -
  let ?a = "account_at (ledger B db) (tx_sender tx)"
  obtain bal where guards: "\<not> acc_staked ?a < tx_amount tx" "\<not> acc_balance ?a < tx_fee tx"
    and nonce: "acc_nonce ?a = tx_nonce tx"
    and bal: "checked_add (acc_balance ?a) (tx_amount tx) = Some bal"
    and rest: "st_bind (save_account B db (update_validator_tier
        (?a\<lparr>acc_staked := acc_staked ?a - tx_amount tx, acc_balance := bal - tx_fee tx,
           acc_nonce := acc_nonce ?a + 1\<rparr>)))
      (\<lambda>_ db. st_bind (apply_fee_split B db (tx_fee tx)) (\<lambda>_ db. (Inr (), db))) = (Inr u, db')"
    by (rule rmw_okE [OF assms(1) assms(4) [unfolded apply_stake_unlock_def]])
      (auto elim: read_bind_InrE split: if_splits)
  have "bal = acc_balance ?a + tx_amount tx" "unat (acc_balance ?a) + unat (tx_amount tx) < 2 ^ 64"
    using bal by (auto simp: checked_add_def split: if_splits)
  then show ?thesis
    using guards nonce assms(3)
    by (intro charge_only_refines [OF assms(1,2) _ _ _ _ rest])
      (auto simp: charge_def word_less_nat_alt update_validator_tier_def)
qed

lemma apply_fee_only_refines:
  assumes "backend_ok B" "db_ok B db" "tx_type tx \<in> {ContractDeploy, ContractCall}"
    and "apply_fee_only B db tx = (Inr u, db')"
  shows "ledger_apply (ledger B db) tx = Some (ledger B db')"
proof -
  let ?a = "account_at (ledger B db) (tx_sender tx)"
  have guard: "\<not> acc_balance ?a < tx_fee tx" and nonce: "acc_nonce ?a = tx_nonce tx"
    and rest: "st_bind (save_account B db
        (?a\<lparr>acc_balance := acc_balance ?a - tx_fee tx, acc_nonce := acc_nonce ?a + 1\<rparr>))
      (\<lambda>_ db. st_bind (apply_fee_split B db (tx_fee tx)) (\<lambda>_ db. (Inr (), db))) = (Inr u, db')"
    by (rule rmw_okE [OF assms(1) assms(4) [unfolded apply_fee_only_def]], auto split: if_splits)+
  then show ?thesis
    using assms(3)
    by (intro charge_only_refines [OF assms(1,2) _ _ _ _ rest])
      (auto simp: charge_def word_less_nat_alt)
qed

lemma apply_transaction_refines:
  assumes "backend_ok B" "db_ok B db" "apply_transaction B db tx = (Inr u, db')"
  shows "ledger_apply (ledger B db) tx = Some (ledger B db')"
  using assms(3) apply_transfer_refines [OF assms(1,2)] apply_stake_lock_refines [OF assms(1,2)]
    apply_stake_unlock_refines [OF assms(1,2)] apply_fee_only_refines [OF assms(1,2)]
  by (cases "tx_type tx") (simp_all add: apply_transaction_def)

section \<open>Every path keeps the invariant\<close>

lemma apply_fee_split_closed:
  assumes "backend_ok B" "write_closed B K P" "P db" "fee_treasury_address \<in> K"
  shows "P (snd (apply_fee_split B db fee))"
  unfolding apply_fee_split_def Let_def
  by (auto intro!: st_bind_closed [where P = P] credit_account_closed [OF assms] assms(3))

lemma save_then_closed:
  assumes "write_closed B K P" "P db" "account_ok k a" "k \<in> K"
    and "\<And>db1. P db1 \<Longrightarrow> P (snd (f db1))"
  shows "P (snd (st_bind (save_account B db a) (\<lambda>_ db. f db)))"
  by (rule st_bind_closed [where P = P], rule write_closedD(2) [OF assms(1-4)], rule assms(5))

lemma fee_then_closed:
  assumes "backend_ok B" "write_closed B K P" "P db" "fee_treasury_address \<in> K"
  shows "P (snd (st_bind (apply_fee_split B db fee) (\<lambda>_ db. (Inr (), db))))"
  by (rule st_bind_closed [where P = P], rule apply_fee_split_closed [OF assms]) simp

lemma receive_closed:
  assumes B: "backend_ok B" and P: "write_closed B K P" and db: "P db"
    and K: "k \<in> K" "fee_treasury_address \<in> K"
  shows "P (snd (read_bind db (get_or_create_account B db k) (\<lambda>receiver.
       read_bind db (ok_or (checked_add (acc_balance receiver) amt) ''Receiver balance overflow'') (\<lambda>bal.
       st_bind (save_account B db (receiver\<lparr>acc_balance := bal\<rparr>)) (\<lambda>_ db.
       st_bind (apply_fee_split B db fee) (\<lambda>_ db. (Inr (), db)))))))"
  by (rule rmw_closed [where P = P, OF B P db])
    (auto intro!: read_bind_state [where P = P] save_then_closed [where P = P, OF P _ _ K(1)]
      fee_then_closed [where P = P, OF B P] db K simp: account_ok_def)

lemma apply_transfer_closed:
  assumes B: "backend_ok B" and P: "write_closed B K P" and db: "P db"
    and K: "tx_sender tx \<in> K" "tx_receiver tx \<in> K" "fee_treasury_address \<in> K"
  shows "P (snd (apply_transfer B db tx))"
  unfolding apply_transfer_def
  by (rule rmw_closed [where P = P, OF B P db])
    (auto intro!: read_bind_state [where P = P] save_then_closed [where P = P, OF P _ _ K(1)]
      receive_closed [where P = P, OF B P _ K(2,3)] db simp: account_ok_def)

lemma apply_stake_lock_closed:
  assumes B: "backend_ok B" and P: "write_closed B K P" and db: "P db"
    and K: "tx_sender tx \<in> K" "tx_receiver tx \<in> K" "fee_treasury_address \<in> K"
  shows "P (snd (apply_stake_lock B db tx))"
  unfolding apply_stake_lock_def
  by (rule rmw_closed [where P = P, OF B P db])
    (auto intro!: read_bind_state [where P = P] save_then_closed [where P = P, OF P _ _ K(1)]
      fee_then_closed [where P = P, OF B P] db K simp: account_ok_def)

lemma apply_stake_unlock_closed:
  assumes B: "backend_ok B" and P: "write_closed B K P" and db: "P db"
    and K: "tx_sender tx \<in> K" "tx_receiver tx \<in> K" "fee_treasury_address \<in> K"
  shows "P (snd (apply_stake_unlock B db tx))"
  unfolding apply_stake_unlock_def
  by (rule rmw_closed [where P = P, OF B P db])
    (auto intro!: read_bind_state [where P = P] save_then_closed [where P = P, OF P _ _ K(1)]
      fee_then_closed [where P = P, OF B P] db K simp: account_ok_def)

lemma apply_fee_only_closed:
  assumes B: "backend_ok B" and P: "write_closed B K P" and db: "P db"
    and K: "tx_sender tx \<in> K" "tx_receiver tx \<in> K" "fee_treasury_address \<in> K"
  shows "P (snd (apply_fee_only B db tx))"
  unfolding apply_fee_only_def
  by (rule rmw_closed [where P = P, OF B P db])
    (auto intro!: save_then_closed [where P = P, OF P _ _ K(1)] fee_then_closed [where P = P, OF B P] db K simp: account_ok_def)

lemma apply_transaction_closed:
  assumes "backend_ok B" "write_closed B K P" "P db"
    and "tx_sender tx \<in> K" "tx_receiver tx \<in> K" "fee_treasury_address \<in> K"
  shows "P (snd (apply_transaction B db tx))"
  using apply_transfer_closed [OF assms] apply_stake_lock_closed [OF assms]
    apply_stake_unlock_closed [OF assms] apply_fee_only_closed [OF assms]
  by (cases "tx_type tx") (simp_all add: apply_transaction_def)

section \<open>A working store: the database does exactly what the ledger asks for\<close>

text \<open>On a backend that reports no errors, over a readable and well-formed accounts tree,
  nothing but the ledger decides whether an operation succeeds.\<close>

definition store_ready :: "'t backend \<Rightarrow> 't kyvera_db \<Rightarrow> bool" where
  "store_ready B db \<longleftrightarrow> backend_total B \<and> db_ok B db \<and> accounts_readable B db"

lemma store_readyD:
  assumes "store_ready B db"
  shows "backend_total B" "backend_ok B" "db_ok B db" "accounts_readable B db"
  using assms backend_total_ok by (auto simp: store_ready_def)

lemma ready_get: "store_ready B db \<Longrightarrow> get_or_create_account B db k = Inr (account_at (ledger B db) k)"
  by (simp add: get_or_create_total store_readyD)

lemma ready_save:
  assumes "store_ready B db" "account_ok (acc_address a) a"
  obtains db' where "save_account B db a = (Inr (), db')" "store_ready B db'"
    "ledger B db' = (ledger B db)(acc_address a \<mapsto> a)"
proof -
  note r = store_readyD [OF assms(1)]
  obtain db' where s: "save_account B db a = (Inr (), db')"
    using save_account_total [OF r(1)] by blast
  have led: "ledger B db' = (ledger B db)(acc_address a \<mapsto> a)"
    by (rule save_account_ledger(1) [OF r(2) s])
  have "db_ok B db'" using r(3) assms(2) by (simp add: db_ok_def led ledger_ok_upd)
  then have "store_ready B db'"
    using r(1) save_account_readable [OF r(2,4) s] by (simp add: store_ready_def)
  with s led show thesis by (intro that)
qed

lemma ready_credit:
  assumes "store_ready B db" "ledger_credit (ledger B db) k amt = Some L'"
  obtains db' where "credit_account B db k amt = (Inr (), db')" "store_ready B db'" "ledger B db' = L'"
proof -
  let ?a = "account_at (ledger B db) k"
  from assms(2) have lt: "unat (acc_balance ?a) + unat amt < 2 ^ 64"
    and L': "L' = (ledger B db)(k \<mapsto> with_credit ?a amt)"
    by (auto simp: ledger_credit_def split: if_splits)
  have ok: "account_ok k (with_credit ?a amt)"
    using db_ok_at(1) [OF store_readyD(3) [OF assms(1)], of k] by (simp add: account_ok_def with_credit_def)
  then have adr: "acc_address (with_credit ?a amt) = k" by (rule account_ok_address)
  obtain db' where "save_account B db (with_credit ?a amt) = (Inr (), db')" "store_ready B db'"
    "ledger B db' = (ledger B db)(k \<mapsto> with_credit ?a amt)"
    using ready_save [OF assms(1), of "with_credit ?a amt"] ok adr by metis
  with lt show thesis
    by (intro that [of db'])
      (simp_all add: credit_account_def ready_get [OF assms(1)] checked_add_def with_credit_def L')
qed

lemma ready_fee:
  assumes "store_ready B db" "ledger_fee (ledger B db) fee = Some L'"
  obtains db' where "apply_fee_split B db fee = (Inr (), db')" "store_ready B db'" "ledger B db' = L'"
proof (cases "0 < fee div 10")
  case True
  with assms(2) have "ledger_credit (ledger B db) fee_treasury_address (fee div 10) = Some L'"
    by (simp add: ledger_fee_def)
  then show thesis
    by (rule ready_credit [OF assms(1)]) (rule that, simp_all add: apply_fee_split_def True)
next
  case False
  with assms show thesis by (intro that [of db]) (simp_all add: apply_fee_split_def ledger_fee_def)
qed

lemma ready_charge:
  assumes "store_ready B db" "tx_type tx \<noteq> Transfer"
    and "charge (account_at (ledger B db) (tx_sender tx)) tx = Some c"
    and "a' = c\<lparr>acc_nonce := tx_nonce tx + 1\<rparr>"
    and "ledger_fee ((ledger B db)(tx_sender tx \<mapsto> a')) (tx_fee tx) = Some L'"
  obtains db' where "st_bind (save_account B db a') (\<lambda>_ db.
      st_bind (apply_fee_split B db (tx_fee tx)) (\<lambda>_ db. (Inr (), db))) = (Inr (), db')"
    "store_ready B db'" "ledger B db' = L'"
proof -
  have ok: "account_ok (tx_sender tx) a'"
    using charge_ok [OF db_ok_at(1) [OF store_readyD(3) [OF assms(1)]] assms(3)]
    by (simp add: assms(4) account_ok_def)
  then have adr: "acc_address a' = tx_sender tx" by (rule account_ok_address)
  obtain db1 where s: "save_account B db a' = (Inr (), db1)" and r1: "store_ready B db1"
    and l1: "ledger B db1 = (ledger B db)(tx_sender tx \<mapsto> a')"
    using ready_save [OF assms(1), of a'] ok adr by metis
  show thesis
    by (rule ready_fee [OF r1 assms(5) [folded l1]]) (rule that, simp_all add: s)
qed

lemma ready_transfer:
  assumes "store_ready B db" "tx_type tx = Transfer" "ledger_apply (ledger B db) tx = Some L'"
  obtains db' where "apply_transfer B db tx = (Inr (), db')" "store_ready B db'" "ledger B db' = L'"
  using assms(3)
proof (rule ledger_applyE)
  let ?a = "account_at (ledger B db) (tx_sender tx)"
  fix c :: account and L2
  let ?a' = "c\<lparr>acc_nonce := tx_nonce tx + 1\<rparr>"
  assume n: "acc_nonce ?a = tx_nonce tx" and ch: "charge ?a tx = Some c"
    and cr: "(if tx_type tx = Transfer
      then ledger_credit ((ledger B db)(tx_sender tx \<mapsto> ?a')) (tx_receiver tx) (tx_amount tx)
      else Some ((ledger B db)(tx_sender tx \<mapsto> ?a'))) = Some L2"
    and fee: "ledger_fee L2 (tx_fee tx) = Some L'"
  from ch assms(2) have bal: "unat (tx_amount tx) + unat (tx_fee tx) \<le> unat (acc_balance ?a)"
    and c: "c = ?a\<lparr>acc_balance := acc_balance ?a - (tx_amount tx + tx_fee tx)\<rparr>"
    by (auto simp: charge_def Let_def split: if_splits)
  have cost: "checked_add (tx_amount tx) (tx_fee tx) = Some (tx_amount tx + tx_fee tx)"
    using le_less_trans [OF bal u64_less] by (simp add: checked_add_def)
  then have ge: "\<not> acc_balance ?a < tx_amount tx + tx_fee tx"
    using bal by (simp add: word_less_nat_alt checked_add_Some)
  have ok: "account_ok (tx_sender tx) ?a'"
    using charge_ok [OF db_ok_at(1) [OF store_readyD(3) [OF assms(1)]] ch] by (simp add: account_ok_def)
  then have adr: "acc_address ?a' = tx_sender tx" by (rule account_ok_address)
  obtain db1 where s: "save_account B db ?a' = (Inr (), db1)" and r1: "store_ready B db1"
    and l1: "ledger B db1 = (ledger B db)(tx_sender tx \<mapsto> ?a')"
    using ready_save [OF assms(1), of ?a'] ok adr by metis
  let ?b = "account_at (ledger B db1) (tx_receiver tx)"
  have cr1: "ledger_credit (ledger B db1) (tx_receiver tx) (tx_amount tx) = Some L2"
    using cr assms(2) by (simp add: l1)
  then have add: "checked_add (acc_balance ?b) (tx_amount tx) = Some (acc_balance ?b + tx_amount tx)"
    by (auto simp: ledger_credit_def checked_add_def split: if_splits)
  obtain db2 where cd: "credit_account B db1 (tx_receiver tx) (tx_amount tx) = (Inr (), db2)"
    and r2: "store_ready B db2" and l2: "ledger B db2 = L2"
    by (rule ready_credit [OF r1 cr1])
  have s2: "save_account B db1 (?b\<lparr>acc_balance := acc_balance ?b + tx_amount tx\<rparr>) = (Inr (), db2)"
    using cd by (simp add: credit_account_def ready_get [OF r1] add)
  obtain db3 where f: "apply_fee_split B db2 (tx_fee tx) = (Inr (), db3)"
    and r3: "store_ready B db3" and l3: "ledger B db3 = L'"
    by (rule ready_fee [OF r2 fee [folded l2]])
  have a': "?a\<lparr>acc_balance := acc_balance ?a - (tx_amount tx + tx_fee tx), acc_nonce := tx_nonce tx + 1\<rparr> = ?a'"
    by (simp add: c)
  have "apply_transfer B db tx = (Inr (), db3)"
    using s by (simp add: apply_transfer_def ready_get [OF assms(1)] ready_get [OF r1] cost ge n a' add s2 f
        del: account.update_convs)
  with r3 l3 show thesis by (intro that)
qed

lemma charge_guards:
  assumes "charge a tx = Some c"
  shows "tx_type tx = StakeLock \<Longrightarrow>
      checked_add (tx_amount tx) (tx_fee tx) = Some (tx_amount tx + tx_fee tx)
      \<and> \<not> acc_balance a < tx_amount tx + tx_fee tx
      \<and> checked_add (acc_staked a) (tx_amount tx) = Some (acc_staked a + tx_amount tx)"
    and "tx_type tx = StakeUnlock \<Longrightarrow>
      \<not> acc_staked a < tx_amount tx \<and> \<not> acc_balance a < tx_fee tx
      \<and> checked_add (acc_balance a) (tx_amount tx) = Some (acc_balance a + tx_amount tx)"
    and "tx_type tx \<in> {ContractDeploy, ContractCall} \<Longrightarrow> \<not> acc_balance a < tx_fee tx"
proof -
  assume "tx_type tx = StakeLock"
  with assms have le: "unat (tx_amount tx) + unat (tx_fee tx) \<le> unat (acc_balance a)"
    and st: "unat (acc_staked a) + unat (tx_amount tx) < 2 ^ 64"
    by (auto simp: charge_def Let_def split: if_splits)
  have "unat (tx_amount tx) + unat (tx_fee tx) < 2 ^ 64"
    using le_less_trans [OF le u64_less] by simp
  with le st show "checked_add (tx_amount tx) (tx_fee tx) = Some (tx_amount tx + tx_fee tx)
      \<and> \<not> acc_balance a < tx_amount tx + tx_fee tx
      \<and> checked_add (acc_staked a) (tx_amount tx) = Some (acc_staked a + tx_amount tx)"
    by (simp add: checked_add_def word_less_nat_alt unat_add_exact)
qed (use assms in \<open>auto simp: charge_def Let_def checked_add_def word_less_nat_alt split: if_splits\<close>)

text \<open>The account the code writes is the charged one with the next nonce.\<close>

lemma charge_written:
  assumes "charge a tx = Some c"
  shows "tx_type tx = StakeLock \<Longrightarrow> update_validator_tier (a\<lparr>acc_balance := acc_balance a - (tx_amount tx + tx_fee tx),
        acc_staked := acc_staked a + tx_amount tx, acc_nonce := n\<rparr>) = c\<lparr>acc_nonce := n\<rparr>"
    and "tx_type tx = StakeUnlock \<Longrightarrow> update_validator_tier (a\<lparr>acc_staked := acc_staked a - tx_amount tx,
        acc_balance := acc_balance a + tx_amount tx - tx_fee tx, acc_nonce := n\<rparr>) = c\<lparr>acc_nonce := n\<rparr>"
    and "tx_type tx \<in> {ContractDeploy, ContractCall} \<Longrightarrow>
      a\<lparr>acc_balance := acc_balance a - tx_fee tx, acc_nonce := n\<rparr> = c\<lparr>acc_nonce := n\<rparr>"
  using assms by (auto simp: charge_def Let_def update_validator_tier_def split: if_splits)

lemma ready_apply:
  assumes "store_ready B db" "ledger_apply (ledger B db) tx = Some L'"
  obtains db' where "apply_transaction B db tx = (Inr (), db')" "store_ready B db'" "ledger B db' = L'"
proof (cases "tx_type tx = Transfer")
  case True
  show thesis by (rule ready_transfer [OF assms(1) True assms(2)]) (rule that, simp_all add: apply_transaction_def True)
next
  case False
  let ?a = "account_at (ledger B db) (tx_sender tx)"
  from assms(2) show thesis
  proof (rule ledger_applyE)
    fix c :: account and L2
    assume n: "acc_nonce ?a = tx_nonce tx" and ch: "charge ?a tx = Some c"
      and "(if tx_type tx = Transfer then ledger_credit ((ledger B db)(tx_sender tx \<mapsto> c\<lparr>acc_nonce := tx_nonce tx + 1\<rparr>))
          (tx_receiver tx) (tx_amount tx)
        else Some ((ledger B db)(tx_sender tx \<mapsto> c\<lparr>acc_nonce := tx_nonce tx + 1\<rparr>))) = Some L2"
      and "ledger_fee L2 (tx_fee tx) = Some L'"
    with False have fee: "ledger_fee ((ledger B db)(tx_sender tx \<mapsto> c\<lparr>acc_nonce := tx_nonce tx + 1\<rparr>)) (tx_fee tx) = Some L'"
      by simp
    show thesis
    proof (rule ready_charge [OF assms(1) False ch refl fee])
      fix db' assume run: "st_bind (save_account B db (c\<lparr>acc_nonce := tx_nonce tx + 1\<rparr>)) (\<lambda>_ db.
          st_bind (apply_fee_split B db (tx_fee tx)) (\<lambda>_ db. (Inr (), db))) = (Inr (), db')"
        and r: "store_ready B db'" "ledger B db' = L'"
      have "apply_transaction B db tx = (Inr (), db')"
        using False charge_guards [OF ch] n run
        by (cases "tx_type tx")
          (simp_all add: apply_transaction_def apply_stake_lock_def apply_stake_unlock_def
            apply_fee_only_def ready_get [OF assms(1)] charge_written [OF ch])
      with r show thesis by (intro that)
    qed
  qed
qed

section \<open>A refused transaction leaves no trace while the supply is bounded\<close>

text \<open>The code writes the sender before it knows that the receiver and the treasury can be
  credited. With less than \<open>2 ^ 64\<close> units in the ledger that cannot fail.\<close>

lemma ledger_credit_total:
  assumes "finite (dom L)" "ledger_funds L + unat amt < 2 ^ 64"
  shows "\<exists>L'. ledger_credit L k amt = Some L'"
  using account_funds_le_ledger [OF assms(1), of k] assms(2)
  by (simp add: ledger_credit_def account_funds_def)

lemma ledger_fee_total:
  assumes "finite (dom L)" "ledger_funds L + unat fee < 2 ^ 64"
  shows "\<exists>L'. ledger_fee L fee = Some L'"
proof -
  have "unat (fee div 10) \<le> unat fee" by (simp add: unat_div)
  then have "ledger_funds L + unat (fee div 10) < 2 ^ 64" using assms(2) by simp
  then show ?thesis using ledger_credit_total [OF assms(1)] by (simp add: ledger_fee_def)
qed

text \<open>Only the charge and the nonce decide, then.\<close>

lemma ledger_apply_Some_iff:
  assumes "finite (dom L)" "ledger_funds L < 2 ^ 64"
  shows "(\<exists>L'. ledger_apply L tx = Some L') \<longleftrightarrow>
    acc_nonce (account_at L (tx_sender tx)) = tx_nonce tx
    \<and> charge (account_at L (tx_sender tx)) tx \<noteq> None"
proof
  assume "\<exists>L'. ledger_apply L tx = Some L'"
  then show "acc_nonce (account_at L (tx_sender tx)) = tx_nonce tx
    \<and> charge (account_at L (tx_sender tx)) tx \<noteq> None" by (auto elim: ledger_applyE)
next
  let ?a = "account_at L (tx_sender tx)"
  assume h: "acc_nonce ?a = tx_nonce tx \<and> charge ?a tx \<noteq> None"
  then obtain c where c: "charge ?a tx = Some c" by auto
  let ?L1 = "L(tx_sender tx \<mapsto> c\<lparr>acc_nonce := tx_nonce tx + 1\<rparr>)"
  have fin: "finite (dom ?L1)" using assms(1) by simp
  have sum: "ledger_funds ?L1 + unat (tx_fee tx)
      + (if tx_type tx = Transfer then unat (tx_amount tx) else 0) = ledger_funds L"
    using ledger_funds_upd [OF assms(1), of "tx_sender tx" "c\<lparr>acc_nonce := tx_nonce tx + 1\<rparr>"]
      charge_funds [OF c] by (simp add: account_funds_def)
  obtain L2 where L2: "(if tx_type tx = Transfer then ledger_credit ?L1 (tx_receiver tx) (tx_amount tx)
      else Some ?L1) = Some L2"
    using ledger_credit_total [OF fin, of "tx_amount tx" "tx_receiver tx"] sum assms(2)
    by (cases "tx_type tx = Transfer") auto
  have "finite (dom L2) \<and> ledger_funds L2 + unat (tx_fee tx) = ledger_funds L"
    using L2 sum fin ledger_credit_funds [OF fin] by (auto split: if_splits)
  then obtain L' where "ledger_fee L2 (tx_fee tx) = Some L'"
    using ledger_fee_total [of L2 "tx_fee tx"] assms(2) by auto
  with h c L2 show "\<exists>L'. ledger_apply L tx = Some L'"
    by (simp add: ledger_apply_def Let_def)
qed

text \<open>A transaction whose charge is refused is refused before the first write.\<close>

lemma refused_no_write:
  assumes "store_ready B db"
    and "acc_nonce (account_at (ledger B db) (tx_sender tx)) \<noteq> tx_nonce tx
      \<or> charge (account_at (ledger B db) (tx_sender tx)) tx = None"
  shows "\<exists>e. apply_transaction B db tx = (Inl e, db)"
proof -
  let ?a = "account_at (ledger B db) (tx_sender tx)"
  note get = ready_get [OF assms(1)]
  have add: "checked_add (tx_amount tx) (tx_fee tx) = Some (tx_amount tx + tx_fee tx)
      \<and> unat (tx_amount tx + tx_fee tx) = unat (tx_amount tx) + unat (tx_fee tx)"
    if "unat (tx_amount tx) + unat (tx_fee tx) < 2 ^ 64"
    using that by (simp add: checked_add_def unat_add_exact)
  show ?thesis
    using assms(2) add
    by (cases "tx_type tx"; cases "unat (tx_amount tx) + unat (tx_fee tx) < 2 ^ 64")
      (auto simp: apply_transaction_def apply_transfer_def apply_stake_lock_def apply_stake_unlock_def
        apply_fee_only_def get charge_def Let_def word_less_nat_alt checked_add_def not_le not_less
        split: if_splits)
qed

section \<open>The state root is a function of the ledger\<close>

definition encoded :: "'a codec \<Rightarrow> 'a \<Rightarrow> bytes" where
  "encoded c a = (case to_vec c a of Inl e \<Rightarrow> [] | Inr bs \<Rightarrow> bs)"

definition ledger_root :: "hashing \<Rightarrow> 't backend \<Rightarrow> (string \<Rightarrow> account option) \<Rightarrow> string" where
  "ledger_root H B L =
     (if L = (\<lambda>_. None) then sha3_256_hex H ''kyvera-empty-state''
      else sha3_256_hex H (concat (sort
        (map (\<lambda>k. sha3_256_hex H (k @ encoded (account_json B) (the (L k)))) (sorted_list_of_set (dom L))))))"

lemma collect_account_hashes_Inr:
  assumes "collect_account_hashes H B rs = Inr hs"
  obtains kvs where "rs = map Inr kvs"
    "\<And>k bs. (k, bs) \<in> set kvs \<Longrightarrow> decode_entry (account_json B) bs \<noteq> None"
    "hs = map (\<lambda>(k, bs). sha3_256_hex H (k @ encoded (account_json B) (the (decode_entry (account_json B) bs)))) kvs"
  using assms
proof (induction rs arbitrary: hs thesis)
  case Nil
  then show ?case by simp
next
  case (Cons r rs)
  obtain k bs addr a js hs' where r: "r = Inr (k, bs)" and u: "from_utf8 k = Inr addr"
    and d: "from_slice (account_json B) bs = Inr a" and e: "to_vec (account_json B) a = Inr js"
    and c: "collect_account_hashes H B rs = Inr hs'"
    and hs: "hs = sha3_256_hex H (addr @ js) # hs'"
    using Cons.prems(2) by (auto simp: res_bind_eq_Inr)
  from Cons.IH [OF _ c] obtain kvs where kvs: "rs = map Inr kvs"
    "\<And>k bs. (k, bs) \<in> set kvs \<Longrightarrow> decode_entry (account_json B) bs \<noteq> None"
    "hs' = map (\<lambda>(k, bs). sha3_256_hex H (k @ encoded (account_json B) (the (decode_entry (account_json B) bs)))) kvs"
    by blast
  show ?case
  proof (rule Cons.prems(1) [of "(k, bs) # kvs"])
    show "r # rs = map Inr ((k, bs) # kvs)" by (simp add: r kvs)
    show "decode_entry (account_json B) b \<noteq> None" if "(j, b) \<in> set ((k, bs) # kvs)" for j b
      using that kvs(2) d by (auto simp: decode_entry_def)
    show "hs = map (\<lambda>(k, bs). sha3_256_hex H (k @ encoded (account_json B)
        (the (decode_entry (account_json B) bs)))) ((k, bs) # kvs)"
      using u d e by (simp add: hs kvs decode_entry_def encoded_def from_utf8_Inr)
  qed
qed

lemma compute_state_root_ledger:
  assumes "backend_ok B" "compute_state_root H B db = Inr root"
  shows "root = ledger_root H B (ledger B db)"
proof -
  let ?L = "ledger B db" and ?c = "account_json B"
  from assms(2) obtain hs where hs: "collect_account_hashes H B (sled_iter B (db_accounts db)) = Inr hs"
    and root: "root = (if hs = [] then sha3_256_hex H ''kyvera-empty-state''
      else sha3_256_hex H (concat (sort hs)))"
    unfolding compute_state_root_def by (auto elim!: res_bind_InrE split: if_splits)
  obtain kvs where it: "sled_iter B (db_accounts db) = map Inr kvs"
    and dec: "\<And>k bs. (k, bs) \<in> set kvs \<Longrightarrow> decode_entry ?c bs \<noteq> None"
    and hs': "hs = map (\<lambda>(k, bs). sha3_256_hex H (k @ encoded ?c (the (decode_entry ?c bs)))) kvs"
    by (rule collect_account_hashes_Inr [OF hs]) (rule that)
  have lm: "lists_map kvs (tree_contents B (db_accounts db))"
    by (rule sled_iter_contents [OF backend_okD(1) [OF assms(1)] it])
  have at: "?L k = decode_entry ?c bs" if "(k, bs) \<in> set kvs" for k bs
    using that by (simp add: ledger_def lists_map_set [OF lm])
  have dom: "dom ?L = set (map fst kvs)"
  proof
    show "dom ?L \<subseteq> set (map fst kvs)"
      unfolding lists_map_keys [OF lm] by (auto simp: ledger_def bind_eq_Some_conv)
    show "set (map fst kvs) \<subseteq> dom ?L" using at dec by fastforce
  qed
  have keys: "sorted_list_of_set (dom ?L) = map fst kvs"
    unfolding dom using lm
    by (intro sorted_list_of_set.idem_if_sorted_distinct)
      (simp_all add: lists_map_def strict_sorted_iff)
  have "hs = map (\<lambda>k. sha3_256_hex H (k @ encoded ?c (the (?L k)))) (map fst kvs)"
    using at by (auto simp: hs')
  moreover have "hs = [] \<longleftrightarrow> ?L = (\<lambda>_. None)"
    using dom by (auto simp: hs' dom_def)
  ultimately show ?thesis unfolding root ledger_root_def keys by simp
qed

lemma state_root_roundtrip:
  assumes "backend_ok B" "utf8_valid root" "save_state_root B db root = (Inr u, db')"
    and "load_state_root B db' = Inr r"
  shows "r = Some root"
  using assms(2,4) metadata_roundtrip [OF backend_okD(1) [OF assms(1)] assms(3) [unfolded save_state_root_def]]
  by (auto simp: load_state_root_def res_bind_eq_Inr from_utf8_Inr split: option.splits)

section \<open>Snapshots and rollback\<close>

lemma snapshot_accounts_ledger:
  assumes "backend_ok B"
  shows "snapshot_accounts B db addrs = Inr accs \<Longrightarrow> accs = map (\<lambda>k. (k, ledger B db k)) addrs"
  using get_account_ledger [OF assms]
  by (induction addrs arbitrary: accs) (auto simp: res_bind_eq_Inr)

lemma restore_account_ledger:
  assumes "backend_ok B" "restore_account B db (k, r) = (Inr u, db')"
    and "\<And>a. r = Some a \<Longrightarrow> acc_address a = k"
  shows "ledger B db' = (ledger B db)(k := r)"
proof (cases r)
  case None
  then obtain t where d: "db_delete B (db_accounts db) k = (Inr u, t)" and db': "db' = db\<lparr>db_accounts := t\<rparr>"
    using assms(2) by (cases "db_delete B (db_accounts db) k") (auto simp: restore_account_def)
  have "tree_contents B t = (tree_contents B (db_accounts db))(k := None)"
    by (rule db_delete_ok [OF _ d]) (simp add: assms(1) backend_okD)
  then show ?thesis by (auto simp: ledger_def db' None fun_eq_iff)
next
  case (Some a)
  then show ?thesis
    using save_account_ledger(1) [OF assms(1), of db a u db'] assms(2,3)
    by (simp add: restore_account_def)
qed

lemma restore_all_ledger:
  assumes "backend_ok B" and "\<And>k a. (k, Some a) \<in> set es \<Longrightarrow> acc_address a = k"
    and "run_all (restore_account B) db es = (Inr u, db')"
  shows "ledger B db' k = (case map_of (rev es) k of None \<Rightarrow> ledger B db k | Some r \<Rightarrow> r)"
  using assms(2,3)
proof (induction es arbitrary: db)
  case Nil
  then show ?case by simp
next
  case (Cons e es)
  obtain j r where e: "e = (j, r)" by fastforce
  obtain v db1 where step: "restore_account B db (j, r) = (Inr v, db1)"
    and run: "run_all (restore_account B) db1 es = (Inr u, db')"
    using Cons.prems(2) by (auto simp: e elim: st_bind_InrE)
  have "ledger B db1 = (ledger B db)(j := r)"
    by (rule restore_account_ledger [OF assms(1) step]) (use Cons.prems(1) e in simp)
  with Cons.IH [OF _ run] Cons.prems(1) show ?case
    by (auto simp: e map_add_def split: option.splits)
qed

lemma map_of_rev_graph: "map_of (rev (map (\<lambda>k. (k, f k)) ks)) k = (if k \<in> set ks then Some (f k) else None)"
  by (induction ks) (auto simp: map_add_def split: option.splits)

text \<open>Rolling any later database back to a snapshot gives the listed accounts what they held
  when it was taken, and leaves the others alone.\<close>

lemma rollback_restores:
  assumes "backend_ok B" "db_ok B db" "take_snapshot H B db h addrs = Inr snap"
    and "rollback_to_snapshot B db1 snap = (Inr u, db2)"
  shows "ledger B db2 k = (if k \<in> set addrs then ledger B db k else ledger B db1 k)"
proof -
  obtain r where r: "snapshot_accounts B db addrs = Inr (snap_accounts snap)"
    using assms(3) unfolding take_snapshot_def
    by (auto simp: Let_def elim!: res_bind_InrE)
  have accs: "snap_accounts snap = map (\<lambda>k. (k, ledger B db k)) addrs"
    by (rule snapshot_accounts_ledger [OF assms(1) r])
  obtain v db3 where run: "run_all (restore_account B) db1 (snap_accounts snap) = (Inr v, db3)"
    and "\<exists>w. save_state_root B db3 (snap_state_root snap) = (Inr w, db2)"
    using assms(4) unfolding rollback_to_snapshot_def by (auto elim!: st_bind_InrE)
  then have same: "ledger B db2 = ledger B db3"
    by (auto simp: save_state_root_def set_metadata_ledger)
  have "ledger B db3 k = (case map_of (rev (snap_accounts snap)) k of None \<Rightarrow> ledger B db1 k | Some r \<Rightarrow> r)"
    by (rule restore_all_ledger [OF assms(1) _ run])
      (use assms(2) in \<open>auto simp: accs db_ok_def ledger_ok_def account_ok_def\<close>)
  then show ?thesis by (simp add: same accs map_of_rev_graph)
qed

text \<open>What a transaction does, succeed or fail, is undone by a snapshot of the three accounts
  it can touch.\<close>

lemma apply_transaction_elsewhere:
  assumes "backend_ok B" "db_ok B db" "k \<notin> {tx_sender tx, tx_receiver tx, fee_treasury_address}"
  shows "ledger B (snd (apply_transaction B db tx)) k = ledger B db k"
  using apply_transaction_closed [OF assms(1) write_closed_elsewhere [OF assms(1,3)], of db "ledger B db k" tx]
    assms(2) by simp

lemma rollback_undoes:
  assumes "backend_ok B" "db_ok B db"
    and "take_snapshot H B db h addrs = Inr snap"
    and "\<And>tx. tx \<in> set txs \<Longrightarrow> {tx_sender tx, tx_receiver tx, fee_treasury_address} \<subseteq> set addrs"
    and "rollback_to_snapshot B (snd (run_all (apply_transaction B) db txs)) snap = (Inr u, db2)"
  shows "ledger B db2 = ledger B db"
proof
  fix k
  let ?db1 = "snd (run_all (apply_transaction B) db txs)"
  have "ledger B ?db1 k = ledger B db k" if "k \<notin> set addrs"
  proof -
    have "db_ok B ?db1 \<and> ledger B ?db1 k = ledger B db k"
    proof (rule run_all_invariant [where P = "\<lambda>s. db_ok B s \<and> ledger B s k = ledger B db k"])
      fix s tx assume tx: "tx \<in> set txs" and s: "db_ok B s \<and> ledger B s k = ledger B db k"
      from s show "db_ok B (snd (apply_transaction B s tx))
          \<and> ledger B (snd (apply_transaction B s tx)) k = ledger B db k"
        using assms(4) [OF tx] that
        by (intro apply_transaction_closed [OF assms(1) write_closed_elsewhere [OF assms(1)]]) auto
    qed (use assms(2) in simp)
    then show ?thesis by simp
  qed
  then show "ledger B db2 k = ledger B db k"
    using rollback_restores [OF assms(1-3,5), of k] by simp
qed

section \<open>The snapshot counter\<close>

definition snapshot_key :: "u64 \<Rightarrow> bytes" where
  "snapshot_key n = ''snapshot:'' @ pad20 n"

definition snapshot_count_of :: "bytes option \<Rightarrow> u64 option" where
  "snapshot_count_of d = (case d of None \<Rightarrow> Some 0
     | Some bs \<Rightarrow> (if utf8_valid bs then (case parse_u64 bs of Inr n \<Rightarrow> Some n | Inl _ \<Rightarrow> None) else None))"

lemma get_snapshot_count_view:
  assumes "backend_ok B" "get_snapshot_count B db = Inr c"
  shows "snapshot_count_of (metadata B db snapshot_count_key) = Some c"
  using assms(2) get_metadata_view [OF backend_okD(1) [OF assms(1)], of db snapshot_count_key]
  by (auto simp: get_snapshot_count_def snapshot_count_of_def res_bind_eq_Inr from_utf8_Inr
      split: option.splits)

lemma snapshot_key_ne_count: "snapshot_key n \<noteq> snapshot_count_key"
  by (simp add: snapshot_key_def snapshot_count_key_def)

lemma save_snapshot_view:
  assumes "backend_ok B" "save_snapshot B db snap = (Inr u, db')"
  obtains c bs where "snapshot_count_of (metadata B db snapshot_count_key) = Some c"
    "to_vec (snapshot_json B) snap = Inr bs"
    "metadata B db' = (metadata B db)(snapshot_key c \<mapsto> bs, snapshot_count_key \<mapsto> u64_to_string c)"
proof -
  from assms(2) obtain bs c v db1 w where bs: "to_vec (snapshot_json B) snap = Inr bs"
    and c: "get_snapshot_count B db = Inr c"
    and s1: "set_metadata B db (''snapshot:'' @ pad20 c) bs = (Inr v, db1)"
    and s2: "set_metadata B db1 snapshot_count_key (u64_to_string c) = (Inr w, db')"
    unfolding save_snapshot_def by (auto elim!: read_bind_InrE st_bind_InrE)
  show thesis
    using set_metadata_view [OF backend_okD(1) [OF assms(1)] s1] set_metadata_view [OF backend_okD(1) [OF assms(1)] s2]
      get_snapshot_count_view [OF assms(1) c] bs
    by (intro that [of c bs]) (simp_all add: snapshot_key_def)
qed

text \<open>Saving a snapshot writes the count back unchanged, so the next one takes its place.\<close>

lemma save_snapshot_twice:
  assumes "backend_ok B" "save_snapshot B db s1 = (Inr u, db1)" "save_snapshot B db1 s2 = (Inr v, db2)"
  obtains c bs1 bs2 where "to_vec (snapshot_json B) s1 = Inr bs1" "to_vec (snapshot_json B) s2 = Inr bs2"
    "metadata B db1 (snapshot_key c) = Some bs1"
    "metadata B db2 = (metadata B db1)(snapshot_key c \<mapsto> bs2)"
proof -
  obtain c bs1 where 1: "to_vec (snapshot_json B) s1 = Inr bs1"
    "metadata B db1 = (metadata B db)(snapshot_key c \<mapsto> bs1, snapshot_count_key \<mapsto> u64_to_string c)"
    using assms(1,2) by (rule save_snapshot_view)
  obtain d bs2 where 2: "snapshot_count_of (metadata B db1 snapshot_count_key) = Some d"
    "to_vec (snapshot_json B) s2 = Inr bs2"
    "metadata B db2 = (metadata B db1)(snapshot_key d \<mapsto> bs2, snapshot_count_key \<mapsto> u64_to_string d)"
    using assms(1,3) by (rule save_snapshot_view)
  have "utf8_valid (u64_to_string c)" by (simp add: u64_to_string_def)
  then have "d = c" using 1(2) 2(1) by (simp add: snapshot_count_of_def)
  moreover have "metadata B db1 snapshot_count_key = Some (u64_to_string c)" using 1(2) by simp
  moreover have "metadata B db1 (snapshot_key c) = Some bs1"
    using 1(2) snapshot_key_ne_count by simp
  ultimately have "metadata B db2 = (metadata B db1)(snapshot_key c \<mapsto> bs2)"
    using 2(3) snapshot_key_ne_count by (auto simp: fun_eq_iff)
  with 1(1) 2(2) \<open>metadata B db1 (snapshot_key c) = Some bs1\<close> show thesis by (intro that)
qed

end
