(* ===== verification/Block_Store.thy ===== *)
theory Block_Store
  imports Db
begin

text \<open>
  Block persistence, \<open>src/src/storage/block_store.rs\<close>: blocks by hash, hashes by height and
  the chain tip. The two indexes are written one after the other; \<open>block_index_ok\<close> (every
  height leads to a block of that height) survives a failure between the two writes. The
  store interprets \<open>typed_store\<close>.
\<close>

definition chain_tip_key :: string where "chain_tip_key = ''chain_tip''"

definition save_block :: "'t backend \<Rightarrow> 't kyvera_db \<Rightarrow> block \<Rightarrow> (string + unit) \<times> 't kyvera_db" where
  "save_block B db b =
     read_bind db (map_err (\<lambda>e. ''Failed to serialize block: '' @ e) (to_vec (block_json B) b)) (\<lambda>bs.
     st_bind (on_blocks_by_hash db (db_write B (db_blocks_by_hash db) (blk_hash b) bs)) (\<lambda>_ db.
     let height_key = to_be_bytes (hdr_index (blk_header b)) in
     st_bind (on_blocks_by_height db (db_write B (db_blocks_by_height db) height_key (blk_hash b))) (\<lambda>_ db.
     (Inr (), db))))"

definition get_block_by_hash :: "'t backend \<Rightarrow> 't kyvera_db \<Rightarrow> string \<Rightarrow> string + block option" where
  "get_block_by_hash B db h =
     res_bind (db_read B (db_blocks_by_hash db) h) (\<lambda>d.
     case d of
       None \<Rightarrow> Inr None
     | Some bs \<Rightarrow>
         res_bind (map_err (\<lambda>e. ''Failed to deserialize block: '' @ e) (from_slice (block_json B) bs))
           (\<lambda>b. Inr (Some b)))"

definition get_block_by_height :: "'t backend \<Rightarrow> 't kyvera_db \<Rightarrow> u64 \<Rightarrow> string + block option" where
  "get_block_by_height B db height =
     (let height_key = to_be_bytes height in
      res_bind (db_read B (db_blocks_by_height db) height_key) (\<lambda>d.
      case d of
        None \<Rightarrow> Inr None
      | Some hash_bytes \<Rightarrow>
          res_bind (map_err (\<lambda>e. ''Invalid hash bytes: '' @ e) (from_utf8 hash_bytes)) (\<lambda>h.
          get_block_by_hash B db h)))"

definition block_exists :: "'t backend \<Rightarrow> 't kyvera_db \<Rightarrow> string \<Rightarrow> string + bool" where
  "block_exists B db h = db_exists B (db_blocks_by_hash db) h"

definition save_chain_tip ::
  "'t backend \<Rightarrow> 't kyvera_db \<Rightarrow> chain_tip \<Rightarrow> (string + unit) \<times> 't kyvera_db" where
  "save_chain_tip B db tip =
     read_bind db (map_err (\<lambda>e. ''Failed to serialize chain tip: '' @ e) (to_vec (tip_json B) tip)) (\<lambda>bs.
     set_metadata B db chain_tip_key bs)"

definition load_chain_tip :: "'t backend \<Rightarrow> 't kyvera_db \<Rightarrow> string + chain_tip option" where
  "load_chain_tip B db =
     res_bind (get_metadata B db chain_tip_key) (\<lambda>d.
     case d of
       None \<Rightarrow> Inr None
     | Some bs \<Rightarrow>
         res_bind (map_err (\<lambda>e. ''Failed to deserialize chain tip: '' @ e) (from_slice (tip_json B) bs))
           (\<lambda>t. Inr (Some t)))"

definition stored_block_count :: "'t backend \<Rightarrow> 't kyvera_db \<Rightarrow> nat" where
  "stored_block_count B db = db_count B (db_blocks_by_hash db)"

section \<open>The blocks the store holds\<close>

definition block_at :: "'t backend \<Rightarrow> 't kyvera_db \<Rightarrow> string \<Rightarrow> block option" where
  "block_at B db h = Option.bind (tree_contents B (db_blocks_by_hash db) h) (decode_entry (block_json B))"

definition hash_at :: "'t backend \<Rightarrow> 't kyvera_db \<Rightarrow> u64 \<Rightarrow> string option" where
  "hash_at B db n = tree_contents B (db_blocks_by_height db) (to_be_bytes n)"

definition block_index_ok :: "'t backend \<Rightarrow> 't kyvera_db \<Rightarrow> bool" where
  "block_index_ok B db \<longleftrightarrow>
     (\<forall>n h. hash_at B db n = Some h \<longrightarrow> utf8_valid h \<and> (\<exists>b. block_at B db h = Some b \<and> block_height b = n))
     \<and> (\<forall>h b. block_at B db h = Some b \<longrightarrow> blk_hash b = h)"

text \<open>The states \<open>save_block\<close> can leave: nothing written, the block only, or both.\<close>

lemma save_block_outcomes:
  assumes "backend_ok B" "save_block B db b = (r, db')"
  shows "(block_at B db' = block_at B db \<and> hash_at B db' = hash_at B db \<and> r \<noteq> Inr ())
    \<or> (block_at B db' = (block_at B db)(blk_hash b \<mapsto> b) \<and> hash_at B db' = hash_at B db \<and> r \<noteq> Inr ())
    \<or> (block_at B db' = (block_at B db)(blk_hash b \<mapsto> b)
       \<and> hash_at B db' = (hash_at B db)(block_height b \<mapsto> blk_hash b))"
proof (cases "to_vec (block_json B) b")
  case (Inl e)
  then show ?thesis using assms(2) by (auto simp: save_block_def)
next
  case (Inr bs)
  note ok = backend_okD(1) [OF assms(1)]
  obtain r1 t1 where w1: "db_write B (db_blocks_by_hash db) (blk_hash b) bs = (r1, t1)" by fastforce
  define db1 where "db1 = db\<lparr>db_blocks_by_hash := t1\<rparr>"
  have blocks: "block_at B db1 = (block_at B db)(blk_hash b \<mapsto> b)"
    if "tree_contents B t1 = (tree_contents B (db_blocks_by_hash db))(blk_hash b \<mapsto> bs)"
    using that to_vec_decode [OF _ Inr] assms(1) by (auto simp: block_at_def db1_def backend_okD fun_eq_iff)
  have heights1: "hash_at B db1 = hash_at B db" by (simp add: hash_at_def db1_def fun_eq_iff)
  have "block_at B db1 = block_at B db" if "tree_contents B t1 = tree_contents B (db_blocks_by_hash db)"
    using that by (simp add: block_at_def db1_def fun_eq_iff)
  then have first: "block_at B db1 = block_at B db \<or> block_at B db1 = (block_at B db)(blk_hash b \<mapsto> b)"
    using db_write_atomic [OF ok, of "db_blocks_by_hash db" "blk_hash b" bs] w1 blocks
    by (metis snd_conv)
  show ?thesis
  proof (cases r1)
    case (Inl e)
    with assms(2) have "db' = db1" "r \<noteq> Inr ()"
      using \<open>to_vec (block_json B) b = Inr bs\<close> by (auto simp: save_block_def w1 db1_def)
    with first heights1 show ?thesis by auto
  next
    case r1: (Inr u)
    have b1: "block_at B db1 = (block_at B db)(blk_hash b \<mapsto> b)"
      by (rule blocks [OF db_write_ok [OF ok]]) (use w1 r1 in simp)
    obtain r2 t2 where w2: "db_write B (db_blocks_by_height db1) (to_be_bytes (block_height b)) (blk_hash b) = (r2, t2)"
      by fastforce
    have db': "db' = db1\<lparr>db_blocks_by_height := t2\<rparr>" and r: "r = r2"
      using assms(2) \<open>to_vec (block_json B) b = Inr bs\<close> r1 w1 w2
      by (cases r2; auto simp: save_block_def db1_def block_height_def Let_def)+
    have same: "block_at B db' = block_at B db1" by (simp add: block_at_def db' fun_eq_iff)
    have heights: "hash_at B db' = (hash_at B db1)(block_height b \<mapsto> blk_hash b)"
      if "tree_contents B t2 = (tree_contents B (db_blocks_by_height db1))(to_be_bytes (block_height b) \<mapsto> blk_hash b)"
      using that by (auto simp: hash_at_def db' fun_eq_iff)
    show ?thesis
    proof (cases "r2 = Inr ()")
      case True
      have "hash_at B db' = (hash_at B db1)(block_height b \<mapsto> blk_hash b)"
        by (rule heights [OF db_write_ok [OF ok]]) (use w2 True in simp)
      then show ?thesis by (simp add: same b1 heights1)
    next
      case False
      have "hash_at B db' = hash_at B db1 \<or> hash_at B db' = (hash_at B db1)(block_height b \<mapsto> blk_hash b)"
        using db_write_atomic [OF ok, of "db_blocks_by_height db1" "to_be_bytes (block_height b)" "blk_hash b"]
          w2 heights by (auto simp: hash_at_def db' fun_eq_iff)
      with False r show ?thesis by (auto simp: same b1 heights1)
    qed
  qed
qed

lemma get_block_by_hash_view: "backend_ok B \<Longrightarrow> get_block_by_hash B db h = Inr r \<Longrightarrow> r = block_at B db h"
  unfolding get_block_by_hash_def block_at_def by (rule typed_read [OF backend_okD(1)])

interpretation blocks: typed_store backend_ok block_at blk_hash "\<lambda>_. True" save_block get_block_by_hash
proof unfold_locales
  fix B :: "'t backend" and s s' :: "'t kyvera_db" and v :: block and k r w
  assume ok: "backend_ok B"
  show "save_block B s v = (Inr (), s') \<Longrightarrow> block_at B s' = (block_at B s)(blk_hash v \<mapsto> v)"
    using save_block_outcomes [OF ok, of s v "Inr ()" s'] by auto
  show "save_block B s v = (r, s') \<Longrightarrow>
      block_at B s' = block_at B s \<or> block_at B s' = (block_at B s)(blk_hash v \<mapsto> v)"
    using save_block_outcomes [OF ok, of s v r s'] by auto
  show "get_block_by_hash B s k = Inr w \<Longrightarrow> w = block_at B s k"
    by (rule get_block_by_hash_view [OF ok])
qed

section \<open>The index by height\<close>

lemma get_block_by_height_view:
  assumes "backend_ok B" "block_index_ok B db" "get_block_by_height B db n = Inr r"
  shows "r = Option.bind (hash_at B db n) (block_at B db)"
proof (cases "hash_at B db n")
  case None
  then show ?thesis
    using assms(3) db_read_ok [OF backend_okD(1) [OF assms(1)], of "db_blocks_by_height db" "to_be_bytes n"]
    by (auto simp: get_block_by_height_def res_bind_eq_Inr hash_at_def)
next
  case (Some h)
  then have "utf8_valid h" using assms(2) by (auto simp: block_index_ok_def)
  with Some have "get_block_by_hash B db h = Inr r"
    using assms(3) db_read_ok [OF backend_okD(1) [OF assms(1)], of "db_blocks_by_height db" "to_be_bytes n"]
    by (auto simp: get_block_by_height_def res_bind_eq_Inr hash_at_def from_utf8_Inr)
  with Some show ?thesis using get_block_by_hash_view [OF assms(1)] by simp
qed

text \<open>A saved block is found by its height; the other heights keep their blocks, unless they
  lead to the same hash.\<close>

lemma get_by_height_after_save:
  assumes "backend_ok B" "save_block B db b = (Inr (), db')" "utf8_valid (blk_hash b)"
    and "get_block_by_height B db' (block_height b) = Inr r"
  shows "r = Some b"
proof -
  have "hash_at B db' (block_height b) = Some (blk_hash b)" "block_at B db' (blk_hash b) = Some b"
    using save_block_outcomes [OF assms(1,2)] by auto
  then show ?thesis
    using assms(3,4) get_block_by_hash_view [OF assms(1), of db' "blk_hash b"]
      db_read_ok [OF backend_okD(1) [OF assms(1)], of "db_blocks_by_height db'" "to_be_bytes (block_height b)"]
    by (auto simp: get_block_by_height_def res_bind_eq_Inr hash_at_def from_utf8_Inr)
qed

text \<open>With working trees, what the store holds is found.\<close>

lemma get_block_found:
  assumes "backend_total B" "block_at B db h = Some b"
  shows "get_block_by_hash B db h = Inr (Some b)"
proof -
  obtain bs where "tree_contents B (db_blocks_by_hash db) h = Some bs" "from_slice (block_json B) bs = Inr b"
    using assms(2) by (auto simp: block_at_def bind_eq_Some_conv decode_entry_Some)
  then show ?thesis by (simp add: get_block_by_hash_def db_read_total [OF assms(1)])
qed

lemma get_height_found:
  assumes "backend_total B" "hash_at B db n = Some h" "utf8_valid h" "block_at B db h = Some b"
  shows "get_block_by_height B db n = Inr (Some b)"
  using assms(2,3) get_block_found [OF assms(1,4)]
  by (simp add: get_block_by_height_def db_read_total [OF assms(1)] hash_at_def from_utf8_valid)

lemma load_tip_found:
  assumes "backend_total B"
  obtains db' where "save_chain_tip B db tip = (Inr (), db')" "load_chain_tip B db' = Inr (Some tip)"
proof -
  obtain bs where bs: "to_vec (tip_json B) tip = Inr bs" using total_to_vec(4) [OF assms] by blast
  obtain db' where s: "set_metadata B db chain_tip_key bs = (Inr (), db')" by (rule set_metadata_total [OF assms])
  note ok = backend_okD [OF backend_total_ok [OF assms]]
  have "load_chain_tip B db' = Inr (Some tip)"
    using set_metadata_view [OF ok(1) s] codec_roundtrip [OF ok(5) bs]
    by (simp add: load_chain_tip_def get_metadata_total [OF assms])
  then show thesis using s by (intro that [of db']) (simp_all add: save_chain_tip_def bs)
qed

text \<open>The index survives a save, complete or not, of a block whose hash is not in use for
  another height.\<close>

lemma save_block_index_ok:
  assumes "backend_ok B" "block_index_ok B db" "utf8_valid (blk_hash b)"
    and "\<And>b'. block_at B db (blk_hash b) = Some b' \<Longrightarrow> block_height b' = block_height b"
  shows "block_index_ok B (snd (save_block B db b))"
proof -
  obtain r db' where s: "save_block B db b = (r, db')" by fastforce
  have idx: "\<exists>b''. ((block_at B db)(blk_hash b \<mapsto> b)) h = Some b'' \<and> block_height b'' = n"
    if "hash_at B db n = Some h" for n h
  proof (cases "h = blk_hash b")
    case True
    then show ?thesis using that assms(2,4) by (force simp: block_index_ok_def)
  next
    case False
    then show ?thesis using that assms(2) by (auto simp: block_index_ok_def)
  qed
  have "block_index_ok B db'"
    using save_block_outcomes [OF assms(1) s]
  proof (elim disjE conjE)
    assume "block_at B db' = block_at B db" "hash_at B db' = hash_at B db"
    then show ?thesis using assms(2) by (simp add: block_index_ok_def)
  next
    assume e: "block_at B db' = (block_at B db)(blk_hash b \<mapsto> b)" "hash_at B db' = hash_at B db"
    show ?thesis unfolding block_index_ok_def e
      using idx assms(2) by (auto simp: block_index_ok_def)
  next
    assume e: "block_at B db' = (block_at B db)(blk_hash b \<mapsto> b)"
      "hash_at B db' = (hash_at B db)(block_height b \<mapsto> blk_hash b)"
    show ?thesis unfolding block_index_ok_def e
      using idx assms(2,3) by (auto simp: block_index_ok_def)
  qed
  then show ?thesis by (simp add: s)
qed

text \<open>Keys of heights are in numeric order, so the tree lists the chain in order.\<close>

lemma height_keys_ordered: "to_be_bytes n < to_be_bytes m \<longleftrightarrow> n < m"
  by (rule to_be_bytes_less_iff)

section \<open>The chain tip\<close>

lemma chain_tip_roundtrip:
  assumes "backend_ok B" "save_chain_tip B db tip = (Inr u, db')" "load_chain_tip B db' = Inr r"
  shows "r = Some tip"
proof -
  obtain bs where bs: "to_vec (tip_json B) tip = Inr bs" and s: "set_metadata B db chain_tip_key bs = (Inr u, db')"
    using assms(2) unfolding save_chain_tip_def by (auto elim!: read_bind_InrE)
  from assms(3) show ?thesis
    using metadata_roundtrip [OF backend_okD(1) [OF assms(1)] s]
      codec_roundtrip [OF backend_okD(5) [OF assms(1)] bs]
    by (auto simp: load_chain_tip_def res_bind_eq_Inr split: option.splits)
qed

end
