(* ===== verification/Merkle.thy ===== *)
theory Merkle
  imports Chain_Hash
begin

text \<open>
  Merkle trees over transaction hashes, \<open>src/src/chain/merkle.rs\<close>. The definitions follow the
  loops of the source layer by layer. The lemmas show that a generated proof verifies and has
  logarithmic length, that the root binds the list of leaves of a given length (two lists
  with one root exhibit a SHA3 collision), and that the duplicated last node makes it not bind
  the length.
\<close>

section \<open>The tree\<close>

datatype proof_direction = Left | Right

record merkle_proof =
  mp_leaf_hash :: string
  mp_siblings :: "(string \<times> proof_direction) list"
  mp_root :: string

definition hash_pair :: "hashing \<Rightarrow> string \<Rightarrow> string \<Rightarrow> string" where
  "hash_pair H left right = sha3_256_hex H (left @ right)"

text \<open>The loop advances by two; a node without a right sibling is paired with itself.\<close>

fun build_next_layer :: "hashing \<Rightarrow> string list \<Rightarrow> string list" where
  "build_next_layer H [] = []"
| "build_next_layer H [a] = [hash_pair H a a]"
| "build_next_layer H (a # b # layer) = hash_pair H a b # build_next_layer H layer"

lemma length_build_next_layer [simp]: "length (build_next_layer H xs) = (length xs + 1) div 2"
  by (induction H xs rule: build_next_layer.induct) simp_all

text \<open>The loop \<open>while current_layer.len() > 1\<close>.\<close>

function merkle_layers :: "hashing \<Rightarrow> string list \<Rightarrow> string list" where
  "merkle_layers H layer =
     (if 1 < length layer then merkle_layers H (build_next_layer H layer) else layer)"
  by pat_completeness auto
termination by (relation "measure (\<lambda>(H, layer). length layer)") auto

declare merkle_layers.simps [simp del]

definition compute_merkle_root :: "hashing \<Rightarrow> string list \<Rightarrow> string" where
  "compute_merkle_root H hashes =
     (if hashes = [] then sha3_256_hex H ''kyvera-empty-block''
      else if length hashes = 1 then hashes ! 0
      else merkle_layers H hashes ! 0)"

section \<open>Proofs of inclusion\<close>

function proof_siblings :: "hashing \<Rightarrow> string list \<Rightarrow> nat \<Rightarrow> (string \<times> proof_direction) list" where
  "proof_siblings H layer i =
     (if 1 < length layer then
        (if i mod 2 = 0
         then (layer ! (if i + 1 < length layer then i + 1 else i), Right)
         else (layer ! (i - 1), Left)) # proof_siblings H (build_next_layer H layer) (i div 2)
      else [])"
  by pat_completeness auto
termination by (relation "measure (\<lambda>(H, layer, i). length layer)") auto

declare proof_siblings.simps [simp del]

text \<open>\<open>iter().position\<close>: the first index that holds the value.\<close>

fun position :: "string \<Rightarrow> string list \<Rightarrow> nat option" where
  "position x [] = None"
| "position x (y # ys) = (if y = x then Some 0 else map_option Suc (position x ys))"

definition generate_proof :: "hashing \<Rightarrow> string list \<Rightarrow> string \<Rightarrow> merkle_proof option" where
  "generate_proof H hashes target =
     (if hashes = [] then None
      else Option.bind (position target hashes) (\<lambda>i.
        Some \<lparr>mp_leaf_hash = target, mp_siblings = proof_siblings H hashes i,
              mp_root = compute_merkle_root H hashes\<rparr>))"

fun climb :: "hashing \<Rightarrow> string \<Rightarrow> (string \<times> proof_direction) list \<Rightarrow> string" where
  "climb H h [] = h"
| "climb H h ((s, d) # sds) =
     climb H (case d of Right \<Rightarrow> hash_pair H h s | Left \<Rightarrow> hash_pair H s h) sds"

definition verify_proof :: "hashing \<Rightarrow> merkle_proof \<Rightarrow> bool" where
  "verify_proof H p \<longleftrightarrow> climb H (mp_leaf_hash p) (mp_siblings p) = mp_root p"

section \<open>Completeness\<close>

lemma nth_build_next_layer:
  "i < (length xs + 1) div 2 \<Longrightarrow>
     build_next_layer H xs ! i
       = hash_pair H (xs ! (2 * i)) (xs ! (if 2 * i + 1 < length xs then 2 * i + 1 else 2 * i))"
proof (induction H xs arbitrary: i rule: build_next_layer.induct)
  case (3 H a b layer)
  then show ?case by (cases i) simp_all
qed simp_all

lemma length_merkle_layers: "xs \<noteq> [] \<Longrightarrow> length (merkle_layers H xs) = 1"
proof (induction H xs rule: merkle_layers.induct)
  case (1 H layer)
  show ?case
  proof (cases "1 < length layer")
    case True
    then have "build_next_layer H layer \<noteq> []" by (auto simp: Suc_le_eq simp flip: length_greater_0_conv)
    with 1(1) [OF True] show ?thesis using True by (simp add: merkle_layers.simps [of H layer])
  next
    case False
    with 1(2) show ?thesis by (cases layer) (simp_all add: merkle_layers.simps)
  qed
qed

lemma compute_merkle_root_layers:
  "xs \<noteq> [] \<Longrightarrow> compute_merkle_root H xs = merkle_layers H xs ! 0"
  by (auto simp: compute_merkle_root_def merkle_layers.simps [of H xs])

lemma climb_proof:
  "i < length xs \<Longrightarrow> climb H (xs ! i) (proof_siblings H xs i) = merkle_layers H xs ! 0"
proof (induction H xs i rule: proof_siblings.induct)
  case (1 H layer i)
  show ?case
  proof (cases "1 < length layer")
    case True
    let ?next = "build_next_layer H layer"
    have i: "i div 2 < length ?next" using 1(2) by simp
    have up: "?next ! (i div 2) = (if i mod 2 = 0
        then hash_pair H (layer ! i) (layer ! (if i + 1 < length layer then i + 1 else i))
        else hash_pair H (layer ! (i - 1)) (layer ! i))"
    proof (cases "i mod 2 = 0")
      case True
      then have "2 * (i div 2) = i" by auto
      with True show ?thesis using nth_build_next_layer [of "i div 2" layer H] i by simp
    next
      case False
      then have "2 * (i div 2) = i - 1" "2 * (i div 2) + 1 = i" by presburger+
      with False 1(2) show ?thesis using nth_build_next_layer [of "i div 2" layer H] i by simp
    qed
    have "climb H (layer ! i) (proof_siblings H layer i)
        = climb H (?next ! (i div 2)) (proof_siblings H ?next (i div 2))"
      using True by (simp add: proof_siblings.simps [of H layer i] up)
    then show ?thesis
      using 1(1) [OF True i] True by (simp add: merkle_layers.simps [of H layer])
  next
    case False
    with 1(2) have "i = 0" by simp
    with False show ?thesis
      by (simp add: proof_siblings.simps [of H layer] merkle_layers.simps [of H layer])
  qed
qed

lemma position_Some: "position x xs = Some i \<Longrightarrow> i < length xs \<and> xs ! i = x"
  by (induction xs arbitrary: i) (auto split: if_splits)

lemma position_None: "position x xs = None \<longleftrightarrow> x \<notin> set xs"
  by (induction xs) auto

lemma generate_proof_verifies:
  assumes "generate_proof H xs t = Some p"
  shows "verify_proof H p" "mp_leaf_hash p = t" "mp_root p = compute_merkle_root H xs"
proof -
  from assms obtain i where ne: "xs \<noteq> []" and i: "position t xs = Some i"
    and p: "p = \<lparr>mp_leaf_hash = t, mp_siblings = proof_siblings H xs i, mp_root = compute_merkle_root H xs\<rparr>"
    by (auto simp: generate_proof_def bind_eq_Some_conv split: if_splits)
  show "verify_proof H p"
    using climb_proof [of i xs H] position_Some [OF i]
    by (simp add: verify_proof_def p compute_merkle_root_layers [OF ne])
  show "mp_leaf_hash p = t" "mp_root p = compute_merkle_root H xs" by (simp_all add: p)
qed

lemma generate_proof_iff: "(\<exists>p. generate_proof H xs t = Some p) \<longleftrightarrow> t \<in> set xs"
  using position_None [of t xs]
  by (cases "position t xs") (auto simp: generate_proof_def)

lemma half_up: "2 * p < 2 * ((n + 1) div 2) \<Longrightarrow> 2 * p < (n :: nat)"
  by presburger

text \<open>A proof is as short as the tree is high.\<close>

lemma proof_siblings_length: "xs \<noteq> [] \<Longrightarrow> 2 ^ length (proof_siblings H xs i) < 2 * length xs"
proof (induction H xs i rule: proof_siblings.induct)
  case (1 H layer i)
  show ?case
  proof (cases "1 < length layer")
    case True
    let ?next = "build_next_layer H layer" and ?k = "length (proof_siblings H (build_next_layer H layer) (i div 2))"
    have ne: "?next \<noteq> []" using True by (auto simp: Suc_le_eq simp flip: length_greater_0_conv)
    have "2 ^ ?k < 2 * ((length layer + 1) div 2)" using 1(1) [OF True ne] by simp
    moreover have "?k = 0 \<or> (2 :: nat) ^ ?k = 2 * 2 ^ (?k - 1)" by (cases ?k) simp_all
    ultimately have "2 ^ ?k < length layer \<or> ?k = 0"
      using half_up [of "2 ^ (?k - 1)" "length layer"] by auto
    then have "2 * 2 ^ ?k < 2 * length layer" using True by auto
    then show ?thesis using True by (simp add: proof_siblings.simps [of H layer i])
  next
    case False
    with 1(2) have "length layer = 1" by (cases layer) auto
    then show ?thesis by (simp add: proof_siblings.simps [of H layer i])
  qed
qed

section \<open>The root binds the leaves, up to a collision\<close>

text \<open>The inputs hashed for one layer, for a whole tree, and on the way up a proof.\<close>

fun layer_inputs :: "string list \<Rightarrow> bytes list" where
  "layer_inputs [] = []"
| "layer_inputs [a] = [a @ a]"
| "layer_inputs (a # b # layer) = (a @ b) # layer_inputs layer"

function merkle_inputs :: "hashing \<Rightarrow> string list \<Rightarrow> bytes list" where
  "merkle_inputs H layer =
     (if 1 < length layer then layer_inputs layer @ merkle_inputs H (build_next_layer H layer) else [])"
  by pat_completeness auto
termination by (relation "measure (\<lambda>(H, layer). length layer)") auto

declare merkle_inputs.simps [simp del]

fun climb_inputs :: "hashing \<Rightarrow> string \<Rightarrow> (string \<times> proof_direction) list \<Rightarrow> bytes list" where
  "climb_inputs H h [] = []"
| "climb_inputs H h ((s, d) # sds) =
     (case d of Right \<Rightarrow> h @ s | Left \<Rightarrow> s @ h)
       # climb_inputs H (case d of Right \<Rightarrow> hash_pair H h s | Left \<Rightarrow> hash_pair H s h) sds"

definition hash_texts :: "string list \<Rightarrow> bool" where
  "hash_texts xs \<longleftrightarrow> (\<forall>x \<in> set xs. length x = 64)"

text \<open>Two nodes are hashed without a separator, so the length is what tells them apart.\<close>

lemma merkle_root_ignores_boundaries: "compute_merkle_root H [a @ b, c] = compute_merkle_root H [a, b @ c]"
  by (simp add: compute_merkle_root_def merkle_layers.simps hash_pair_def)

lemma hash_pair_inj:
  assumes "hashing_ok H" "collision_free H {a @ b, c @ d}" "length a = length c" "hash_pair H a b = hash_pair H c d"
  shows "a = c \<and> b = d"
proof -
  have "sha3_256_digest H (a @ b) = sha3_256_digest H (c @ d)"
    using assms(4) by (simp add: hash_pair_def sha3_256_hex_eq_iff [OF assms(1)])
  then have "a @ b = c @ d" by (rule collision_freeD [OF assms(2)]) simp_all
  with assms(3) show ?thesis by simp
qed

lemma hash_texts_next: "hashing_ok H \<Longrightarrow> hash_texts (build_next_layer H xs)"
  by (induction H xs rule: build_next_layer.induct)
    (simp_all add: hash_texts_def hash_pair_def sha3_256_hex_length)

lemma build_next_layer_inj:
  assumes "hashing_ok H"
  shows "length xs = length ys \<Longrightarrow> hash_texts xs \<Longrightarrow> hash_texts ys \<Longrightarrow>
    collision_free H (set (layer_inputs xs) \<union> set (layer_inputs ys)) \<Longrightarrow>
    build_next_layer H xs = build_next_layer H ys \<Longrightarrow> xs = ys"
proof (induction xs arbitrary: ys rule: induct_list012)
  case 1
  then show ?case by simp
next
  case (2 a)
  then obtain b where ys: "ys = [b]" by (cases ys) auto
  have "a = b \<and> a = b"
    by (rule hash_pair_inj [OF assms])
      (use 2 in \<open>simp_all add: hash_texts_def ys collision_free_subset\<close>)
  then show ?case by (simp add: ys)
next
  case (3 a b xs)
  obtain c d zs where ys: "ys = c # d # zs"
    using 3(3) by (cases ys rule: remdups_adj.cases) auto
  note free = 3(6) [unfolded ys layer_inputs.simps]
  have "a = c \<and> b = d"
    by (rule hash_pair_inj [OF assms collision_free_subset [OF free]])
      (use 3(4,5,7) in \<open>simp_all add: hash_texts_def ys\<close>)
  moreover have "xs = zs"
    by (rule 3(1) [OF _ _ _ collision_free_subset [OF free]])
      (use 3(3,4,5,7) in \<open>auto simp: hash_texts_def ys\<close>)
  ultimately show ?case by (simp add: ys)
qed

lemma merkle_layers_inj:
  assumes "hashing_ok H"
  shows "length xs = length ys \<Longrightarrow> hash_texts xs \<Longrightarrow> hash_texts ys \<Longrightarrow>
    collision_free H (set (merkle_inputs H xs) \<union> set (merkle_inputs H ys)) \<Longrightarrow>
    merkle_layers H xs = merkle_layers H ys \<Longrightarrow> xs = ys"
proof (induction "length xs" arbitrary: xs ys rule: less_induct)
  case less
  show ?case
  proof (cases "1 < length xs")
    case True
    let ?next = "build_next_layer H"
    have up: "merkle_layers H xs = merkle_layers H (?next xs)" "merkle_layers H ys = merkle_layers H (?next ys)"
      using True less.prems(1) by (simp_all add: merkle_layers.simps [of H xs] merkle_layers.simps [of H ys])
    have inputs: "merkle_inputs H xs = layer_inputs xs @ merkle_inputs H (?next xs)"
      "merkle_inputs H ys = layer_inputs ys @ merkle_inputs H (?next ys)"
      using True less.prems(1) by (simp_all add: merkle_inputs.simps [of H xs] merkle_inputs.simps [of H ys])
    note free = less.prems(4) [unfolded inputs set_append]
    have "?next xs = ?next ys"
    proof (rule less.hyps [OF _ _ hash_texts_next [OF assms] hash_texts_next [OF assms]])
      show "collision_free H (set (merkle_inputs H (?next xs)) \<union> set (merkle_inputs H (?next ys)))"
        by (rule collision_free_subset [OF free]) blast
      show "merkle_layers H (?next xs) = merkle_layers H (?next ys)"
        using less.prems(5) by (simp only: up)
    qed (use True less.prems(1) in simp_all)
    have "collision_free H (set (layer_inputs xs) \<union> set (layer_inputs ys))"
      by (rule collision_free_subset [OF free]) blast
    then show ?thesis using \<open>?next xs = ?next ys\<close>
      by (rule build_next_layer_inj [OF assms less.prems(1-3)])
  next
    case False
    with less.prems show ?thesis
      by (simp add: merkle_layers.simps [of H xs] merkle_layers.simps [of H ys])
  qed
qed

text \<open>Two lists of leaves of one length under one root exhibit a collision among the inputs
  hashed to compute the two roots.\<close>

lemma compute_merkle_root_inj:
  assumes "hashing_ok H" "length xs = length ys" "hash_texts xs" "hash_texts ys"
    and "compute_merkle_root H xs = compute_merkle_root H ys"
    and "collision_free H (set (merkle_inputs H xs) \<union> set (merkle_inputs H ys))"
  shows "xs = ys"
proof (cases "xs = []")
  case True
  with assms(2) show ?thesis by simp
next
  case False
  then have ne: "xs \<noteq> []" "ys \<noteq> []" using assms(2) by auto
  have "merkle_layers H xs ! 0 = merkle_layers H ys ! 0"
    using assms(5) by (simp add: compute_merkle_root_layers ne)
  then have "merkle_layers H xs = merkle_layers H ys"
    using length_merkle_layers [OF ne(1), of H] length_merkle_layers [OF ne(2), of H]
    by (intro nth_equalityI) auto
  then show ?thesis by (rule merkle_layers_inj [OF assms(1-4,6)])
qed

text \<open>A valid proof of a leaf at given turns binds the leaf.\<close>

lemma climb_inj:
  assumes "hashing_ok H"
  shows "map snd ss = map snd ts \<Longrightarrow> length h = 64 \<Longrightarrow> length g = 64 \<Longrightarrow>
    hash_texts (map fst ss) \<Longrightarrow> hash_texts (map fst ts) \<Longrightarrow>
    collision_free H (set (climb_inputs H h ss) \<union> set (climb_inputs H g ts)) \<Longrightarrow>
    climb H h ss = climb H g ts \<Longrightarrow> h = g \<and> ss = ts"
proof (induction ss arbitrary: ts h g)
  case Nil
  then show ?case by simp
next
  case (Cons s ss)
  then obtain t ts' where ts: "ts = t # ts'" by (cases ts) auto
  obtain a d b where s: "s = (a, d)" and t: "t = (b, d)"
    using Cons.prems(1) by (cases s; cases t) (auto simp: ts)
  let ?up = "\<lambda>h a. case d of Right \<Rightarrow> hash_pair H h a | Left \<Rightarrow> hash_pair H a h"
  note free = Cons.prems(6) [unfolded ts s t climb_inputs.simps]
  have up: "?up h a = ?up g b \<and> ss = ts'"
  proof (rule Cons.IH)
    show "length (?up h a) = 64" "length (?up g b) = 64"
      by (simp_all add: hash_pair_def sha3_256_hex_length [OF assms(1)] split: proof_direction.split)
    show "collision_free H (set (climb_inputs H (?up h a) ss) \<union> set (climb_inputs H (?up g b) ts'))"
      by (rule collision_free_subset [OF free]) (simp only: list.set, blast)
  qed (use Cons.prems(1,4,5,7) in \<open>simp_all add: ts s t hash_texts_def\<close>)
  have len: "length a = length b" "length h = length g"
    using Cons.prems by (simp_all add: ts s t hash_texts_def)
  show ?case
  proof (cases d)
    case Left
    have "a = b \<and> h = g"
      by (rule hash_pair_inj [OF assms collision_free_subset [OF free]])
        (use up len Left in auto)
    with up show ?thesis by (simp add: ts s t)
  next
    case Right
    have "h = g \<and> a = b"
      by (rule hash_pair_inj [OF assms collision_free_subset [OF free]])
        (use up len Right in auto)
    with up show ?thesis by (simp add: ts s t)
  qed
qed

section \<open>What the root does not bind\<close>

text \<open>An odd layer of at least three nodes has the root of the layer with its last node
  repeated.\<close>

lemma build_next_layer_dup:
  "even (length xs) \<Longrightarrow> build_next_layer H (xs @ [x]) = build_next_layer H (xs @ [x, x])"
  by (induction xs rule: induct_list012) simp_all

lemma compute_merkle_root_dup:
  assumes "even (length xs)" "xs \<noteq> []"
  shows "compute_merkle_root H (xs @ [x]) = compute_merkle_root H (xs @ [x, x])"
  using assms build_next_layer_dup [OF assms(1), of H x]
  by (simp add: compute_merkle_root_layers merkle_layers.simps [of H "xs @ _"])

text \<open>Leaves and inner nodes are hashed alike: an inner node passes for a leaf.\<close>

lemma inner_node_as_leaf:
  "verify_proof H \<lparr>mp_leaf_hash = hash_pair H a b, mp_siblings = [(hash_pair H c d, Right)],
     mp_root = compute_merkle_root H [a, b, c, d]\<rparr>"
  by (simp add: verify_proof_def compute_merkle_root_def merkle_layers.simps)

end
