(* ===== verification/Mining.thy ===== *)
theory Mining
  imports Chain_Hash
begin

text \<open>
  Proof of work, \<open>src/src/chain/mining.rs\<close>: the reward schedule, the nonce search and the
  difficulty adjustment; the hash rate shown to users is in \<open>Hash_Rate\<close>. The lemmas show that
  the search returns the least nonce that works and gives up only when none does, that the reward
  halves every 290,000 epochs as long as the number of halvings fits in 32 bits, and that the
  difficulty moves by at most one step within 1 to 64.
\<close>

section \<open>Constants and the reward\<close>

definition kyv_units :: u64 where "kyv_units = 1000000000"
definition genesis_block_reward :: u64 where "genesis_block_reward = 50 * kyv_units"
definition halving_interval :: u64 where "halving_interval = 290000"
definition epoch_block_target_seconds :: u64 where "epoch_block_target_seconds = 600"
definition micro_block_target_seconds :: u64 where "micro_block_target_seconds = 3"
definition difficulty_window :: nat where "difficulty_window = 144"
definition min_difficulty :: u32 where "min_difficulty = 1"
definition max_difficulty :: u32 where "max_difficulty = 64"

record mined_block =
  mined_nonce :: u64
  mined_hash :: string
  mined_attempts :: u64

definition calculate_block_reward :: "u64 \<Rightarrow> u64" where
  "calculate_block_reward h =
     (let halving_count = h div halving_interval in
      case checked_shr genesis_block_reward (u64_as_u32 halving_count) of None \<Rightarrow> 0 | Some r \<Rightarrow> r)"

section \<open>The nonce search\<close>

definition header_hash_with :: "hashing \<Rightarrow> block_header \<Rightarrow> u64 \<Rightarrow> string" where
  "header_hash_with H hdr nonce =
     hash_block_header H (hdr_index hdr) (hdr_timestamp hdr) (hdr_previous_hash hdr) (hdr_merkle_root hdr)
       nonce (hdr_difficulty hdr) (hdr_is_epoch hdr) (hdr_epoch_index hdr) (hdr_state_root hdr)"

function mine_from :: "hashing \<Rightarrow> block_header \<Rightarrow> u64 \<Rightarrow> u64 \<Rightarrow> mined_block option" where
  "mine_from H hdr max_attempts nonce =
     (if nonce < max_attempts then
        let h = header_hash_with H hdr nonce in
        if meets_difficulty h (hdr_difficulty hdr)
        then Some \<lparr>mined_nonce = nonce, mined_hash = h, mined_attempts = nonce + 1\<rparr>
        else mine_from H hdr max_attempts (nonce + 1)
      else None)"
  by pat_completeness auto

lemma unat_Suc_less: "n < (m :: u64) \<Longrightarrow> unat (n + 1) = Suc (unat n)"
proof -
  assume "n < m"
  then have "Suc (unat n) \<le> unat m" by (simp add: word_less_nat_alt)
  then have "unat n + unat (1 :: u64) < 2 ^ 64"
    using le_less_trans [OF _ u64_less, of "Suc (unat n)" m] by simp
  then show ?thesis using unat_add_exact [of n 1] by simp
qed

termination mine_from
proof (relation "measure (\<lambda>(H, hdr, m, n). unat m - unat n)")
  fix H :: hashing and hdr :: block_header and m n :: u64 and h :: string
  assume "n < m"
  then show "((H, hdr, m, n + 1), H, hdr, m, n) \<in> measure (\<lambda>(H, hdr, m, n). unat m - unat n)"
    using unat_Suc_less [of n m] unfolding word_less_nat_alt by simp
qed simp

declare mine_from.simps [simp del]

definition mine_block :: "hashing \<Rightarrow> block_header \<Rightarrow> u64 \<Rightarrow> mined_block option" where
  "mine_block H hdr max_attempts = mine_from H hdr max_attempts 0"

section \<open>Difficulty\<close>

definition clamp_difficulty :: "u32 \<Rightarrow> u32" where
  "clamp_difficulty d =
     (if d < min_difficulty then min_difficulty else if max_difficulty < d then max_difficulty else d)"

text \<open>The last \<open>DIFFICULTY_WINDOW\<close> timestamps, the average distance between them, and the
  step the distance calls for.\<close>

definition recent_timestamps :: "i64 list \<Rightarrow> i64 list" where
  "recent_timestamps timestamps =
     (let window = min (length timestamps) difficulty_window in drop (length timestamps - window) timestamps)"

definition block_count :: "i64 list \<Rightarrow> i64" where
  "block_count timestamps = int (length (recent_timestamps timestamps)) - 1"

definition average_seconds :: "i64 list \<Rightarrow> i64" where
  "average_seconds timestamps =
     (let recent = recent_timestamps timestamps in
      i64_div (i64_wrap (last recent - hd recent)) (block_count timestamps))"

definition target_seconds :: "bool \<Rightarrow> i64" where
  "target_seconds is_epoch =
     (if is_epoch then uint epoch_block_target_seconds else uint micro_block_target_seconds)"

definition adjusted_difficulty :: "u32 \<Rightarrow> i64 \<Rightarrow> i64 \<Rightarrow> u32" where
  "adjusted_difficulty current average target =
     (if average < i64_div target 2 then current + 1
      else if average < target then current + 1
      else if average > target * 2 then saturating_sub current 1
      else if average > target then saturating_sub current 1
      else current)"

definition calculate_next_difficulty :: "u32 \<Rightarrow> i64 list \<Rightarrow> bool \<Rightarrow> u32" where
  "calculate_next_difficulty current timestamps is_epoch =
     (if length timestamps < 2 then current
      else if block_count timestamps = 0 then current
      else clamp_difficulty
        (adjusted_difficulty current (average_seconds timestamps) (target_seconds is_epoch)))"

definition verify_proof_of_work :: "string \<Rightarrow> u32 \<Rightarrow> bool" where
  "verify_proof_of_work h d = meets_difficulty h d"

section \<open>The reward schedule\<close>

lemma unat_reward_constants:
  "unat genesis_block_reward = 50000000000" "unat halving_interval = 290000"
  by (simp_all add: genesis_block_reward_def kyv_units_def halving_interval_def)

text \<open>Halving is division by a power of two, down to zero: 64 halvings and more are no
  exception.\<close>

lemma calculate_block_reward_halving:
  assumes "unat h < 290000 * 2 ^ 32"
  shows "unat (calculate_block_reward h) = 50000000000 div 2 ^ (unat h div 290000)"
proof -
  let ?n = "unat h div 290000"
  have n: "?n < 2 ^ 32" using assms by (simp add: less_mult_imp_div_less)
  have cnt: "unat (u64_as_u32 (h div halving_interval)) = ?n"
    using n by (simp add: unsigned_ucast_eq take_bit_eq_mod unat_div unat_reward_constants)
  show ?thesis
  proof (cases "?n < 64")
    case True
    then show ?thesis
      by (simp add: calculate_block_reward_def Let_def checked_shr_def cnt unat_drop_bit_eq
          drop_bit_eq_div [where ?'a = nat] unat_reward_constants)
  next
    case False
    have "(50000000000 :: nat) < 2 ^ 64" by simp
    also have "\<dots> \<le> 2 ^ ?n" using False by (intro power_increasing) auto
    finally have "50000000000 div 2 ^ ?n = (0 :: nat)" by (rule div_less)
    with False show ?thesis
      by (simp add: calculate_block_reward_def Let_def checked_shr_def cnt)
  qed
qed

lemma calculate_block_reward_antimono:
  assumes "h \<le> g" "unat g < 290000 * 2 ^ 32"
  shows "calculate_block_reward g \<le> calculate_block_reward h"
proof -
  have "unat h \<le> unat g" using assms(1) by (simp add: word_le_nat_alt)
  then have "(2 :: nat) ^ (unat h div 290000) \<le> 2 ^ (unat g div 290000)"
    by (intro power_increasing div_le_mono) simp_all
  then have "(50000000000 :: nat) div 2 ^ (unat g div 290000) \<le> 50000000000 div 2 ^ (unat h div 290000)"
    by (intro div_le_mono2) simp_all
  then show ?thesis
    using assms \<open>unat h \<le> unat g\<close>
    by (simp add: word_le_nat_alt calculate_block_reward_halving)
qed

lemma calculate_block_reward_le: "calculate_block_reward h \<le> genesis_block_reward"
proof -
  have "unat (drop_bit n x) \<le> unat x" for n and x :: u64
    by (simp add: unat_drop_bit_eq drop_bit_eq_div [where ?'a = nat])
  then show ?thesis
    by (simp add: calculate_block_reward_def Let_def checked_shr_def word_le_nat_alt)
qed

lemma calculate_block_reward_exhausted:
  assumes "36 * 290000 \<le> unat h" "unat h < 290000 * 2 ^ 32"
  shows "calculate_block_reward h = 0"
proof -
  have "36 \<le> unat h div 290000"
    using div_le_mono [OF assms(1), of 290000] by simp
  then have "(2 :: nat) ^ 36 \<le> 2 ^ (unat h div 290000)" by (intro power_increasing) simp_all
  then have "50000000000 div (2 :: nat) ^ (unat h div 290000) = 0" by (intro div_less) simp
  then have "unat (calculate_block_reward h) = 0"
    by (simp only: calculate_block_reward_halving [OF assms(2)])
  then show ?thesis by (simp add: unat_eq_0)
qed

text \<open>The cast of the halving count to 32 bits brings the full reward back after \<open>2 ^ 32\<close>
  halvings.\<close>

lemma calculate_block_reward_wraps: "calculate_block_reward (290000 * 2 ^ 32) = genesis_block_reward"
  by code_simp

section \<open>The search finds the least nonce\<close>

definition solves :: "hashing \<Rightarrow> block_header \<Rightarrow> u64 \<Rightarrow> bool" where
  "solves H hdr n \<longleftrightarrow> meets_difficulty (header_hash_with H hdr n) (hdr_difficulty hdr)"

lemma mine_from_Some:
  "mine_from H hdr m n = Some r \<Longrightarrow>
     n \<le> mined_nonce r \<and> mined_nonce r < m \<and> solves H hdr (mined_nonce r)
     \<and> (\<forall>k. n \<le> k \<longrightarrow> k < mined_nonce r \<longrightarrow> \<not> solves H hdr k)
     \<and> mined_hash r = header_hash_with H hdr (mined_nonce r) \<and> mined_attempts r = mined_nonce r + 1"
proof (induction H hdr m n rule: mine_from.induct)
  case (1 H hdr m n)
  show ?case
  proof (cases "n < m \<and> solves H hdr n")
    case True
    with 1(2) show ?thesis by (auto simp: mine_from.simps [of H hdr m n] Let_def solves_def)
  next
    case False
    with 1(2) have n: "n < m" and no: "\<not> solves H hdr n" and rec: "mine_from H hdr m (n + 1) = Some r"
      by (auto simp: mine_from.simps [of H hdr m n] Let_def solves_def split: if_splits)
    have IH: "n + 1 \<le> mined_nonce r \<and> mined_nonce r < m \<and> solves H hdr (mined_nonce r)
     \<and> (\<forall>k. n + 1 \<le> k \<longrightarrow> k < mined_nonce r \<longrightarrow> \<not> solves H hdr k)
     \<and> mined_hash r = header_hash_with H hdr (mined_nonce r) \<and> mined_attempts r = mined_nonce r + 1"
      by (rule 1(1) [OF n refl _ rec]) (use no in \<open>simp add: solves_def\<close>)
    have "n + 1 \<le> k \<or> k = n" if "n \<le> k" for k
      using that n by (auto simp: word_le_nat_alt unat_Suc_less [OF n] word_unat_eq_iff)
    with IH no show ?thesis
      by (auto simp: word_le_nat_alt unat_Suc_less [OF n])
  qed
qed

lemma mine_from_None: "mine_from H hdr m n = None \<longleftrightarrow> (\<forall>k. n \<le> k \<longrightarrow> k < m \<longrightarrow> \<not> solves H hdr k)"
proof (induction H hdr m n rule: mine_from.induct)
  case (1 H hdr m n)
  show ?case
  proof (cases "n < m")
    case True
    have split: "n \<le> k \<longleftrightarrow> k = n \<or> n + 1 \<le> k" for k
      using True by (auto simp: word_le_nat_alt unat_Suc_less [OF True] word_unat_eq_iff)
    show ?thesis
    proof (cases "solves H hdr n")
      case sol: True
      then show ?thesis using True by (auto simp: mine_from.simps [of H hdr m n] Let_def solves_def)
    next
      case False
      then have "mine_from H hdr m n = mine_from H hdr m (n + 1)"
        using True by (simp add: mine_from.simps [of H hdr m n] Let_def solves_def)
      moreover have "mine_from H hdr m (n + 1) = None \<longleftrightarrow> (\<forall>k. n + 1 \<le> k \<longrightarrow> k < m \<longrightarrow> \<not> solves H hdr k)"
        by (rule 1 [OF True refl]) (use False in \<open>simp add: solves_def\<close>)
      ultimately show ?thesis using False split by auto
    qed
  next
    case False
    then have "\<not> (n \<le> k \<and> k < m)" for k by auto
    with False show ?thesis by (auto simp: mine_from.simps [of H hdr m n])
  qed
qed

lemma mine_block_Some:
  assumes "mine_block H hdr m = Some r"
  shows "mined_nonce r < m" "solves H hdr (mined_nonce r)" "k < mined_nonce r \<Longrightarrow> \<not> solves H hdr k"
    "mined_hash r = header_hash_with H hdr (mined_nonce r)" "mined_attempts r = mined_nonce r + 1"
  using mine_from_Some [OF assms [unfolded mine_block_def]] by simp_all

lemma mine_block_None: "mine_block H hdr m = None \<longleftrightarrow> (\<forall>k < m. \<not> solves H hdr k)"
  by (simp add: mine_block_def mine_from_None)

section \<open>The difficulty adjustment\<close>

lemma clamp_difficulty_bounds: "1 \<le> clamp_difficulty d" "clamp_difficulty d \<le> 64"
  by (auto simp: clamp_difficulty_def min_difficulty_def max_difficulty_def word_less_nat_alt word_le_nat_alt)

lemma block_count_pos: "2 \<le> length ts \<Longrightarrow> 1 \<le> block_count ts"
  by (simp add: block_count_def recent_timestamps_def difficulty_window_def Let_def min_def)

lemma calculate_next_difficulty_adjusts:
  "2 \<le> length ts \<Longrightarrow> calculate_next_difficulty d ts e
     = clamp_difficulty (adjusted_difficulty d (average_seconds ts) (target_seconds e))"
  using block_count_pos [of ts] by (simp add: calculate_next_difficulty_def)

lemma calculate_next_difficulty_bounds:
  "2 \<le> length ts \<Longrightarrow> 1 \<le> calculate_next_difficulty d ts e \<and> calculate_next_difficulty d ts e \<le> 64"
  by (simp add: calculate_next_difficulty_adjusts clamp_difficulty_bounds)

text \<open>The fast, slow and on-target cases; the thresholds at half and double the target change
  nothing.\<close>

lemma target_seconds_simps [simp]: "target_seconds True = 600" "target_seconds False = 3"
  by (simp_all add: target_seconds_def epoch_block_target_seconds_def micro_block_target_seconds_def)

lemma adjusted_difficulty_cases:
  "adjusted_difficulty d avg (target_seconds e) =
     (if avg < target_seconds e then d + 1
      else if avg > target_seconds e then saturating_sub d 1 else d)"
  by (cases e) (auto simp: adjusted_difficulty_def i64_div_def i64_wrap_def)

lemma unat_clamp_difficulty: "unat (clamp_difficulty d) = min (max (unat d) 1) 64"
  by (auto simp: clamp_difficulty_def min_difficulty_def max_difficulty_def word_less_nat_alt)

lemma unat_u32_Suc: "unat d \<le> 64 \<Longrightarrow> unat (d + 1 :: u32) = Suc (unat d)"
  by (simp add: unat_word_ariths)

text \<open>From a difficulty in range the next one is one step away at most.\<close>

lemma calculate_next_difficulty_step:
  assumes "2 \<le> length ts" "1 \<le> d" "d \<le> 64"
  shows "unat (calculate_next_difficulty d ts e) =
    (if average_seconds ts < target_seconds e then min (unat d + 1) 64
     else if average_seconds ts > target_seconds e then max (unat d - 1) 1 else unat d)"
  using assms(2,3) unat_u32_Suc [of d]
  by (auto simp: calculate_next_difficulty_adjusts [OF assms(1)] adjusted_difficulty_cases
      unat_clamp_difficulty unat_saturating_sub word_le_nat_alt)

text \<open>Without overflow the average is the span of the window over its length.\<close>

lemma average_seconds_exact:
  assumes "2 \<le> length ts" "hd (recent_timestamps ts) \<le> last (recent_timestamps ts)"
    and "last (recent_timestamps ts) - hd (recent_timestamps ts) < 2 ^ 63"
  shows "average_seconds ts = (last (recent_timestamps ts) - hd (recent_timestamps ts)) div block_count ts"
proof -
  let ?e = "last (recent_timestamps ts) - hd (recent_timestamps ts)"
  have wrap: "i64_wrap x = x" if "0 \<le> x" "x < 2 ^ 63" for x
    using that by (simp add: i64_wrap_def)
  have pos: "0 < block_count ts" using block_count_pos [OF assms(1)] by simp
  have "0 \<le> ?e div block_count ts" using assms(2) pos by (simp add: pos_imp_zdiv_nonneg_iff)
  moreover have "?e div block_count ts \<le> ?e"
    using assms(2) pos using zdiv_mono2 [of ?e 1 "block_count ts"] by simp
  ultimately have "i64_wrap (?e div block_count ts) = ?e div block_count ts"
    using assms(3) by (intro wrap) auto
  then show ?thesis
    using assms(2,3) pos wrap [of ?e]
    by (auto simp: average_seconds_def Let_def i64_div_def sgn_if)
qed

text \<open>The comparisons of the average with a target, without the division: the average is cut to whole
  units, so it is above the target only when it is by at least one.\<close>

lemma i64_div_less:
  assumes "0 < n" "0 < T" "- (2 ^ 63) \<le> x" "x < 2 ^ 63"
  shows "i64_div x n < T \<longleftrightarrow> x < T * n" "T < i64_div x n \<longleftrightarrow> (T + 1) * n \<le> x"
proof -
  have abs: "\<bar>x\<bar> div n \<le> \<bar>x\<bar>" "0 \<le> \<bar>x\<bar> div n"
    using assms(1) zdiv_mono2 [of "\<bar>x\<bar>" 1 n] by (simp_all add: pos_imp_zdiv_nonneg_iff)
  have q: "i64_div x n = (if 0 \<le> x then x div n else - (- x div n))"
  proof (cases "0 \<le> x")
    case True
    then show ?thesis using abs assms by (cases "x = 0") (simp_all add: i64_div_def i64_wrap_def sgn_if)
  next
    case False
    then show ?thesis using abs assms by (simp add: i64_div_def i64_wrap_def sgn_if)
  qed
  have less: "x div n < S \<longleftrightarrow> x < S * n" for S
  proof -
    have "S \<le> x div n" if "S * n \<le> x" using zdiv_mono1 [OF that assms(1)] assms(1) by simp
    moreover have "S * n \<le> x" if "S \<le> x div n"
      using mult_right_mono [OF that less_imp_le [OF assms(1)]] pos_mod_sign [OF assms(1), of x] div_mult_mod_eq [of x n]
      by linarith
    ultimately show ?thesis by linarith
  qed
  show "i64_div x n < T \<longleftrightarrow> x < T * n"
  proof (cases "0 \<le> x")
    case True
    then show ?thesis by (simp add: q less)
  next
    case False
    then have "i64_div x n \<le> 0" using abs by (simp add: q)
    moreover have "0 < T * n" using assms by simp
    ultimately show ?thesis using False assms(2) by linarith
  qed
  show "T < i64_div x n \<longleftrightarrow> (T + 1) * n \<le> x"
  proof (cases "0 \<le> x")
    case True
    then show ?thesis using less [of "T + 1"] by (simp add: q) linarith
  next
    case False
    then have "i64_div x n \<le> 0" using abs by (simp add: q)
    moreover have "0 < (T + 1) * n" using assms by simp
    ultimately show ?thesis using False assms(2) by linarith
  qed
qed

lemma next_difficulty_by_span:
  assumes "2 \<le> length ts" "1 \<le> d" "d \<le> 64"
    and "gaps = min (length ts) 144 - 1" "span = last ts - ts ! (length ts - 1 - gaps)"
    and "- (2 ^ 63) \<le> span" "span < 2 ^ 63"
  shows "unat (calculate_next_difficulty d ts e) =
      (if span < (if e then 600 else 3) * int gaps then min (unat d + 1) 64
       else if (if e then 601 else 4) * int gaps \<le> span then max (unat d - 1) 1 else unat d)"
proof -
  have rec: "recent_timestamps ts = drop (length ts - 1 - gaps) ts"
    using assms(1,4) by (simp add: recent_timestamps_def difficulty_window_def Let_def)
  have pos: "0 < gaps" "length ts - 1 - gaps < length ts" using assms(1,4) by simp_all
  then have "hd (recent_timestamps ts) = ts ! (length ts - 1 - gaps)" "last (recent_timestamps ts) = last ts"
    "block_count ts = int gaps"
    using assms(1,4) by (simp_all add: rec hd_drop_conv_nth block_count_def)
  then have "average_seconds ts = i64_div span (int gaps)"
    using assms(5-7) by (simp add: average_seconds_def Let_def i64_wrap_def)
  moreover have "0 < target_seconds e" "target_seconds e = (if e then 600 else 3)" by (cases e; simp)+
  ultimately show ?thesis
    using i64_div_less [of "int gaps" "target_seconds e" span] assms(6,7) pos(1)
    by (simp add: calculate_next_difficulty_step [OF assms(1-3)])
qed

end
