(* ===== verification/Block_Producer.thy ===== *)
theory Block_Producer
  imports Merkle Mining
begin

text \<open>
  Producing and validating blocks, \<open>src/src/chain/block_producer.rs\<close>: the chain tip, the three
  producers and the check every node runs on a block it receives. The wall clock is the
  argument \<open>now\<close>. The lemmas characterise the accepted blocks, show that a mined micro block
  and epoch block are accepted, and study chains: the relation \<open>extends\<close> is what a node that
  accepts block after block goes through; heights, links, work and timestamps are its
  invariants, and the tip hash fixes the blocks below it up to a SHA3 collision.
\<close>

section \<open>Tips and errors\<close>

datatype block_error =
    InvalidPreviousHash string string
  | InsufficientProofOfWork
  | InvalidTimestamp
  | InvalidMerkleRoot
  | InvalidHeight
  | MiningFailed

text \<open>The \<open>Display\<close> text; the slices of the hash mismatch panic on texts shorter than eight
  bytes.\<close>

fun block_error_display :: "block_error \<Rightarrow> string option" where
  "block_error_display (InvalidPreviousHash expected got) =
     (case (str_prefix 8 expected, str_prefix 8 got) of
        (Some e, Some g) \<Rightarrow> Some (''Previous hash mismatch: expected '' @ e @ '', got '' @ g)
      | _ \<Rightarrow> None)"
| "block_error_display InsufficientProofOfWork = Some ''Block hash does not meet difficulty target''"
| "block_error_display InvalidTimestamp = Some ''Block timestamp is outside acceptable range''"
| "block_error_display InvalidMerkleRoot = Some ''Merkle root does not match transaction list''"
| "block_error_display InvalidHeight = Some ''Block height is not sequential''"
| "block_error_display MiningFailed = Some ''Mining did not find a solution within the attempt limit''"

definition zero_hash :: string where
  "zero_hash = replicate 64 (CHR ''0'')"

definition tip_genesis :: chain_tip where
  "tip_genesis = \<lparr>tip_hash = zero_hash, tip_height = 0, tip_timestamp = 0, tip_difficulty = 1,
     tip_epoch_index = 0, tip_total_work = 0\<rparr>"

definition advance :: "chain_tip \<Rightarrow> block \<Rightarrow> chain_tip" where
  "advance tip b =
     (let hdr = blk_header b in
      tip\<lparr>tip_hash := blk_hash b, tip_height := hdr_index hdr, tip_timestamp := hdr_timestamp hdr,
          tip_difficulty := hdr_difficulty hdr,
          tip_epoch_index := (if hdr_is_epoch hdr then hdr_epoch_index hdr else tip_epoch_index tip),
          tip_total_work := tip_total_work tip + u32_as_u64 (hdr_difficulty hdr)\<rparr>)"

section \<open>Producing blocks\<close>

text \<open>The tail the three producers share: mine the header, put the nonce in, build the block.\<close>

definition mined_into ::
  "hashing \<Rightarrow> block_header \<Rightarrow> u64 \<Rightarrow> string list \<Rightarrow> string \<Rightarrow> u64 \<Rightarrow> block_error + block" where
  "mined_into H hdr max_attempts hashes miner reward =
     res_bind (ok_or (mine_block H hdr max_attempts) MiningFailed) (\<lambda>m.
     Inr ((block_new (hdr\<lparr>hdr_nonce := mined_nonce m\<rparr>) hashes miner reward)
       \<lparr>blk_hash := mined_hash m\<rparr>))"

definition produce_genesis_block :: "hashing \<Rightarrow> i64 \<Rightarrow> string \<Rightarrow> block_error + block" where
  "produce_genesis_block H now miner =
     mined_into H (block_header_new now 0 zero_hash (compute_merkle_root H []) 1 True 0) (- 1)
       [] miner genesis_block_reward"

definition produce_micro_block ::
  "hashing \<Rightarrow> i64 \<Rightarrow> transaction list \<Rightarrow> chain_tip \<Rightarrow> string \<Rightarrow> u64 \<Rightarrow> block_error + block" where
  "produce_micro_block H now txs tip miner max_attempts =
     (let tx_hashes = map tx_hash txs;
          merkle_root = compute_merkle_root H tx_hashes;
          hdr = block_header_new now (tip_height tip + 1) (tip_hash tip) merkle_root
            (tip_difficulty tip) False (tip_epoch_index tip)
      in mined_into H hdr max_attempts tx_hashes miner 0)"

definition produce_epoch_block ::
  "hashing \<Rightarrow> i64 \<Rightarrow> string list \<Rightarrow> chain_tip \<Rightarrow> string \<Rightarrow> string \<Rightarrow> u64 \<Rightarrow> block_error + block" where
  "produce_epoch_block H now micro_hashes tip miner state_root max_attempts =
     (let next_epoch_index = tip_epoch_index tip + 1;
          reward = calculate_block_reward next_epoch_index;
          merkle_root = compute_merkle_root H micro_hashes;
          hdr = (block_header_new now (tip_height tip + 1) (tip_hash tip) merkle_root
            (tip_difficulty tip) True next_epoch_index)\<lparr>hdr_state_root := state_root\<rparr>
      in mined_into H hdr max_attempts micro_hashes miner reward)"

section \<open>Validating blocks\<close>

definition validate_block ::
  "hashing \<Rightarrow> i64 \<Rightarrow> block \<Rightarrow> chain_tip \<Rightarrow> transaction list \<Rightarrow> block_error + unit" where
  "validate_block H now b tip txs =
     (let hdr = blk_header b in
      if hdr_index hdr \<noteq> tip_height tip + 1 then Inl InvalidHeight
      else if hdr_previous_hash hdr \<noteq> tip_hash tip then
        Inl (InvalidPreviousHash (tip_hash tip) (hdr_previous_hash hdr))
      else if \<not> verify_proof_of_work (blk_hash b) (hdr_difficulty hdr) then Inl InsufficientProofOfWork
      else if hdr_timestamp hdr < tip_timestamp tip then Inl InvalidTimestamp
      else if hdr_timestamp hdr > i64_wrap (now + 120000) then Inl InvalidTimestamp
      else if hdr_merkle_root hdr \<noteq> compute_merkle_root H (map tx_hash txs) then Inl InvalidMerkleRoot
      else if hash_block_header H (hdr_index hdr) (hdr_timestamp hdr) (hdr_previous_hash hdr)
          (hdr_merkle_root hdr) (hdr_nonce hdr) (hdr_difficulty hdr) (hdr_is_epoch hdr)
          (hdr_epoch_index hdr) (hdr_state_root hdr) \<noteq> blk_hash b then Inl InsufficientProofOfWork
      else Inr ())"

section \<open>Which blocks are accepted\<close>

definition header_hash :: "hashing \<Rightarrow> block_header \<Rightarrow> string" where
  "header_hash H hdr = header_hash_with H hdr (hdr_nonce hdr)"

lemma validate_block_iff:
  "validate_block H now b tip txs = Inr () \<longleftrightarrow>
     hdr_index (blk_header b) = tip_height tip + 1
     \<and> hdr_previous_hash (blk_header b) = tip_hash tip
     \<and> meets_difficulty (blk_hash b) (hdr_difficulty (blk_header b))
     \<and> tip_timestamp tip \<le> hdr_timestamp (blk_header b)
     \<and> hdr_timestamp (blk_header b) \<le> i64_wrap (now + 120000)
     \<and> hdr_merkle_root (blk_header b) = compute_merkle_root H (map tx_hash txs)
     \<and> header_hash H (blk_header b) = blk_hash b"
  by (auto simp: validate_block_def Let_def verify_proof_of_work_def header_hash_def header_hash_with_def)

lemma mined_into_Inr:
  assumes "mined_into H hdr m hashes miner reward = Inr b"
  obtains n where "blk_header b = hdr\<lparr>hdr_nonce := n\<rparr>" "blk_hash b = header_hash H (blk_header b)"
    "meets_difficulty (blk_hash b) (hdr_difficulty hdr)" "n < m"
    "blk_tx_hashes b = hashes" "blk_producer b = miner" "blk_reward b = reward"
proof -
  obtain r where r: "mine_block H hdr m = Some r"
    and b: "b = (block_new (hdr\<lparr>hdr_nonce := mined_nonce r\<rparr>) hashes miner reward)\<lparr>blk_hash := mined_hash r\<rparr>"
    using assms by (auto simp: mined_into_def res_bind_eq_Inr)
  show thesis
    using mine_block_Some [OF r]
    by (intro that [of "mined_nonce r"])
      (simp_all add: b block_new_def header_hash_def header_hash_with_def solves_def)
qed

lemma mined_into_Inl:
  "mined_into H hdr m hashes miner reward = Inl e \<longleftrightarrow> e = MiningFailed \<and> (\<forall>n < m. \<not> solves H hdr n)"
  by (cases "mine_block H hdr m") (auto simp: mined_into_def mine_block_None [symmetric])

text \<open>A block a node mines on its tip is one every node on that tip accepts, for as long as
  its timestamp is not ahead of the other clock by more than two minutes.\<close>

lemma produced_micro_validates:
  assumes "produce_micro_block H now txs tip miner m = Inr b"
    and "tip_timestamp tip \<le> now" "now \<le> i64_wrap (now' + 120000)"
  shows "validate_block H now' b tip txs = Inr ()"
  using assms(1) unfolding produce_micro_block_def Let_def
  by (rule mined_into_Inr) (use assms(2,3) in \<open>simp add: validate_block_iff block_header_new_def\<close>)

text \<open>An epoch block commits to micro block hashes, and the check recomputes the root from
  transactions: the block passes exactly when the two lists have one root.\<close>

lemma produced_epoch_root:
  assumes "produce_epoch_block H now hashes tip miner root m = Inr b"
  shows "hdr_merkle_root (blk_header b) = compute_merkle_root H hashes"
  using assms unfolding produce_epoch_block_def Let_def
  by (rule mined_into_Inr) (simp add: block_header_new_def)

lemma produced_epoch_validates_iff:
  assumes "produce_epoch_block H now hashes tip miner root m = Inr b"
    and "tip_timestamp tip \<le> now" "now \<le> i64_wrap (now' + 120000)"
  shows "validate_block H now' b tip txs = Inr () \<longleftrightarrow> compute_merkle_root H (map tx_hash txs) = compute_merkle_root H hashes"
  using assms(1) unfolding produce_epoch_block_def Let_def
  by (rule mined_into_Inr) (use assms(2,3) in \<open>auto simp: validate_block_iff block_header_new_def\<close>)

text \<open>What is not checked: the difficulty is the one the block claims, zero included.\<close>

lemma validate_block_any_difficulty:
  assumes "blk_header b = (block_header_new now (tip_height tip + 1) (tip_hash tip)
      (compute_merkle_root H (map tx_hash txs)) 0 False 0)"
    and "blk_hash b = header_hash H (blk_header b)" "tip_timestamp tip \<le> now" "now \<le> i64_wrap (now + 120000)"
  shows "validate_block H now b tip txs = Inr ()"
  using assms by (simp add: validate_block_iff block_header_new_def)

section \<open>Chains\<close>

inductive extends :: "hashing \<Rightarrow> chain_tip \<Rightarrow> block list \<Rightarrow> chain_tip \<Rightarrow> bool"
  for H :: hashing and t0 :: chain_tip where
  here: "extends H t0 [] t0"
| accept: "extends H t0 bs t \<Longrightarrow> validate_block H now b t txs = Inr () \<Longrightarrow>
    extends H t0 (bs @ [b]) (advance t b)"

inductive_cases extends_snocE: "extends H t0 (bs @ [b]) t"
inductive_simps extends_Nil [simp]: "extends H t0 [] t"

lemma advance_simps [simp]:
  "tip_hash (advance t b) = blk_hash b" "tip_height (advance t b) = hdr_index (blk_header b)"
  "tip_timestamp (advance t b) = hdr_timestamp (blk_header b)"
  "tip_total_work (advance t b) = tip_total_work t + u32_as_u64 (hdr_difficulty (blk_header b))"
  by (simp_all add: advance_def Let_def)

lemma extends_snoc:
  assumes "extends H t0 (bs @ [b]) t"
  obtains t1 now txs where "extends H t0 bs t1" "validate_block H now b t1 txs = Inr ()" "t = advance t1 b"
  using assms by (rule extends_snocE) auto

text \<open>Heights count the blocks, the work is the sum of the difficulties, time never goes back.\<close>

lemma extends_height: "extends H t0 bs t \<Longrightarrow> tip_height t = tip_height t0 + of_nat (length bs)"
  by (induction rule: extends.induct) (auto simp: validate_block_iff)

lemma extends_work:
  "extends H t0 bs t \<Longrightarrow>
     tip_total_work t = tip_total_work t0 + (\<Sum>b\<leftarrow>bs. u32_as_u64 (hdr_difficulty (blk_header b)))"
  by (induction rule: extends.induct) simp_all

lemma extends_time: "extends H t0 bs t \<Longrightarrow> tip_timestamp t0 \<le> tip_timestamp t"
  by (induction rule: extends.induct) (auto simp: validate_block_iff)

lemma extends_times_sorted:
  "extends H t0 bs t \<Longrightarrow> sorted (map (hdr_timestamp \<circ> blk_header) bs)
     \<and> (\<forall>b \<in> set bs. hdr_timestamp (blk_header b) \<le> tip_timestamp t)"
  by (induction rule: extends.induct) (force simp: validate_block_iff sorted_append)+

text \<open>Every block names the hash of the one before it and carries its own proof of work.\<close>

lemma extends_links:
  "extends H t0 bs t \<Longrightarrow>
     map (hdr_previous_hash \<circ> blk_header) bs @ [tip_hash t] = tip_hash t0 # map blk_hash bs"
  by (induction rule: extends.induct) (auto simp: validate_block_iff)

lemma extends_work_done:
  "extends H t0 bs t \<Longrightarrow> b \<in> set bs \<Longrightarrow>
     blk_hash b = header_hash H (blk_header b) \<and> meets_difficulty (blk_hash b) (hdr_difficulty (blk_header b))"
  by (induction rule: extends.induct) (auto simp: validate_block_iff)

text \<open>Every prefix of a chain is a chain.\<close>

lemma extends_prefix: "extends H t0 (bs @ cs) t \<Longrightarrow> \<exists>t1. extends H t0 bs t1"
proof (induction cs arbitrary: t rule: rev_induct)
  case Nil
  then show ?case by auto
next
  case (snoc c cs)
  have "extends H t0 ((bs @ cs) @ [c]) t" using snoc.prems by simp
  then obtain t1 where "extends H t0 (bs @ cs) t1" by (rule extends_snoc)
  then show ?case by (rule snoc.IH)
qed

section \<open>The tip hash fixes the chain\<close>

text \<open>The millisecond timestamps of the years 2001 to 2286 have 13 digits.\<close>

definition ts13 :: "block \<Rightarrow> bool" where
  "ts13 b \<longleftrightarrow> length (i64_to_string (hdr_timestamp (blk_header b))) = 13"

text \<open>The bytes that are hashed for a header.\<close>

definition header_input :: "block_header \<Rightarrow> bytes" where
  "header_input h = header_preimage (hdr_index h) (hdr_timestamp h) (hdr_previous_hash h)
     (hdr_merkle_root h) (hdr_nonce h) (hdr_difficulty h) (hdr_is_epoch h) (hdr_epoch_index h)
     (hdr_state_root h)"

lemma header_hash_binds_previous:
  assumes "hashing_ok H" "collision_free H {header_input h1, header_input h2}"
    and "header_hash H h1 = header_hash H h2" "hdr_index h1 = hdr_index h2"
    and "length (i64_to_string (hdr_timestamp h1)) = length (i64_to_string (hdr_timestamp h2))"
    and "length (hdr_previous_hash h1) = length (hdr_previous_hash h2)"
  shows "hdr_previous_hash h1 = hdr_previous_hash h2"
proof -
  have "sha3_256_digest H (header_input h1) = sha3_256_digest H (header_input h2)"
    using assms(3) by (simp add: header_hash_def header_hash_with_def hash_block_header_def
      sha3_256_hex_eq_iff [OF assms(1)] header_input_def)
  then have "header_input h1 = header_input h2" by (rule collision_freeD [OF assms(2)]) simp_all
  then show ?thesis using assms(4-6) by (simp add: header_preimage_def header_input_def)
qed

lemma extends_tip_length:
  "extends H t0 bs t \<Longrightarrow> hashing_ok H \<Longrightarrow> length (tip_hash t0) = 64 \<Longrightarrow> length (tip_hash t) = 64"
  by (induction rule: extends.induct)
    (auto simp: validate_block_iff header_hash_def header_hash_with_def hash_block_header_def
      sha3_256_hex_length dest!: arg_cong [of _ "blk_hash _" length])

lemma extends_immutable:
  assumes "hashing_ok H" "length (tip_hash t0) = 64"
  shows "extends H t0 bs t \<Longrightarrow> extends H t0 cs u \<Longrightarrow> length bs = length cs \<Longrightarrow>
    collision_free H ((header_input \<circ> blk_header) ` (set bs \<union> set cs)) \<Longrightarrow>
    \<forall>b \<in> set bs \<union> set cs. ts13 b \<Longrightarrow> tip_hash t = tip_hash u \<Longrightarrow> map blk_hash bs = map blk_hash cs"
proof (induction bs arbitrary: cs t u rule: rev_induct)
  case Nil
  then show ?case by simp
next
  case (snoc b bs)
  from snoc.prems(3) obtain c cs' where cs: "cs = cs' @ [c]" by (cases cs rule: rev_cases) auto
  obtain t1 now txs where t1: "extends H t0 bs t1" "validate_block H now b t1 txs = Inr ()" "t = advance t1 b"
    using snoc.prems(1) by (rule extends_snoc)
  obtain u1 now' txs' where u1: "extends H t0 cs' u1" "validate_block H now' c u1 txs' = Inr ()" "u = advance u1 c"
    using snoc.prems(2) unfolding cs by (rule extends_snoc)
  have "hdr_previous_hash (blk_header b) = hdr_previous_hash (blk_header c)"
  proof (rule header_hash_binds_previous [OF assms(1) collision_free_subset [OF snoc.prems(4)]])
    show "{header_input (blk_header b), header_input (blk_header c)} \<subseteq> (header_input \<circ> blk_header) ` (set (bs @ [b]) \<union> set cs)"
      by (auto simp: cs)
    show "header_hash H (blk_header b) = header_hash H (blk_header c)"
      using snoc.prems(6) t1(2,3) u1(2,3) by (simp add: validate_block_iff)
    show "hdr_index (blk_header b) = hdr_index (blk_header c)"
      using extends_height [OF snoc.prems(1)] extends_height [OF snoc.prems(2)] arg_cong [OF snoc.prems(3), of "of_nat :: nat \<Rightarrow> u64"] t1(3) u1(3)
      by simp
    show "length (i64_to_string (hdr_timestamp (blk_header b))) = length (i64_to_string (hdr_timestamp (blk_header c)))"
      using snoc.prems(5) by (simp add: cs ts13_def)
    show "length (hdr_previous_hash (blk_header b)) = length (hdr_previous_hash (blk_header c))"
      using t1(2) u1(2) extends_tip_length [OF t1(1) assms] extends_tip_length [OF u1(1) assms]
      by (simp add: validate_block_iff)
  qed
  then have "tip_hash t1 = tip_hash u1" using t1(2) u1(2) by (simp add: validate_block_iff)
  then have "map blk_hash bs = map blk_hash cs'"
    using snoc.prems(3,5)
    by (intro snoc.IH [OF t1(1) u1(1)] collision_free_subset [OF snoc.prems(4)]) (auto simp: cs)
  then show ?case using snoc.prems(6) t1(3) u1(3) by (simp add: cs)
qed

end
