(* ===== verification/Coinbase.thy ===== *)
theory Coinbase
  imports Account_Store Block_Producer
begin

text \<open>
  Coinbase transactions, \<open>src/src/consensus/coinbase.rs\<close>. The lemmas show that a coinbase that
  was built verifies and pays exactly its amounts, when the 40 percent fee share is exact, and
  how much mining can ever pay: the loop of \<open>calculate_mined_supply\<close> ends for every height but
  the last 64-bit one, and its total stays below 29 million KYV.
\<close>

section \<open>The transactions\<close>

definition coinbase_sender :: string where
  "coinbase_sender = ''kyv10000000000000000000000000000000000000000000000000000coinbase0''"

definition coinbase_hash :: "hashing \<Rightarrow> string \<Rightarrow> u64 \<Rightarrow> string" where
  "coinbase_hash H block_hash epoch =
     sha3_256_hex H (''coinbase:'' @ block_hash @ '':'' @ u64_to_string epoch)"

definition build_coinbase :: "hashing \<Rightarrow> i64 \<Rightarrow> string \<Rightarrow> u64 \<Rightarrow> string \<Rightarrow> transaction" where
  "build_coinbase H now miner epoch block_hash =
     (let reward = calculate_block_reward epoch;
          tx = transaction_new now coinbase_sender miner reward 0 epoch Transfer []
      in tx\<lparr>tx_hash := coinbase_hash H block_hash epoch, tx_signature := ''coinbase''\<rparr>)"

definition apply_coinbase ::
  "'t backend \<Rightarrow> 't kyvera_db \<Rightarrow> transaction \<Rightarrow> u64 \<Rightarrow> (string + unit) \<times> 't kyvera_db" where
  "apply_coinbase B db coinbase validator_fee_share =
     (if tx_sender coinbase \<noteq> coinbase_sender then (Inl ''Not a coinbase transaction'', db) else
      st_bind (if 0 < tx_amount coinbase
               then credit_account B db (tx_receiver coinbase) (tx_amount coinbase) else (Inr (), db)) (\<lambda>_ db.
      st_bind (if 0 < validator_fee_share
               then credit_account B db (tx_receiver coinbase) validator_fee_share else (Inr (), db)) (\<lambda>_ db.
      (Inr (), db))))"

definition calculate_validator_fee_share :: "u64 \<Rightarrow> u64" where
  "calculate_validator_fee_share fees = fees * 40 div 100"

definition verify_coinbase :: "hashing \<Rightarrow> transaction \<Rightarrow> u64 \<Rightarrow> string \<Rightarrow> bool" where
  "verify_coinbase H coinbase epoch block_hash =
     (if tx_sender coinbase \<noteq> coinbase_sender then False
      else if tx_amount coinbase \<noteq> calculate_block_reward epoch then False
      else if tx_nonce coinbase \<noteq> epoch then False
      else if tx_hash coinbase \<noteq> coinbase_hash H block_hash epoch then False
      else True)"

text \<open>The loop \<open>while height <= epoch_block_height\<close>; not returning is \<open>None\<close>.\<close>

partial_function (option) mined_supply_from :: "u64 \<Rightarrow> u64 \<Rightarrow> u64 \<Rightarrow> u64 option" where
  "mined_supply_from end_height minted height =
     (if height \<le> end_height
      then mined_supply_from end_height (saturating_add minted (calculate_block_reward height)) (height + 1)
      else Some minted)"

definition calculate_mined_supply :: "u64 \<Rightarrow> u64 option" where
  "calculate_mined_supply epoch = mined_supply_from epoch 0 0"

section \<open>Building, verifying, applying\<close>

lemma build_coinbase_verifies: "verify_coinbase H (build_coinbase H now miner e h) e h"
  by (simp add: verify_coinbase_def build_coinbase_def transaction_new_def Let_def)

lemma verify_coinbase_iff:
  "verify_coinbase H tx e h \<longleftrightarrow> tx_sender tx = coinbase_sender \<and> tx_amount tx = calculate_block_reward e
     \<and> tx_nonce tx = e \<and> tx_hash tx = coinbase_hash H h e"
  by (auto simp: verify_coinbase_def)

text \<open>The hash ties the coinbase to its block and epoch, up to a collision; the colon
  separates the two because no epoch number contains one.\<close>

lemma colon_not_digit: "CHR '':'' \<notin> set (u64_to_string n)"
proof
  assume "CHR '':'' \<in> set (u64_to_string n)"
  then obtain d where "d < 10" "CHR '':'' = digit_char d"
    using set_dec_string by (auto simp: u64_to_string_def)
  then have "(of_char (CHR '':'') :: nat) = 48 + d" using of_char_digit_char [of d] by simp
  with \<open>d < 10\<close> show False by simp
qed

lemma append_sep_eq:
  "c \<notin> set ys \<Longrightarrow> c \<notin> set ys' \<Longrightarrow> xs @ c # ys = xs' @ c # ys' \<Longrightarrow> xs = xs' \<and> ys = ys'"
  by (auto simp: append_eq_append_conv2 Cons_eq_append_conv append_eq_Cons_conv)

lemma coinbase_hash_binds:
  assumes "hashing_ok H" "coinbase_hash H h e = coinbase_hash H h' e'"
    and "collision_free H {''coinbase:'' @ h @ '':'' @ u64_to_string e, ''coinbase:'' @ h' @ '':'' @ u64_to_string e'}"
  shows "h = h' \<and> e = e'"
proof -
  have "sha3_256_digest H (''coinbase:'' @ h @ '':'' @ u64_to_string e)
      = sha3_256_digest H (''coinbase:'' @ h' @ '':'' @ u64_to_string e')"
    using assms(2) by (simp add: coinbase_hash_def sha3_256_hex_eq_iff [OF assms(1)])
  then have "''coinbase:'' @ h @ '':'' @ u64_to_string e = ''coinbase:'' @ h' @ '':'' @ u64_to_string e'"
    by (rule collision_freeD [OF assms(3)]) simp_all
  then show ?thesis
    using append_sep_eq [OF colon_not_digit [of e] colon_not_digit [of e'], of h h'] by simp
qed

lemma st_bind_unit [simp]: "st_bind m (\<lambda>_ s. (Inr (), s)) = m"
  by (cases m; cases "fst m") auto

text \<open>A coinbase is at most two credits.\<close>

lemma apply_coinbase_credits:
  "tx_sender cb = coinbase_sender \<Longrightarrow> apply_coinbase B db cb share
     = run_all (\<lambda>db p. credit_account B db (fst p) (snd p)) db
         (filter (\<lambda>p. 0 < snd p) [(tx_receiver cb, tx_amount cb), (tx_receiver cb, share)])"
  by (simp add: apply_coinbase_def)

lemma sum_positive_credits: "(\<Sum>p\<leftarrow>filter (\<lambda>p. 0 < snd p) ps. unat (snd p)) = (\<Sum>p\<leftarrow>ps. unat (snd p :: u64))"
  by (induction ps) (auto simp: word_less_nat_alt)

lemma apply_coinbase_pays:
  assumes "backend_ok B" "db_ok B db" "apply_coinbase B db cb share = (Inr (), db')"
  shows "tx_sender cb = coinbase_sender" "db_ok B db'"
    and "ledger_funds (ledger B db') = ledger_funds (ledger B db) + unat (tx_amount cb) + unat share"
    and "unat (acc_balance (account_at (ledger B db') k)) = unat (acc_balance (account_at (ledger B db) k))
      + (if k = tx_receiver cb then unat (tx_amount cb) + unat share else 0)"
proof -
  show s: "tx_sender cb = coinbase_sender"
    using assms(3) by (auto simp: apply_coinbase_def split: if_splits)
  let ?ps = "filter (\<lambda>p. 0 < snd p) [(tx_receiver cb, tx_amount cb), (tx_receiver cb, share)]"
  note run = credits.credits_run [OF assms(1,2) assms(3) [unfolded apply_coinbase_credits [OF s]]]
  show "db_ok B db'" by (rule run(1))
  show "ledger_funds (ledger B db') = ledger_funds (ledger B db) + unat (tx_amount cb) + unat share"
    using run(2) by (simp only: sum_positive_credits) simp
  show "unat (acc_balance (account_at (ledger B db') k)) = unat (acc_balance (account_at (ledger B db) k))
      + (if k = tx_receiver cb then unat (tx_amount cb) + unat share else 0)"
    using run(3) [of k] by (auto simp: word_less_nat_alt split: if_splits)
qed

section \<open>The fee share\<close>

lemma calculate_validator_fee_share_exact:
  assumes "unat fees * 40 < 2 ^ 64"
  shows "unat (calculate_validator_fee_share fees) = unat fees * 2 div 5"
proof -
  have "unat (fees * 40) = unat fees * 40" using assms by (simp add: unat_word_ariths)
  then have "unat (calculate_validator_fee_share fees) = unat fees * 40 div 100"
    by (simp add: calculate_validator_fee_share_def unat_div)
  also have "\<dots> = unat fees * 2 div 5" using div_mult_mult1 [of 20 "unat fees * 2" 5] by simp
  finally show ?thesis .
qed

text \<open>From \<open>2 ^ 64 / 40\<close> units on, the product wraps and the share with it.\<close>

lemma calculate_validator_fee_share_wraps: "calculate_validator_fee_share 461168601842738791 = 0"
  by code_simp

section \<open>The mined supply\<close>

lemma mined_supply_diverges: "mined_supply_from (- 1) t n = None"
proof -
  have "l \<noteq> - 1" if "mined_supply_from l t n = Some y" for l y
    by (rule mined_supply_from.raw_induct [OF _ that, of "\<lambda>l t n y. l \<noteq> - 1"]) (auto split: if_splits)
  then show ?thesis by (cases "mined_supply_from (- 1) t n") auto
qed

lemma mined_supply_from_value:
  assumes "l < - 1"
  shows "unat n + d = Suc (unat l) \<Longrightarrow> \<exists>r. mined_supply_from l t n = Some r
    \<and> unat r = min (unat t + (\<Sum>k = unat n..unat l. unat (calculate_block_reward (of_nat k)))) (2 ^ 64 - 1)"
proof (induction d arbitrary: n t)
  case 0
  then have "\<not> n \<le> l" by (simp add: word_le_nat_alt)
  moreover have "unat t \<le> 2 ^ 64 - 1" using u64_le [of t] by simp
  ultimately show ?case using 0 by (simp add: mined_supply_from.simps min_def)
next
  case (Suc d)
  then have le: "n \<le> l" by (simp add: word_le_nat_alt)
  have n1: "unat (n + 1) = Suc (unat n)" using le assms by (intro unat_Suc_less [of _ "- 1"]) simp
  let ?t = "saturating_add t (calculate_block_reward n)"
  obtain r where r: "mined_supply_from l ?t (n + 1) = Some r"
    "unat r = min (unat ?t + (\<Sum>k = unat (n + 1)..unat l. unat (calculate_block_reward (of_nat k)))) (2 ^ 64 - 1)"
    using Suc.IH [of "n + 1" ?t] Suc.prems n1 by auto
  have "(\<Sum>k = unat n..unat l. unat (calculate_block_reward (of_nat k)))
      = unat (calculate_block_reward n) + (\<Sum>k = Suc (unat n)..unat l. unat (calculate_block_reward (of_nat k)))"
    using le by (subst sum.atLeast_Suc_atMost) (simp_all add: word_le_nat_alt)
  with r le show ?case
    by (subst mined_supply_from.simps) (auto simp: n1 unat_saturating_add)
qed

text \<open>The reward sums of whole halving periods.\<close>

lemma sum_periods:
  fixes f :: "nat \<Rightarrow> nat"
  assumes "0 < p"
  shows "(\<Sum>k < p * m. f (k div p)) = p * (\<Sum>j < m. f j)"
proof (induction m)
  case 0
  then show ?case by simp
next
  case (Suc m)
  have "(\<Sum>k < p * Suc m. f (k div p)) = (\<Sum>k < p * m. f (k div p)) + (\<Sum>k = p * m..<p * m + p. f (k div p))"
    by (simp add: lessThan_atLeast0 sum.atLeastLessThan_concat add.commute)
  also have "(\<Sum>k = p * m..<p * m + p. f (k div p)) = (\<Sum>k = p * m..<p * m + p. f m)"
  proof (rule sum.cong)
    fix k assume "k \<in> {p * m..<p * m + p}"
    then have "k div p = m" using assms by (intro div_nat_eqI) (simp_all add: mult.commute)
    then show "f (k div p) = f m" by simp
  qed simp
  finally show ?case using Suc by (simp add: algebra_simps)
qed

lemma sum_halvings: "(\<Sum>j < m. c div 2 ^ j) + 2 * (c div 2 ^ m) \<le> 2 * (c :: nat)"
proof (induction m)
  case 0
  then show ?case by simp
next
  case (Suc m)
  have "2 * (c div 2 ^ Suc m) \<le> c div 2 ^ m"
    using div_mult2_eq [of c "2 ^ m" 2] by (simp add: mult.commute)
  with Suc show ?case by simp
qed

definition max_mined_units :: nat where
  "max_mined_units = 29000000 * 1000000000"

lemma reward_sum_halvings:
  fixes h :: u64
  assumes "unat h < 290000 * 2 ^ 32"
  shows "(\<Sum>k = 0..unat h. unat (calculate_block_reward (of_nat k)))
    = (\<Sum>k = 0..unat h. 50000000000 div 2 ^ (k div 290000))"
proof (rule sum.cong)
  fix k assume "k \<in> {0..unat h}"
  then have k: "k \<le> unat h" by simp
  then have "unat (of_nat k :: u64) = k"
    using le_less_trans [OF k u64_less] by (simp add: unat_of_nat)
  then show "unat (calculate_block_reward (of_nat k)) = 50000000000 div 2 ^ (k div 290000)"
    using calculate_block_reward_halving [of "of_nat k"] k assms by simp
qed simp

lemma reward_sum_bound:
  fixes h :: u64
  assumes "unat h < 290000 * 2 ^ 32"
  shows "(\<Sum>k = 0..unat h. unat (calculate_block_reward (of_nat k))) \<le> max_mined_units"
proof -
  let ?c = "50000000000 :: nat" and ?m = "Suc (unat h div 290000)"
  have "(\<Sum>k = 0..unat h. unat (calculate_block_reward (of_nat k))) = (\<Sum>k = 0..unat h. ?c div 2 ^ (k div 290000))"
    by (rule reward_sum_halvings [OF assms])
  also have "\<dots> \<le> (\<Sum>k < 290000 * ?m. ?c div 2 ^ (k div 290000))"
  proof (rule sum_mono2)
    have "unat h < 290000 * ?m" using dividend_less_times_div [of 290000 "unat h"] by simp
    then show "{0..unat h} \<subseteq> {..<290000 * ?m}" by auto
  qed simp_all
  also have "\<dots> = 290000 * (\<Sum>j < ?m. ?c div 2 ^ j)" by (rule sum_periods) simp
  also have "\<dots> \<le> 290000 * (2 * ?c)" using sum_halvings [of ?c ?m] by simp
  finally show ?thesis by (simp add: max_mined_units_def)
qed

lemma calculate_mined_supply_value:
  assumes "unat h < 290000 * 2 ^ 32"
  obtains r where "calculate_mined_supply h = Some r"
    "unat r = (\<Sum>k = 0..unat h. 50000000000 div 2 ^ (k div 290000))" "unat r \<le> max_mined_units"
proof -
  have "h < - 1" using assms unat_u64_max by (simp add: word_less_nat_alt)
  then obtain r where r: "mined_supply_from h 0 0 = Some r"
    "unat r = min (unat 0 + (\<Sum>k = unat 0..unat h. unat (calculate_block_reward (of_nat k)))) (2 ^ 64 - 1)"
    using mined_supply_from_value [of h 0 "Suc (unat h)" 0] by auto
  have "(\<Sum>k = 0..unat h. unat (calculate_block_reward (of_nat k))) < 2 ^ 64"
    using reward_sum_bound [OF assms] by (simp add: max_mined_units_def)
  then have "unat r = (\<Sum>k = 0..unat h. unat (calculate_block_reward (of_nat k)))"
    using r(2) by simp
  then show thesis
    using r(1) reward_sum_bound [OF assms] reward_sum_halvings [OF assms]
    by (intro that [of r]) (simp_all add: calculate_mined_supply_def)
qed

end
