(* ===== verification/Genesis.thy ===== *)
theory Genesis
  imports State_Trie Block_Store Coinbase
begin

text \<open>
  The genesis of the chain, \<open>src/src/consensus/genesis.rs\<close>. The lemmas show what an initialised
  database holds (the four allocations, the founder's with the first reward, 600,000,050 KYV
  in all), that it passes its own integrity check and refuses a second initialisation, and
  that an initialisation cut short before the tip is written is not undone: the next one
  credits every allocation again.
\<close>

section \<open>Constants\<close>

definition total_supply :: u64 where "total_supply = 1500000000000000000"
definition mining_allocation :: u64 where "mining_allocation = 900000000000000000"
definition ecosystem_allocation :: u64 where "ecosystem_allocation = 225000000000000000"
definition founder_allocation :: u64 where "founder_allocation = 150000000000000000"
definition community_allocation :: u64 where "community_allocation = 150000000000000000"
definition treasury_allocation :: u64 where "treasury_allocation = 75000000000000000"

definition ecosystem_address :: string where
  "ecosystem_address = ''kyv10000000000000000000000000000000000000000000000000ecosystem00''"
definition founder_address :: string where
  "founder_address = ''kyv10000000000000000000000000000000000000000000000000000founder00''"
definition community_address :: string where
  "community_address = ''kyv100000000000000000000000000000000000000000000000000community00''"
definition treasury_address :: string where
  "treasury_address = ''kyv10000000000000000000000000000000000000000000000000000treasury00''"
definition genesis_miner :: string where "genesis_miner = founder_address"

section \<open>Initialisation\<close>

definition apply_genesis_allocations :: "'t backend \<Rightarrow> 't kyvera_db \<Rightarrow> (string + unit) \<times> 't kyvera_db" where
  "apply_genesis_allocations B db =
     st_bind (credit_account B db ecosystem_address ecosystem_allocation) (\<lambda>_ db.
     st_bind (credit_account B db founder_address founder_allocation) (\<lambda>_ db.
     st_bind (credit_account B db community_address community_allocation) (\<lambda>_ db.
     st_bind (credit_account B db treasury_address treasury_allocation) (\<lambda>_ db.
     let expected = ecosystem_allocation + founder_allocation + community_allocation + treasury_allocation;
         expected_with_mining = expected + mining_allocation
     in if expected_with_mining \<noteq> total_supply then
          (Inl (''Genesis allocation error: allocations sum to '' @ u64_to_string expected_with_mining
                @ '' but total supply is '' @ u64_to_string total_supply), db)
        else (Inr (), db)))))"

text \<open>The message of the only error \<open>produce_genesis_block\<close> returns, \<open>MiningFailed\<close>, prints
  without a slice.\<close>

definition genesis_error :: "block_error \<Rightarrow> string" where
  "genesis_error e = ''Failed to produce genesis block: ''
     @ (case block_error_display e of Some s \<Rightarrow> s | None \<Rightarrow> [])"

definition initialize_chain ::
  "hashing \<Rightarrow> 't backend \<Rightarrow> i64 \<Rightarrow> 't kyvera_db \<Rightarrow> (string + chain_tip) \<times> 't kyvera_db" where
  "initialize_chain H B now db =
     read_bind db (load_chain_tip B db) (\<lambda>existing.
     case existing of
       Some tip \<Rightarrow>
         (Inl (''Chain already initialized at height '' @ u64_to_string (tip_height tip)
               @ ''. Cannot re-initialize without wiping the database.''), db)
     | None \<Rightarrow>
         read_bind db (map_err genesis_error (produce_genesis_block H now genesis_miner)) (\<lambda>genesis.
         st_bind (apply_genesis_allocations B db) (\<lambda>_ db.
         st_bind (credit_account B db genesis_miner genesis_block_reward) (\<lambda>_ db.
         st_bind (save_block B db genesis) (\<lambda>_ db.
         read_bind db (compute_state_root H B db) (\<lambda>state_root.
         st_bind (save_state_root B db state_root) (\<lambda>_ db.
         let tip = advance tip_genesis genesis in
         st_bind (save_chain_tip B db tip) (\<lambda>_ db.
         (Inr tip, db)))))))))"

definition verify_genesis_integrity :: "'t backend \<Rightarrow> 't kyvera_db \<Rightarrow> string + bool" where
  "verify_genesis_integrity B db =
     res_bind (get_block_by_height B db 0) (\<lambda>genesis.
     case genesis of
       None \<Rightarrow> Inr False
     | Some b \<Rightarrow>
         if hdr_index (blk_header b) \<noteq> 0 \<or> \<not> hdr_is_epoch (blk_header b) then Inr False
         else if hdr_previous_hash (blk_header b) \<noteq> zero_hash then Inr False
         else if blk_producer b \<noteq> genesis_miner then Inr False
         else Inr True)"

section \<open>The allocations\<close>

definition genesis_credits :: "(string \<times> u64) list" where
  "genesis_credits =
     [(ecosystem_address, ecosystem_allocation), (founder_address, founder_allocation),
      (community_address, community_allocation), (treasury_address, treasury_allocation)]"

lemma allocations_sum:
  "ecosystem_allocation + founder_allocation + community_allocation + treasury_allocation + mining_allocation
     = total_supply"
  by (simp add: ecosystem_allocation_def founder_allocation_def community_allocation_def
      treasury_allocation_def mining_allocation_def total_supply_def)

lemma treasury_addresses_agree: "treasury_address = fee_treasury_address"
  by (simp add: treasury_address_def fee_treasury_address_def)

lemma apply_genesis_allocations_credits:
  "apply_genesis_allocations B db = run_all (\<lambda>db p. credit_account B db (fst p) (snd p)) db genesis_credits"
  by (simp add: apply_genesis_allocations_def genesis_credits_def allocations_sum Let_def)

lemma genesis_run:
  assumes "initialize_chain H B now db = (Inr tip, db')"
  obtains genesis db1 db2 db3 root where
    "load_chain_tip B db = Inr None"
    "produce_genesis_block H now genesis_miner = Inr genesis"
    "run_all (\<lambda>db p. credit_account B db (fst p) (snd p)) db
       (genesis_credits @ [(genesis_miner, genesis_block_reward)]) = (Inr (), db1)"
    "save_block B db1 genesis = (Inr (), db2)"
    "compute_state_root H B db2 = Inr root" "save_state_root B db2 root = (Inr (), db3)"
    "save_chain_tip B db3 tip = (Inr (), db')" "tip = advance tip_genesis genesis"
proof -
  from assms obtain existing where e: "load_chain_tip B db = Inr existing" "existing = None"
    and r: "read_bind db (map_err genesis_error (produce_genesis_block H now genesis_miner)) (\<lambda>genesis.
         st_bind (apply_genesis_allocations B db) (\<lambda>_ db.
         st_bind (credit_account B db genesis_miner genesis_block_reward) (\<lambda>_ db.
         st_bind (save_block B db genesis) (\<lambda>_ db.
         read_bind db (compute_state_root H B db) (\<lambda>state_root.
         st_bind (save_state_root B db state_root) (\<lambda>_ db.
         let tip = advance tip_genesis genesis in
         st_bind (save_chain_tip B db tip) (\<lambda>_ db.
         (Inr tip, db)))))))) = (Inr tip, db')"
    unfolding initialize_chain_def by (auto elim!: read_bind_InrE split: option.splits)
  from r obtain genesis u da v db1 w db2 root x db3 y where g: "produce_genesis_block H now genesis_miner = Inr genesis"
    and a: "apply_genesis_allocations B db = (Inr u, da)"
    and c: "credit_account B da genesis_miner genesis_block_reward = (Inr v, db1)"
    and rest: "save_block B db1 genesis = (Inr w, db2)" "compute_state_root H B db2 = Inr root"
      "save_state_root B db2 root = (Inr x, db3)"
      "save_chain_tip B db3 (advance tip_genesis genesis) = (Inr y, db')" "tip = advance tip_genesis genesis"
    unfolding Let_def by (auto elim!: read_bind_InrE st_bind_InrE)
  have "run_all (\<lambda>db p. credit_account B db (fst p) (snd p)) db
      (genesis_credits @ [(genesis_miner, genesis_block_reward)]) = (Inr (), db1)"
    using a c unfolding run_all_append apply_genesis_allocations_credits by simp
  with e g rest show thesis by (intro that [of genesis db1 db2 root db3]) simp_all
qed

lemma save_block_ledger: "ledger B (snd (save_block B db b)) = ledger B db"
  unfolding save_block_def Let_def
  by (intro read_bind_state [where P = "\<lambda>s. ledger B s = ledger B db"]
      st_bind_closed [where P = "\<lambda>s. ledger B s = ledger B db"])
    (simp_all add: on_blocks_by_hash_def on_blocks_by_height_def)

lemma save_chain_tip_ledger: "ledger B (snd (save_chain_tip B db tip)) = ledger B db"
  unfolding save_chain_tip_def
  by (rule read_bind_state [where P = "\<lambda>s. ledger B s = ledger B db"]) (simp_all add: set_metadata_ledger)

lemma genesis_ledger:
  assumes "backend_ok B" "db_ok B db" "initialize_chain H B now db = (Inr tip, db')"
  shows "db_ok B db'"
    and "ledger_funds (ledger B db') = ledger_funds (ledger B db) + 600000050 * 1000000000"
    and "unat (acc_balance (account_at (ledger B db') k)) = unat (acc_balance (account_at (ledger B db) k))
      + (\<Sum>p\<leftarrow>genesis_credits @ [(genesis_miner, genesis_block_reward)]. if k = fst p then unat (snd p) else 0)"
proof -
  obtain genesis db1 db2 db3 root where
    run: "run_all (\<lambda>db p. credit_account B db (fst p) (snd p)) db
       (genesis_credits @ [(genesis_miner, genesis_block_reward)]) = (Inr (), db1)"
    and s: "save_block B db1 genesis = (Inr (), db2)" "save_state_root B db2 root = (Inr (), db3)"
      "save_chain_tip B db3 tip = (Inr (), db')"
    using assms(3) by (rule genesis_run)
  have same: "ledger B db' = ledger B db1"
    using save_block_ledger [of B db1 genesis] save_chain_tip_ledger [of B db3 tip] s
    by (simp add: save_state_root_def set_metadata_ledger)
  note cr = credits.credits_run [OF assms(1,2) run]
  show "db_ok B db'" using cr(1) by (simp add: db_ok_def same)
  show "ledger_funds (ledger B db') = ledger_funds (ledger B db) + 600000050 * 1000000000"
    using cr(2) by (simp add: same genesis_credits_def ecosystem_allocation_def founder_allocation_def
        community_allocation_def treasury_allocation_def unat_reward_constants)
  show "unat (acc_balance (account_at (ledger B db') k)) = unat (acc_balance (account_at (ledger B db) k))
      + (\<Sum>p\<leftarrow>genesis_credits @ [(genesis_miner, genesis_block_reward)]. if k = fst p then unat (snd p) else 0)"
    using cr(3) [of k] by (simp only: same)
qed

section \<open>The genesis block in the database\<close>

lemma genesis_block_fields:
  assumes "produce_genesis_block H now miner = Inr b"
  shows "hdr_index (blk_header b) = 0" "hdr_is_epoch (blk_header b)"
    "hdr_previous_hash (blk_header b) = zero_hash" "blk_producer b = miner"
    "blk_reward b = genesis_block_reward" "blk_hash b = header_hash H (blk_header b)"
    "meets_difficulty (blk_hash b) 1"
  by (rule mined_into_Inr [OF assms [unfolded produce_genesis_block_def]], simp add: block_header_new_def)+

lemma initialized_passes_check:
  assumes "backend_total B" "hashing_ok H" "initialize_chain H B now db = (Inr tip, db')"
  shows "verify_genesis_integrity B db' = Inr True"
proof -
  obtain genesis db1 db2 db3 root where
    g: "produce_genesis_block H now genesis_miner = Inr genesis"
    and s: "save_block B db1 genesis = (Inr (), db2)" "save_state_root B db2 root = (Inr (), db3)"
      "save_chain_tip B db3 tip = (Inr (), db')"
    using assms(3) by (rule genesis_run)
  have "\<exists>t. db' = db2\<lparr>db_metadata := t\<rparr>"
    using s(2,3) unfolding save_state_root_def save_chain_tip_def
    by (auto elim!: set_metadata_okE read_bind_InrE)
  then have "get_block_by_height B db' 0 = get_block_by_height B db2 0"
    by (auto simp: get_block_by_height_def get_block_by_hash_def cong: option.case_cong)
  also have "\<dots> = Inr (Some genesis)"
  proof (rule get_height_found [OF assms(1)])
    show "hash_at B db2 0 = Some (blk_hash genesis)" "block_at B db2 (blk_hash genesis) = Some genesis"
      using save_block_outcomes [OF backend_total_ok [OF assms(1)] s(1)] genesis_block_fields(1) [OF g]
      by (auto simp: block_height_def)
    show "utf8_valid (blk_hash genesis)"
      using genesis_block_fields(6) [OF g] sha3_256_hex_valid [OF assms(2)]
      by (simp add: header_hash_def header_hash_with_def hash_block_header_def)
  qed
  finally show ?thesis using genesis_block_fields [OF g] by (simp add: verify_genesis_integrity_def)
qed

text \<open>An initialised chain cannot be initialised again.\<close>

lemma initialize_once:
  assumes "backend_ok B" "initialize_chain H B now db = (Inr tip, db')"
  shows "\<exists>e. initialize_chain H' B now' db' = (Inl e, db')"
proof -
  obtain db3 where s: "save_chain_tip B db3 tip = (Inr (), db')"
    using assms(2) by (rule genesis_run)
  show ?thesis
  proof (cases "load_chain_tip B db'")
    case (Inl e)
    then show ?thesis by (simp add: initialize_chain_def)
  next
    case (Inr r)
    then have "r = Some tip" by (rule chain_tip_roundtrip [OF assms(1) s])
    with Inr show ?thesis by (simp add: initialize_chain_def)
  qed
qed

text \<open>The tip is written last. Whatever allocations were credited before a failure stay, and
  the next attempt credits all of them again.\<close>

lemma interrupted_initialization_credits_twice:
  assumes "backend_ok B" "db_ok B db"
    and "run_all (\<lambda>db p. credit_account B db (fst p) (snd p)) db genesis_credits = (Inr (), db1)"
    and "initialize_chain H B now db1 = (Inr tip, db2)"
  shows "ledger_funds (ledger B db2) = ledger_funds (ledger B db) + 1200000050 * 1000000000"
proof -
  note cr = credits.credits_run [OF assms(1-3)]
  have "ledger_funds (ledger B db1) = ledger_funds (ledger B db) + 600000000 * 1000000000"
    using cr(2) by (simp add: genesis_credits_def ecosystem_allocation_def founder_allocation_def
        community_allocation_def treasury_allocation_def)
  with genesis_ledger(2) [OF assms(1) cr(1) assms(4)] show ?thesis by simp
qed

end
