(* ===== verification/Validators.thy ===== *)
theory Validators
  imports Genesis
begin

text \<open>
  The staking layer, \<open>src/src/consensus/validators.rs\<close>: reward weights, the distribution of the
  fee share, the rewards of an epoch and slashing. The lemmas show that the distribution never
  pays more than the share and loses less than one unit per validator, that the rewards of an
  epoch add exactly the coinbase and the fee share to the ledger, that a slash moves stake
  to the treasury without changing the total, and where the saturating products cap what the
  percentages promise.
\<close>

section \<open>Weights and distribution\<close>

definition minor_slash_bps :: u64 where "minor_slash_bps = 100"
definition major_slash_bps :: u64 where "major_slash_bps = 1000"

definition get_active_validator_set :: "'t backend \<Rightarrow> 't kyvera_db \<Rightarrow> string + account list" where
  "get_active_validator_set B db = get_validators B db"

definition calculate_validator_weight :: "account \<Rightarrow> u64" where
  "calculate_validator_weight a =
     (let bonus_bps = (case acc_tier a of Some tier \<Rightarrow> reward_bonus_bps tier | None \<Rightarrow> 0);
          bonus = saturating_mul (acc_staked a) bonus_bps div 10000
      in saturating_add (acc_staked a) bonus)"

definition validator_share :: "u64 \<Rightarrow> u128 \<Rightarrow> u64 \<Rightarrow> u64" where
  "validator_share fee_share total_weight weight =
     u128_as_u64 (u64_as_u128 fee_share * u64_as_u128 weight div total_weight)"

fun distribute_loop ::
  "'t backend \<Rightarrow> u64 \<Rightarrow> u128 \<Rightarrow> 't kyvera_db \<Rightarrow> u64 \<Rightarrow> (string \<times> u64) list \<Rightarrow> (string + u64) \<times> 't kyvera_db" where
  "distribute_loop B fee_share total_weight db distributed [] = (Inr distributed, db)"
| "distribute_loop B fee_share total_weight db distributed ((address, weight) # ws) =
     (let share = validator_share fee_share total_weight weight in
      if 0 < share then
        st_bind (credit_account B db address share) (\<lambda>_ db.
        distribute_loop B fee_share total_weight db (saturating_add distributed share) ws)
      else distribute_loop B fee_share total_weight db distributed ws)"

definition distribute_validator_rewards ::
  "'t backend \<Rightarrow> 't kyvera_db \<Rightarrow> u64 \<Rightarrow> (string + u64) \<times> 't kyvera_db" where
  "distribute_validator_rewards B db fee_share =
     (if fee_share = 0 then (Inr 0, db) else
      read_bind db (get_active_validator_set B db) (\<lambda>validators.
      if validators = [] then (Inr 0, db) else
        let weights = map (\<lambda>v. (acc_address v, calculate_validator_weight v)) validators;
            total_weight = (\<Sum>p\<leftarrow>weights. u64_as_u128 (snd p))
        in if total_weight = 0 then (Inr 0, db)
           else distribute_loop B fee_share total_weight db 0 weights))"

definition apply_epoch_rewards ::
  "'t backend \<Rightarrow> 't kyvera_db \<Rightarrow> transaction \<Rightarrow> u64 \<Rightarrow> (string + unit) \<times> 't kyvera_db" where
  "apply_epoch_rewards B db coinbase fees_collected =
     st_bind (apply_coinbase B db coinbase 0) (\<lambda>_ db.
     let validator_share = calculate_validator_fee_share fees_collected in
     st_bind (distribute_validator_rewards B db validator_share) (\<lambda>distributed db.
     let leftover = saturating_sub validator_share distributed in
     st_bind (if 0 < leftover then credit_account B db treasury_address leftover else (Inr (), db)) (\<lambda>_ db.
     (Inr (), db))))"

definition slash_amount_of :: "u64 \<Rightarrow> u64 \<Rightarrow> u64" where
  "slash_amount_of staked bps = saturating_mul staked bps div 10000"

definition slash_validator ::
  "'t backend \<Rightarrow> 't kyvera_db \<Rightarrow> string \<Rightarrow> u64 \<Rightarrow> (string + u64) \<times> 't kyvera_db" where
  "slash_validator B db address slash_bps =
     read_bind db (get_account B db address) (\<lambda>found.
     read_bind db (ok_or found (''No account found for '' @ address)) (\<lambda>a.
     if acc_staked a = 0 then (Inl (address @ '' has no staked balance to slash''), db) else
     let slash_amount = slash_amount_of (acc_staked a) slash_bps in
     if slash_amount = 0 then (Inr 0, db) else
       st_bind (save_account B db (update_validator_tier (a\<lparr>acc_staked := acc_staked a - slash_amount\<rparr>))) (\<lambda>_ db.
       st_bind (credit_account B db treasury_address slash_amount) (\<lambda>_ db.
       (Inr slash_amount, db)))))"

section \<open>Weights\<close>

text \<open>The weight is the stake and its tier bonus, as long as the product fits.\<close>

definition bonus_of :: "account \<Rightarrow> nat" where
  "bonus_of a = (case acc_tier a of None \<Rightarrow> 0 | Some t \<Rightarrow> unat (reward_bonus_bps t))"

lemma reward_bonus_le: "unat (reward_bonus_bps t) \<le> 3500"
  by (cases t) simp_all

lemma calculate_validator_weight_exact:
  assumes "unat (acc_staked a) * 3500 < 2 ^ 64"
  shows "unat (calculate_validator_weight a)
    = unat (acc_staked a) + unat (acc_staked a) * bonus_of a div 10000"
proof -
  let ?s = "unat (acc_staked a)"
  have b: "bonus_of a \<le> 3500" using reward_bonus_le by (simp add: bonus_of_def split: option.split)
  then have lt: "?s * bonus_of a < 2 ^ 64"
    using assms by (meson le_less_trans mult_le_mono2)
  have le: "?s * bonus_of a div 10000 \<le> ?s * 3500 div 10000" using b by (intro div_le_mono) simp
  have sum: "?s + ?s * bonus_of a div 10000 < 2 ^ 64" using le assms by simp
  have m: "unat (saturating_mul (acc_staked a) (case acc_tier a of Some tier \<Rightarrow> reward_bonus_bps tier | None \<Rightarrow> 0))
      = ?s * bonus_of a"
    using lt by (auto simp: unat_saturating_mul bonus_of_def min_def split: option.splits)
  show ?thesis
    using sum by (simp add: calculate_validator_weight_def Let_def unat_saturating_add unat_div m min_def)
qed

lemma calculate_validator_weight_ge: "acc_staked a \<le> calculate_validator_weight a"
  using u64_le [of "acc_staked a"]
  by (simp add: calculate_validator_weight_def Let_def word_le_nat_alt unat_saturating_add)

section \<open>The distribution\<close>

definition rewards :: "u64 \<Rightarrow> u128 \<Rightarrow> (string \<times> u64) list \<Rightarrow> (string \<times> u64) list" where
  "rewards fee_share total_weight ws =
     filter (\<lambda>p. 0 < snd p) (map (\<lambda>p. (fst p, validator_share fee_share total_weight (snd p))) ws)"

lemma distribute_loop_credits:
  assumes "distribute_loop B T W db d ws = (Inr r, db')"
    and "unat d + (\<Sum>p\<leftarrow>ws. unat (validator_share T W (snd p))) < 2 ^ 64"
  shows "run_all (\<lambda>db p. credit_account B db (fst p) (snd p)) db (rewards T W ws) = (Inr (), db')
    \<and> unat r = unat d + (\<Sum>p\<leftarrow>ws. unat (validator_share T W (snd p)))"
  using assms
proof (induction ws arbitrary: db d)
  case Nil
  then show ?case by (simp add: rewards_def)
next
  case (Cons p ws)
  obtain k w where p: "p = (k, w)" by fastforce
  let ?s = "validator_share T W w"
  show ?case
  proof (cases "0 < ?s")
    case True
    obtain u db1 where c: "credit_account B db k ?s = (Inr u, db1)"
      and l: "distribute_loop B T W db1 (saturating_add d ?s) ws = (Inr r, db')"
      using Cons.prems(1) True by (auto simp: p Let_def elim: st_bind_InrE)
    have "unat (saturating_add d ?s) = unat d + unat ?s"
      using Cons.prems(2) by (simp add: p unat_saturating_add)
    with Cons.IH [OF l] Cons.prems(2) True c show ?thesis by (simp add: p rewards_def)
  next
    case False
    then have "?s = 0" by (simp add: word_less_nat_alt unat_eq_0)
    with Cons show ?thesis by (simp add: p rewards_def Let_def)
  qed
qed

lemma unat_u64_as_u128 [simp]: "unat (u64_as_u128 x) = unat x"
proof -
  have "unat x < 2 ^ 128" by (rule less_trans [OF u64_less]) simp
  then show ?thesis by (simp add: unsigned_ucast_eq take_bit_nat_eq_self)
qed

lemma unat_u128_sum:
  assumes "length ws < 2 ^ 64"
  shows "unat (\<Sum>w\<leftarrow>ws. u64_as_u128 w) = (\<Sum>w\<leftarrow>ws. unat w) \<and> (\<Sum>w\<leftarrow>ws. unat w) \<le> length ws * (2 ^ 64 - 1)"
  using assms
proof (induction ws)
  case Nil
  then show ?case by simp
next
  case (Cons w ws)
  then have IH: "unat (\<Sum>w\<leftarrow>ws. u64_as_u128 w) = (\<Sum>w\<leftarrow>ws. unat w)"
    and le: "(\<Sum>w\<leftarrow>ws. unat w) \<le> length ws * (2 ^ 64 - 1)" by simp_all
  have le': "unat w + (\<Sum>w\<leftarrow>ws. unat w) \<le> Suc (length ws) * (2 ^ 64 - 1)"
    using le u64_le [of w] by simp
  also have "\<dots> < 2 ^ 128" using Cons.prems by simp
  finally have "unat (u64_as_u128 w) + unat (\<Sum>w\<leftarrow>ws. u64_as_u128 w) < 2 ^ 128" by (simp add: IH)
  then show ?case using le' by (simp add: unat_word_ariths IH)
qed

text \<open>Each share is the exact proportion, rounded down.\<close>

lemma validator_share_exact:
  assumes "unat w \<le> unat W" "0 < unat W"
  shows "unat (validator_share T W w) = unat T * unat w div unat W"
proof -
  have "unat T * unat w \<le> 18446744073709551615 * 18446744073709551615"
    using u64_le [of T] u64_le [of w] by (intro mult_mono) simp_all
  also have "\<dots> < 2 ^ 128" by simp
  finally have prod: "unat (u64_as_u128 T * u64_as_u128 w) = unat T * unat w"
    by (simp add: unat_word_ariths)
  have "unat T * unat w div unat W \<le> unat T * unat W div unat W"
    using assms(1) by (intro div_le_mono mult_le_mono2)
  then have "unat T * unat w div unat W \<le> unat T" using assms(2) by simp
  then have "unat T * unat w div unat W < 2 ^ 64"
    using le_less_trans [OF _ u64_less, of _ T] by simp
  then show ?thesis
    by (simp add: validator_share_def unsigned_ucast_eq unat_div prod take_bit_nat_eq_self)
qed

definition weights_of :: "account list \<Rightarrow> (string \<times> u64) list" where
  "weights_of vs = map (\<lambda>v. (acc_address v, calculate_validator_weight v)) vs"

lemma length_weights_of [simp]: "length (weights_of vs) = length vs"
  by (simp add: weights_of_def)

definition weight_sum :: "(string \<times> u64) list \<Rightarrow> nat" where
  "weight_sum ws = (\<Sum>p\<leftarrow>ws. unat (snd p))"

lemma sum_shares:
  assumes "length ws < 2 ^ 64" "W = (\<Sum>p\<leftarrow>ws. u64_as_u128 (snd p))" "W \<noteq> 0"
  shows "unat W = weight_sum ws"
    and "\<And>p. p \<in> set ws \<Longrightarrow> unat (validator_share T W (snd p)) = unat T * unat (snd p) div weight_sum ws"
    and "(\<Sum>p\<leftarrow>ws. unat (validator_share T W (snd p))) \<le> unat T"
    and "unat T < (\<Sum>p\<leftarrow>ws. unat (validator_share T W (snd p))) + length ws"
proof -
  let ?ws = "map (\<lambda>p. unat (snd p)) ws"
  show W: "unat W = weight_sum ws"
    using unat_u128_sum [of "map snd ws"] assms(1) by (simp add: assms(2) comp_def weight_sum_def)
  have pos: "0 < weight_sum ws" using assms(3) W by (metis bot_nat_0.not_eq_extremum unat_eq_0)
  have le: "unat (snd p) \<le> weight_sum ws" if "p \<in> set ws" for p
    using that member_le_sum_list [of "unat (snd p)" ?ws] by (force simp: weight_sum_def)
  show each: "unat (validator_share T W (snd p)) = unat T * unat (snd p) div weight_sum ws" if "p \<in> set ws" for p
    using validator_share_exact [of "snd p" W T] le [OF that] pos by (simp add: W)
  have "(\<Sum>p\<leftarrow>ws. unat (validator_share T W (snd p))) = (\<Sum>p\<leftarrow>ws. unat T * unat (snd p) div weight_sum ws)"
    using each by (intro arg_cong [of _ _ sum_list] map_cong) simp_all
  also have "\<dots> = (\<Sum>w\<leftarrow>?ws. unat T * w div sum_list ?ws)" by (simp add: weight_sum_def comp_def)
  finally have eq: "(\<Sum>p\<leftarrow>ws. unat (validator_share T W (snd p))) = (\<Sum>w\<leftarrow>?ws. unat T * w div sum_list ?ws)" .
  show "(\<Sum>p\<leftarrow>ws. unat (validator_share T W (snd p))) \<le> unat T" unfolding eq by (rule shares_le)
  show "unat T < (\<Sum>p\<leftarrow>ws. unat (validator_share T W (snd p))) + length ws"
    using shares_dust [of ?ws "unat T"] pos by (simp add: eq weight_sum_def)
qed

text \<open>A distribution that took place: the credits, the total and the dust.\<close>

lemma distribute_runs:
  assumes "get_validators B db = Inr vs" "length vs < 2 ^ 64"
    and "distribute_validator_rewards B db T = (Inr d, db')"
  obtains (none) "d = 0" "db' = db" "T = 0 \<or> weight_sum (weights_of vs) = 0"
  | (some) W where "W = (\<Sum>p\<leftarrow>weights_of vs. u64_as_u128 (snd p))" "W \<noteq> 0" "0 < T"
      "run_all (\<lambda>db p. credit_account B db (fst p) (snd p)) db (rewards T W (weights_of vs)) = (Inr (), db')"
      "unat d = (\<Sum>p\<leftarrow>weights_of vs. unat (validator_share T W (snd p)))"
      "d \<le> T" "unat T < unat d + length vs"
proof -
  let ?W = "\<Sum>p\<leftarrow>weights_of vs. u64_as_u128 (snd p)"
  have len: "length (weights_of vs) < 2 ^ 64" using assms(2) by simp
  show thesis
  proof (cases "T = 0 \<or> vs = [] \<or> ?W = 0")
    case True
    have "weight_sum (weights_of vs) = 0" if "?W = 0"
      using unat_u128_sum [of "map snd (weights_of vs)"] len that by (simp add: weight_sum_def comp_def)
    with True assms(1,3) show thesis
      by (intro none) (auto simp: distribute_validator_rewards_def get_active_validator_set_def Let_def
          weights_of_def weight_sum_def split: if_splits)
  next
    case False
    then have run: "distribute_loop B T ?W db 0 (weights_of vs) = (Inr d, db')"
      using assms(1,3) by (simp add: distribute_validator_rewards_def get_active_validator_set_def weights_of_def)
    note sh = sum_shares [OF len refl]
    have "(\<Sum>p\<leftarrow>weights_of vs. unat (validator_share T ?W (snd p))) \<le> unat T" using sh(3) False by simp
    then have "unat (0 :: u64) + (\<Sum>p\<leftarrow>weights_of vs. unat (validator_share T ?W (snd p))) < 2 ^ 64"
      using le_less_trans [OF _ u64_less] by simp
    from distribute_loop_credits [OF run this] False sh(3,4) [of T] show thesis
      by (intro some [of ?W]) (simp_all add: word_le_nat_alt word_neq_0_conv)
  qed
qed

lemma rewards_sum:
  "(\<Sum>p\<leftarrow>rewards T W ws. unat (snd p)) = (\<Sum>p\<leftarrow>ws. unat (validator_share T W (snd p)))"
  by (simp add: rewards_def sum_positive_credits comp_def)

lemma distribute_ledger:
  assumes "backend_ok B" "db_ok B db" "get_validators B db = Inr vs" "length vs < 2 ^ 64"
    and "distribute_validator_rewards B db T = (Inr d, db')"
  shows "db_ok B db'" "d \<le> T" "ledger_funds (ledger B db') = ledger_funds (ledger B db) + unat d"
  by (rule distribute_runs [OF assms(3-5)];
      use assms(2) credits.credits_run [OF assms(1,2)] in \<open>auto simp: rewards_sum\<close>)+

lemma validators_le_accounts:
  assumes "backend_ok B" "db_ok B db" "get_validators B db = Inr vs"
  shows "length vs \<le> card (dom (ledger B db))"
proof -
  have "distinct (map acc_address vs)"
    using get_validators_ledger(2) [OF assms] by (simp add: strict_sorted_iff)
  then have "length vs = card (set (map acc_address vs))" using distinct_card by fastforce
  also have "set (map acc_address vs) \<subseteq> dom (ledger B db)"
    using assms(2) by (auto simp: get_validators_ledger(1) [OF assms] db_ok_def ledger_ok_def account_ok_def)
  then have "card (set (map acc_address vs)) \<le> card (dom (ledger B db))"
    by (rule card_mono [OF finite_ledger [OF assms(1)]])
  finally show ?thesis .
qed

section \<open>The rewards of an epoch\<close>

lemma write_closed_dom:
  assumes "backend_ok B" "K \<subseteq> D"
  shows "write_closed B K (\<lambda>db. db_ok B db \<and> dom (ledger B db) \<subseteq> D)"
proof -
  have "dom (ledger B (snd (save_account B db a))) \<subseteq> D"
    if "dom (ledger B db) \<subseteq> D" "acc_address a \<in> K" for db a
    using save_account_atomic [OF assms(1), of db a] that assms(2)
    by (elim disjE) (simp_all add: subset_iff)
  then show ?thesis by (simp add: write_closed_def save_account_db_ok assms(1))
qed

lemma apply_coinbase_closed:
  assumes "backend_ok B" "write_closed B K P" "P db" "tx_receiver cb \<in> K"
  shows "P (snd (apply_coinbase B db cb share))"
  unfolding apply_coinbase_def
  using assms(3) credit_account_closed [OF assms(1,2) _ assms(4)]
  by (auto intro!: st_bind_closed [where P = P])

lemma distribute_total:
  assumes "distribute_validator_rewards B db T = (Inr d, db')"
  shows "T = 0 \<and> d = 0 \<and> db' = db \<or> (\<exists>vs. get_validators B db = Inr vs)"
  using assms
  by (auto simp: distribute_validator_rewards_def get_active_validator_set_def elim!: read_bind_InrE split: if_splits)

text \<open>The coinbase amount and the whole validator share of the fees enter the ledger, whoever
  gets them.\<close>

lemma apply_epoch_rewards_funds:
  assumes "backend_ok B" "db_ok B db" "card (dom (ledger B db)) + 1 < 2 ^ 64"
    and "apply_epoch_rewards B db cb fees = (Inr (), db')"
  shows "ledger_funds (ledger B db')
    = ledger_funds (ledger B db) + unat (tx_amount cb) + unat (calculate_validator_fee_share fees)"
proof -
  let ?T = "calculate_validator_fee_share fees"
  obtain db1 d db2 where cb: "apply_coinbase B db cb 0 = (Inr (), db1)"
    and dist: "distribute_validator_rewards B db1 ?T = (Inr d, db2)"
    and rest: "(if 0 < saturating_sub ?T d then credit_account B db2 treasury_address (saturating_sub ?T d)
      else (Inr (), db2)) = (Inr (), db')"
    using assms(4) unfolding apply_epoch_rewards_def Let_def by (auto elim!: st_bind_InrE)
  note pays = apply_coinbase_pays [OF assms(1,2) cb]
  have "db_ok B (snd (apply_coinbase B db cb 0))
      \<and> dom (ledger B (snd (apply_coinbase B db cb 0))) \<subseteq> insert (tx_receiver cb) (dom (ledger B db))"
    by (rule apply_coinbase_closed [OF assms(1) write_closed_dom [OF assms(1)], of "{tx_receiver cb}"])
      (use assms(2) in auto)
  then have "dom (ledger B db1) \<subseteq> insert (tx_receiver cb) (dom (ledger B db))" by (simp add: cb)
  then have "card (dom (ledger B db1)) \<le> card (insert (tx_receiver cb) (dom (ledger B db)))"
    by (intro card_mono) (simp_all add: finite_ledger assms(1))
  also have "\<dots> \<le> card (dom (ledger B db)) + 1"
    using card_insert_le_m1 [of _ "dom (ledger B db)"] finite_ledger [OF assms(1), of db]
    by (simp add: card_insert_if)
  finally have "card (dom (ledger B db1)) < 2 ^ 64" using assms(3) by simp
  then have len: "length vs < 2 ^ 64" if "get_validators B db1 = Inr vs" for vs
    using validators_le_accounts [OF assms(1) pays(2) that] by simp
  have d: "db_ok B db2 \<and> d \<le> ?T \<and> ledger_funds (ledger B db2) = ledger_funds (ledger B db1) + unat d"
    using distribute_total [OF dist] pays(2)
  proof (elim disjE exE)
    fix vs assume vs: "get_validators B db1 = Inr vs"
    show ?thesis using distribute_ledger [OF assms(1) pays(2) vs len [OF vs] dist] by blast
  qed auto
  have "ledger_funds (ledger B db') = ledger_funds (ledger B db2) + unat (saturating_sub ?T d)"
  proof (cases "0 < saturating_sub ?T d")
    case True
    with rest have "credit_account B db2 treasury_address (saturating_sub ?T d) = (Inr (), db')" by simp
    then show ?thesis using credits.credit_funds [OF assms(1)] d by blast
  next
    case False
    then have "unat (saturating_sub ?T d) = 0" by (simp add: word_less_nat_alt unat_eq_0)
    moreover have "db' = db2" using rest False by simp
    ultimately show ?thesis by simp
  qed
  moreover have "unat (saturating_sub ?T d) = unat ?T - unat d" by (rule unat_saturating_sub)
  moreover have "unat d \<le> unat ?T" using d by (simp add: word_le_nat_alt)
  ultimately show ?thesis using d pays(3) by simp
qed

section \<open>Slashing\<close>

lemma unat_slash_amount:
  "unat (slash_amount_of s bps) = min (unat s * unat bps) (2 ^ 64 - 1) div 10000"
  by (simp add: slash_amount_of_def unat_div unat_saturating_mul)

lemma slash_amount_exact:
  "unat s * unat bps < 2 ^ 64 \<Longrightarrow> unat (slash_amount_of s bps) = unat s * unat bps div 10000"
  by (simp add: unat_slash_amount min_def)

lemma slash_amount_le:
  assumes "unat bps \<le> 10000"
  shows "slash_amount_of s bps \<le> s"
proof -
  have "min (unat s * unat bps) (2 ^ 64 - 1) \<le> unat s * 10000"
    using assms by (intro order.trans [OF min.cobounded1]) simp
  then have "min (unat s * unat bps) (2 ^ 64 - 1) div 10000 \<le> unat s * 10000 div 10000" by (rule div_le_mono)
  then show ?thesis by (simp add: word_le_nat_alt unat_slash_amount)
qed

text \<open>The amount moves from the stake to the treasury. Nothing bounds the basis points: an amount above
  the stake makes it underflow, and the ledger holds \<open>2 ^ 64\<close> units more.\<close>

lemma slash_validator_ledger:
  assumes "backend_ok B" "db_ok B db" "slash_validator B db k bps = (Inr r, db')"
  defines "a \<equiv> account_at (ledger B db) k"
  shows "ledger B db k = Some a" "acc_staked a \<noteq> 0" "r = slash_amount_of (acc_staked a) bps" "db_ok B db'"
    and "ledger_funds (ledger B db') = ledger_funds (ledger B db) + (if r \<le> acc_staked a then 0 else 2 ^ 64)"
    and "acc_staked (account_at (ledger B db') k) = acc_staked a - r"
    and "acc_tier (account_at (ledger B db') k) = from_staked_balance (acc_staked a - r)"
proof -
  let ?x = "slash_amount_of (acc_staked a) bps"
  obtain found where f: "get_account B db k = Inr found" "found \<noteq> None"
    using assms(3) unfolding slash_validator_def by (auto elim!: read_bind_InrE)
  have "found = ledger B db k" by (rule get_account_ledger [OF assms(1) f(1)])
  then show led: "ledger B db k = Some a" using f(2) by (auto simp: a_def)
  then have get: "get_account B db k = Inr (Some a)" using f by (simp add: \<open>found = ledger B db k\<close>)
  show ne: "acc_staked a \<noteq> 0" using assms(3) get by (auto simp: slash_validator_def split: if_splits)
  have run: "(if ?x = 0 then (Inr 0, db)
      else st_bind (save_account B db (update_validator_tier (a\<lparr>acc_staked := acc_staked a - ?x\<rparr>))) (\<lambda>_ db.
        st_bind (credit_account B db treasury_address ?x) (\<lambda>_ db. (Inr ?x, db)))) = (Inr r, db')"
    using assms(3) get ne by (simp add: slash_validator_def Let_def)
  have aok: "account_ok k a" using db_ok_at(1) [OF assms(2), of k] by (simp add: a_def)
  let ?gain = "if ?x \<le> acc_staked a then 0 else 2 ^ 64"
  have goal: "r = ?x \<and> db_ok B db' \<and> ledger_funds (ledger B db') = ledger_funds (ledger B db) + ?gain
    \<and> acc_staked (account_at (ledger B db') k) = acc_staked a - ?x
    \<and> acc_tier (account_at (ledger B db') k) = from_staked_balance (acc_staked a - ?x)"
  proof (cases "?x = 0")
    case True
    then have "r = 0" "db' = db" using run by auto
    moreover have "account_at (ledger B db) k = a" by (simp add: a_def)
    ultimately show ?thesis using True assms(2) aok by (simp add: account_ok_def)
  next
    case False
    let ?a' = "update_validator_tier (a\<lparr>acc_staked := acc_staked a - ?x\<rparr>)"
    obtain u db1 where s: "save_account B db ?a' = (Inr u, db1)"
      and c: "credit_account B db1 treasury_address ?x = (Inr (), db')" and r: "r = ?x"
      using run False by (auto elim!: st_bind_InrE)
    have l1: "ledger B db1 = (ledger B db)(k \<mapsto> ?a')"
      using save_account_ledger(1) [OF assms(1) s] aok by (simp add: account_ok_def)
    have ok1: "db_ok B db1" using assms(2) aok by (simp add: db_ok_def l1 ledger_ok_upd account_ok_def)
    have "db_ok B db'" using credit_account_db_ok [OF assms(1) ok1, of treasury_address ?x] c by simp
    moreover have "ledger_funds (ledger B db1) + unat ?x = ledger_funds (ledger B db) + ?gain"
      using ledger_funds_upd [OF finite_ledger [OF assms(1)], of db k ?a'] unat_sub_plus [of "acc_staked a" ?x]
      by (simp add: l1 account_funds_def flip: a_def split: if_splits)
    moreover have "ledger_funds (ledger B db') = ledger_funds (ledger B db1) + unat ?x"
      by (rule credits.credit_funds [OF assms(1) ok1 c])
    moreover have "acc_staked (account_at (ledger B db') k) = acc_staked a - ?x"
      using credits.credit_staked [OF assms(1) ok1 c, of k] by (simp add: l1)
    moreover from this have "acc_tier (account_at (ledger B db') k) = from_staked_balance (acc_staked a - ?x)"
      using db_ok_at(1) [OF \<open>db_ok B db'\<close>, of k] by (simp add: account_ok_def)
    ultimately show ?thesis using r by simp
  qed
  then show "r = slash_amount_of (acc_staked a) bps" "db_ok B db'"
    "ledger_funds (ledger B db') = ledger_funds (ledger B db) + (if r \<le> acc_staked a then 0 else 2 ^ 64)"
    "acc_staked (account_at (ledger B db') k) = acc_staked a - r"
    "acc_tier (account_at (ledger B db') k) = from_staked_balance (acc_staked a - r)" by simp_all
qed

lemma slash_validator_funds:
  assumes "backend_ok B" "db_ok B db" "slash_validator B db k bps = (Inr r, db')" "unat bps \<le> 10000"
  shows "ledger_funds (ledger B db') = ledger_funds (ledger B db)"
  using slash_validator_ledger(3,5) [OF assms(1-3)] slash_amount_le [OF assms(4)] by simp

text \<open>Ten percent of a stake of 25 million KYV is 2.5 million; the saturated product takes
  1.8 million.\<close>

lemma major_slash_saturates: "slash_amount_of 25000000000000000 major_slash_bps = 1844674407370955"
  by (simp add: word_unat_eq_iff unat_slash_amount major_slash_bps_def)

end
