(* ===== verification/Staking.thy ===== *)
theory Staking
  imports Validators
begin

text \<open>
  The unbonding queue, \<open>src/src/consensus/staking.rs\<close>. A withdrawal leaves the stake at once,
  waits in the metadata tree and is credited when its epoch has come. The abstract view is
  the map of pending entries; the lemmas show that the funds of the ledger and of the queue
  together are kept, except that a second request of one address in one epoch overwrites the
  first one's entry, that processing releases exactly the matured entries, and that stake in
  the queue is out of reach of slashing.
\<close>

section \<open>The operations\<close>

definition unbonding_period_epochs :: u64 where "unbonding_period_epochs = 10"
definition pending_unstake_prefix :: string where "pending_unstake_prefix = ''pending_unstake:''"

definition pending_key :: "pending_unstake \<Rightarrow> bytes" where
  "pending_key p = pending_unstake_prefix @ pad20 (pu_unlock_epoch p) @ '':'' @ pu_address p
     @ '':'' @ pad20 (pu_request_epoch p)"

definition save_pending_unstake ::
  "'t backend \<Rightarrow> 't kyvera_db \<Rightarrow> pending_unstake \<Rightarrow> (string + unit) \<times> 't kyvera_db" where
  "save_pending_unstake B db p =
     read_bind db (map_err (\<lambda>e. ''Failed to serialize pending unstake: '' @ e) (to_vec (pending_json B) p)) (\<lambda>bs.
     set_metadata B db (pending_key p) bs)"

definition request_unstake ::
  "'t backend \<Rightarrow> 't kyvera_db \<Rightarrow> string \<Rightarrow> u64 \<Rightarrow> u64 \<Rightarrow> (string + pending_unstake) \<times> 't kyvera_db" where
  "request_unstake B db address amount current_epoch =
     read_bind db (get_account B db address) (\<lambda>found.
     read_bind db (ok_or found (''No account found for '' @ address)) (\<lambda>a.
     if acc_staked a < amount then
       (Inl (''Insufficient staked balance: has '' @ u64_to_string (acc_staked a) @ '' needs ''
             @ u64_to_string amount), db)
     else
       st_bind (save_account B db (update_validator_tier (a\<lparr>acc_staked := acc_staked a - amount\<rparr>))) (\<lambda>_ db.
       let unlock_epoch = current_epoch + unbonding_period_epochs;
           pending = \<lparr>pu_address = address, pu_amount = amount, pu_request_epoch = current_epoch,
             pu_unlock_epoch = unlock_epoch\<rparr>
       in st_bind (save_pending_unstake B db pending) (\<lambda>_ db. (Inr pending, db)))))"

fun collect_pending :: "'t backend \<Rightarrow> (string + bytes \<times> bytes) list \<Rightarrow> string + pending_unstake list" where
  "collect_pending B [] = Inr []"
| "collect_pending B (r # rs) =
     res_bind (map_err (\<lambda>e. ''Scan error: '' @ e) r) (\<lambda>(_, v).
     res_bind (map_err (\<lambda>e. ''Deserialize error: '' @ e) (from_slice (pending_json B) v)) (\<lambda>p.
     res_bind (collect_pending B rs) (\<lambda>ps. Inr (p # ps))))"

definition get_pending_unstakes :: "'t backend \<Rightarrow> 't kyvera_db \<Rightarrow> string \<Rightarrow> string + pending_unstake list" where
  "get_pending_unstakes B db address =
     res_bind (collect_pending B (sled_scan_prefix B (db_metadata db) pending_unstake_prefix)) (\<lambda>ps.
     Inr (filter (\<lambda>p. pu_address p = address) ps))"

fun release_loop ::
  "'t backend \<Rightarrow> u64 \<Rightarrow> 't kyvera_db \<Rightarrow> u64 \<Rightarrow> bytes list \<Rightarrow> (string + bytes \<times> bytes) list
     \<Rightarrow> (string + u64 \<times> bytes list) \<times> 't kyvera_db" where
  "release_loop B now db processed ks [] = (Inr (processed, ks), db)"
| "release_loop B now db processed ks (r # rs) =
     read_bind db (map_err (\<lambda>e. ''Scan error: '' @ e) r) (\<lambda>(k, v).
     read_bind db (map_err (\<lambda>e. ''Deserialize error: '' @ e) (from_slice (pending_json B) v)) (\<lambda>p.
     if pu_unlock_epoch p \<le> now then
       st_bind (credit_account B db (pu_address p) (pu_amount p)) (\<lambda>_ db.
       release_loop B now db (saturating_add processed (pu_amount p)) (ks @ [k]) rs)
     else release_loop B now db processed ks rs))"

definition remove_pending :: "'t backend \<Rightarrow> 't kyvera_db \<Rightarrow> bytes \<Rightarrow> (string + unit) \<times> 't kyvera_db" where
  "remove_pending B db k =
     on_metadata db (case sled_remove B (db_metadata db) k of (r, t) \<Rightarrow>
       (map_err (\<lambda>e. ''Failed to remove pending unstake entry: '' @ e) (res_bind r (\<lambda>_. Inr ())), t))"

definition process_matured_unstakes ::
  "'t backend \<Rightarrow> 't kyvera_db \<Rightarrow> u64 \<Rightarrow> (string + u64) \<times> 't kyvera_db" where
  "process_matured_unstakes B db current_epoch =
     st_bind (release_loop B current_epoch db 0 []
       (sled_scan_prefix B (db_metadata db) pending_unstake_prefix)) (\<lambda>(processed, ks) db.
     st_bind (run_all (remove_pending B) db ks) (\<lambda>_ db. (Inr processed, db)))"

section \<open>The queue\<close>

definition queue :: "'t backend \<Rightarrow> 't kyvera_db \<Rightarrow> bytes \<Rightarrow> pending_unstake option" where
  "queue B db k = (if starts_with pending_unstake_prefix k
     then Option.bind (metadata B db k) (decode_entry (pending_json B)) else None)"

definition queue_funds :: "'t backend \<Rightarrow> 't kyvera_db \<Rightarrow> nat" where
  "queue_funds B db = map_total (\<lambda>p. unat (pu_amount p)) (queue B db)"

definition all_funds :: "'t backend \<Rightarrow> 't kyvera_db \<Rightarrow> nat" where
  "all_funds B db = ledger_funds (ledger B db) + queue_funds B db"

lemma pending_key_prefix [simp]: "starts_with pending_unstake_prefix (pending_key p)"
  by (simp add: pending_key_def)

text \<open>Keys sort by unlock epoch, and tell apart what differs in epoch or address.\<close>

lemma pending_key_order:
  "pu_unlock_epoch p < pu_unlock_epoch q \<Longrightarrow> pending_key p < pending_key q"
proof -
  have app: "a @ b < a @ c \<longleftrightarrow> b < c" for a b c :: string by (induction a) simp_all
  have "x < y \<Longrightarrow> length x = length y \<Longrightarrow> x @ b < y @ c" for x y b c :: string
    by (induction x y rule: list_induct2') auto
  then show "pu_unlock_epoch p < pu_unlock_epoch q \<Longrightarrow> pending_key p < pending_key q"
    by (simp add: pending_key_def app pad20_less_iff)
qed

lemma pending_key_eq:
  "pending_key p = pending_key q \<longleftrightarrow> pu_unlock_epoch p = pu_unlock_epoch q
     \<and> pu_address p = pu_address q \<and> pu_request_epoch p = pu_request_epoch q"
proof
  assume "pending_key p = pending_key q"
  then have e: "pad20 (pu_unlock_epoch p) = pad20 (pu_unlock_epoch q)"
    and r: "pu_address p @ '':'' @ pad20 (pu_request_epoch p) = pu_address q @ '':'' @ pad20 (pu_request_epoch q)"
    by (simp_all add: pending_key_def)
  from r have "(pu_address p @ '':'') @ pad20 (pu_request_epoch p) = (pu_address q @ '':'') @ pad20 (pu_request_epoch q)"
    by simp
  then have "pu_address p @ '':'' = pu_address q @ '':''" "pad20 (pu_request_epoch p) = pad20 (pu_request_epoch q)"
    by (metis append_eq_append_conv length_pad20)+
  with e show "pu_unlock_epoch p = pu_unlock_epoch q
     \<and> pu_address p = pu_address q \<and> pu_request_epoch p = pu_request_epoch q" by simp
qed (simp add: pending_key_def)

lemma finite_queue: "backend_ok B \<Longrightarrow> finite (dom (queue B db))"
  by (rule finite_subset [OF _ sled_finite [of B "db_metadata db"]])
    (auto simp: queue_def metadata_def backend_okD bind_eq_Some_conv split: if_splits)

lemma queue_cong: "db_metadata db' = db_metadata db \<Longrightarrow> queue B db' = queue B db"
  by (simp add: queue_def metadata_def fun_eq_iff)

lemma save_pending_queue:
  assumes "backend_ok B" "save_pending_unstake B db p = (Inr u, db')"
  shows "queue B db' = (queue B db)(pending_key p \<mapsto> p)" "ledger B db' = ledger B db"
proof -
  obtain bs where bs: "to_vec (pending_json B) p = Inr bs" and s: "set_metadata B db (pending_key p) bs = (Inr u, db')"
    using assms(2) unfolding save_pending_unstake_def by (auto elim!: read_bind_InrE)
  show "queue B db' = (queue B db)(pending_key p \<mapsto> p)"
    using set_metadata_view [OF backend_okD(1) [OF assms(1)] s] to_vec_decode [OF backend_okD(7) [OF assms(1)] bs]
    by (auto simp: queue_def fun_eq_iff)
  show "ledger B db' = ledger B db" by (rule set_metadata_ledger(2) [OF s])
qed

section \<open>Requests\<close>

lemma request_unstake_ledger:
  assumes "backend_ok B" "db_ok B db" "request_unstake B db k amt e = (Inr p, db')"
  defines "a \<equiv> account_at (ledger B db) k"
  shows "ledger B db k = Some a" "amt \<le> acc_staked a"
    and "p = \<lparr>pu_address = k, pu_amount = amt, pu_request_epoch = e, pu_unlock_epoch = e + 10\<rparr>"
    and "ledger B db' = (ledger B db)(k \<mapsto> update_validator_tier (a\<lparr>acc_staked := acc_staked a - amt\<rparr>))"
    and "queue B db' = (queue B db)(pending_key p \<mapsto> p)" and "db_ok B db'"
proof -
  obtain found where f: "get_account B db k = Inr found" "found \<noteq> None"
    using assms(3) unfolding request_unstake_def by (auto elim!: read_bind_InrE)
  have "found = ledger B db k" by (rule get_account_ledger [OF assms(1) f(1)])
  then show led: "ledger B db k = Some a" using f(2) by (auto simp: a_def)
  then have get: "get_account B db k = Inr (Some a)" using f by (simp add: \<open>found = ledger B db k\<close>)
  let ?a' = "update_validator_tier (a\<lparr>acc_staked := acc_staked a - amt\<rparr>)"
  let ?p = "\<lparr>pu_address = k, pu_amount = amt, pu_request_epoch = e, pu_unlock_epoch = e + 10\<rparr>"
  show le: "amt \<le> acc_staked a"
    using assms(3) get by (auto simp: request_unstake_def split: if_splits)
  then obtain u db1 v where s: "save_account B db ?a' = (Inr u, db1)"
    and sp: "save_pending_unstake B db1 ?p = (Inr v, db')" and p: "p = ?p"
    using assms(3) get by (auto simp: request_unstake_def Let_def unbonding_period_epochs_def elim!: st_bind_InrE split: if_splits)
  show "p = ?p" by (rule p)
  have aok: "account_ok k a" using db_ok_at(1) [OF assms(2), of k] by (simp add: a_def)
  have l1: "ledger B db1 = (ledger B db)(k \<mapsto> ?a')"
    using save_account_ledger(1) [OF assms(1) s] aok by (simp add: account_ok_def)
  then show l: "ledger B db' = (ledger B db)(k \<mapsto> ?a')"
    using save_pending_queue(2) [OF assms(1) sp] by simp
  have "queue B db1 = queue B db"
    using save_account_ledger(2) [OF assms(1) s] by (intro queue_cong) (rule same_but_accounts_fields)
  then show "queue B db' = (queue B db)(pending_key p \<mapsto> p)"
    using save_pending_queue(1) [OF assms(1) sp] by (simp add: p)
  show "db_ok B db'" using assms(2) aok by (simp add: db_ok_def l ledger_ok_upd account_ok_def)
qed

text \<open>Nothing is gained or lost, except for an entry the key already had.\<close>

lemma request_unstake_funds:
  assumes "backend_ok B" "db_ok B db" "request_unstake B db k amt e = (Inr p, db')"
  shows "all_funds B db' + opt_total (\<lambda>p. unat (pu_amount p)) (queue B db (pending_key p)) = all_funds B db"
proof -
  let ?a = "account_at (ledger B db) k"
  note r = request_unstake_ledger [OF assms]
  have "unat (acc_staked ?a - amt) + unat amt = unat (acc_staked ?a)"
    using r(2) by (simp add: unat_sub_le word_le_nat_alt)
  then have "account_funds (update_validator_tier (?a\<lparr>acc_staked := acc_staked ?a - amt\<rparr>)) + unat amt
      = account_funds ?a"
    by (simp add: account_funds_def)
  then have "ledger_funds (ledger B db') + unat amt = ledger_funds (ledger B db)"
    using ledger_funds_upd [OF finite_ledger [OF assms(1)], of db k
        "update_validator_tier (?a\<lparr>acc_staked := acc_staked ?a - amt\<rparr>)"]
    by (simp add: r(4))
  moreover have "queue_funds B db' + opt_total (\<lambda>p. unat (pu_amount p)) (queue B db (pending_key p))
      = queue_funds B db + unat amt"
    using map_total_change [OF finite_queue [OF assms(1)], of "\<lambda>p. unat (pu_amount p)" db "pending_key p" "Some p"]
    by (simp add: queue_funds_def r(5)) (simp add: r(3))
  ultimately show ?thesis by (simp add: all_funds_def)
qed

text \<open>Two requests of one address in one epoch have one key: the second replaces the first.\<close>

lemma second_request_overwrites:
  assumes "backend_ok B" "db_ok B db"
    and "request_unstake B db k amt1 e = (Inr p1, db1)" "request_unstake B db1 k amt2 e = (Inr p2, db2)"
  shows "queue B db2 = (queue B db)(pending_key p1 \<mapsto> p2)" "pu_amount p2 = amt2"
    and "all_funds B db2 + unat amt1 = all_funds B db1"
proof -
  note r1 = request_unstake_ledger [OF assms(1-3)]
  note r2 = request_unstake_ledger [OF assms(1) r1(6) assms(4)]
  have key: "pending_key p1 = pending_key p2" by (simp add: pending_key_eq r1(3) r2(3))
  then show "queue B db2 = (queue B db)(pending_key p1 \<mapsto> p2)" by (simp add: r1(5) r2(5))
  show "pu_amount p2 = amt2" by (simp add: r2(3))
  have "queue B db1 (pending_key p2) = Some p1" by (simp add: r1(5) key)
  then show "all_funds B db2 + unat amt1 = all_funds B db1"
    using request_unstake_funds [OF assms(1) r1(6) assms(4)] by (simp add: r1(3))
qed

text \<open>Stake in the queue cannot be slashed: after a request of the whole stake there is
  nothing left to take.\<close>

lemma unbonding_escapes_slashing:
  assumes "backend_ok B" "db_ok B db"
    and "request_unstake B db k (acc_staked (account_at (ledger B db) k)) e = (Inr p, db')"
  shows "\<exists>err. slash_validator B db' k bps = (Inl err, db')"
proof -
  note r = request_unstake_ledger [OF assms]
  have staked: "acc_staked (account_at (ledger B db') k) = 0" by (simp add: r(4) account_at_upd)
  show ?thesis
  proof (cases "get_account B db' k")
    case (Inl err)
    then show ?thesis by (simp add: slash_validator_def)
  next
    case (Inr found)
    then have "found = Some (account_at (ledger B db') k)"
      using get_account_ledger [OF assms(1) Inr] by (simp add: r(4) account_at_upd)
    with Inr staked show ?thesis by (simp add: slash_validator_def)
  qed
qed

section \<open>Processing\<close>

definition entries :: "'t backend \<Rightarrow> (bytes \<times> bytes) list \<Rightarrow> (bytes \<times> pending_unstake) list" where
  "entries B kvs = map (\<lambda>(k, v). (k, the (decode_entry (pending_json B) v))) kvs"

definition matured :: "u64 \<Rightarrow> (bytes \<times> pending_unstake) list \<Rightarrow> (bytes \<times> pending_unstake) list" where
  "matured now kps = filter (\<lambda>kp. pu_unlock_epoch (snd kp) \<le> now) kps"

lemma release_loop_Inr:
  assumes "release_loop B now db n ks rs = (Inr (n', ks'), db')"
  obtains kvs where "rs = map Inr kvs" "\<forall>(k, v) \<in> set kvs. decode_entry (pending_json B) v \<noteq> None"
    "ks' = ks @ map fst (matured now (entries B kvs))"
    "run_all (\<lambda>db p. credit_account B db (fst p) (snd p)) db
       (map (\<lambda>kp. (pu_address (snd kp), pu_amount (snd kp))) (matured now (entries B kvs))) = (Inr (), db')"
    "unat n' = min (unat n + (\<Sum>kp\<leftarrow>matured now (entries B kvs). unat (pu_amount (snd kp)))) (2 ^ 64 - 1)"
  using assms
proof (induction rs arbitrary: db n ks thesis)
  case Nil
  have "unat n \<le> 2 ^ 64 - 1" using u64_le [of n] by simp
  with Nil(2) show ?case by (intro Nil(1) [of "[]"]) (auto simp: entries_def matured_def min_def)
next
  case (Cons r rs)
  obtain k v p where r: "r = Inr (k, v)" and p: "from_slice (pending_json B) v = Inr p"
    using Cons.prems(2) by (auto elim!: read_bind_InrE)
  have dec: "decode_entry (pending_json B) v = Some p" using p by (simp add: decode_entry_Some)
  show ?case
  proof (cases "pu_unlock_epoch p \<le> now")
    case True
    obtain u db1 where c: "credit_account B db (pu_address p) (pu_amount p) = (Inr u, db1)"
      and l: "release_loop B now db1 (saturating_add n (pu_amount p)) (ks @ [k]) rs = (Inr (n', ks'), db')"
      using Cons.prems(2) True by (auto simp: r p elim: st_bind_InrE)
    show ?thesis
    proof (rule Cons.IH [OF _ l])
      fix kvs assume "rs = map Inr kvs" "\<forall>(k, v) \<in> set kvs. decode_entry (pending_json B) v \<noteq> None"
        "ks' = (ks @ [k]) @ map fst (matured now (entries B kvs))"
        "run_all (\<lambda>db p. credit_account B db (fst p) (snd p)) db1
          (map (\<lambda>kp. (pu_address (snd kp), pu_amount (snd kp))) (matured now (entries B kvs))) = (Inr (), db')"
        "unat n' = min (unat (saturating_add n (pu_amount p))
          + (\<Sum>kp\<leftarrow>matured now (entries B kvs). unat (pu_amount (snd kp)))) (2 ^ 64 - 1)"
      then show ?thesis
        using c True by (intro Cons.prems(1) [of "(k, v) # kvs"])
          (simp_all add: r dec entries_def matured_def unat_saturating_add)
    qed
  next
    case False
    then have l: "release_loop B now db n ks rs = (Inr (n', ks'), db')" using Cons.prems(2) by (simp add: r p)
    show ?thesis
    proof (rule Cons.IH [OF _ l])
      fix kvs assume "rs = map Inr kvs" "\<forall>(k, v) \<in> set kvs. decode_entry (pending_json B) v \<noteq> None"
        "ks' = ks @ map fst (matured now (entries B kvs))"
        "run_all (\<lambda>db p. credit_account B db (fst p) (snd p)) db
          (map (\<lambda>kp. (pu_address (snd kp), pu_amount (snd kp))) (matured now (entries B kvs))) = (Inr (), db')"
        "unat n' = min (unat n + (\<Sum>kp\<leftarrow>matured now (entries B kvs). unat (pu_amount (snd kp)))) (2 ^ 64 - 1)"
      then show ?thesis
        using False by (intro Cons.prems(1) [of "(k, v) # kvs"]) (simp_all add: r dec entries_def matured_def)
    qed
  qed
qed

lemma remove_pending_metadata:
  assumes "sled_ok B" "remove_pending B db k = (Inr u, db')"
  shows "metadata B db' = (metadata B db)(k := None)" "ledger B db' = ledger B db"
proof -
  obtain r t where "sled_remove B (db_metadata db) k = (Inr r, t)" "db' = db\<lparr>db_metadata := t\<rparr>"
    using assms(2) by (cases "sled_remove B (db_metadata db) k"; cases "fst (sled_remove B (db_metadata db) k)")
      (auto simp: remove_pending_def)
  then show "metadata B db' = (metadata B db)(k := None)" "ledger B db' = ledger B db"
    using sled_remove_contents [OF assms(1)] by (simp_all add: metadata_def)
qed

lemma remove_all_metadata:
  assumes "sled_ok B"
  shows "run_all (remove_pending B) db ks = (Inr u, db') \<Longrightarrow>
    metadata B db' = metadata B db |` (- set ks) \<and> ledger B db' = ledger B db"
proof (induction ks arbitrary: db)
  case Nil
  then show ?case by (simp add: restrict_map_def)
next
  case (Cons k ks)
  obtain v db1 where s: "remove_pending B db k = (Inr v, db1)" and r: "run_all (remove_pending B) db1 ks = (Inr u, db')"
    using Cons.prems by (auto elim: st_bind_InrE)
  from Cons.IH [OF r] remove_pending_metadata [OF assms s] show ?case
    by (auto simp: restrict_map_def fun_eq_iff)
qed

text \<open>The listing of the queue.\<close>

lemma entries_queue:
  assumes "lists_map kvs (metadata B db |` {k. starts_with pending_unstake_prefix k})"
    and "\<forall>(k, v) \<in> set kvs. decode_entry (pending_json B) v \<noteq> None"
  shows "map_of (entries B kvs) = queue B db" "distinct (map fst (entries B kvs))"
proof -
  have keys: "map fst (entries B kvs) = map fst kvs" by (simp add: entries_def comp_def case_prod_beta)
  show d: "distinct (map fst (entries B kvs))" using lists_map_distinct [OF assms(1)] keys by simp
  show "map_of (entries B kvs) = queue B db"
  proof
    fix k
    have split: "map_of (entries B kvs) k = map_option (\<lambda>v. the (decode_entry (pending_json B) v)) (map_of kvs k)"
      by (simp add: entries_def map_of_map)
    have kvs: "map_of kvs k = (if starts_with pending_unstake_prefix k then metadata B db k else None)"
      using assms(1) by (simp add: lists_map_def restrict_map_def)
    show "map_of (entries B kvs) k = queue B db k"
    proof (cases "map_of kvs k")
      case None
      then show ?thesis using split kvs by (auto simp: queue_def split: if_splits)
    next
      case (Some v)
      then have "(k, v) \<in> set kvs" by (rule map_of_SomeD)
      then have "decode_entry (pending_json B) v \<noteq> None" using assms(2) by auto
      with Some split kvs show ?thesis by (auto simp: queue_def split: if_splits)
    qed
  qed
qed

definition is_matured :: "u64 \<Rightarrow> pending_unstake \<Rightarrow> bool" where
  "is_matured now p \<longleftrightarrow> pu_unlock_epoch p \<le> now"

lemma sum_list_filter_if: "(\<Sum>x\<leftarrow>filter P xs. f x) = (\<Sum>x\<leftarrow>xs. if P x then f x else (0 :: nat))"
  by (induction xs) auto

lemma process_matured_result:
  assumes "backend_ok B" "db_ok B db" "process_matured_unstakes B db now = (Inr n, db')"
  shows "queue B db' k = (case queue B db k of Some p \<Rightarrow> if is_matured now p then None else Some p | None \<Rightarrow> None)"
    and "unat (acc_balance (account_at (ledger B db') j)) = unat (acc_balance (account_at (ledger B db) j))
      + map_total (\<lambda>p. if is_matured now p \<and> pu_address p = j then unat (pu_amount p) else 0) (queue B db)"
    and "ledger_funds (ledger B db') = ledger_funds (ledger B db)
      + map_total (\<lambda>p. if is_matured now p then unat (pu_amount p) else 0) (queue B db)"
    and "unat n = min (map_total (\<lambda>p. if is_matured now p then unat (pu_amount p) else 0) (queue B db)) (2 ^ 64 - 1)"
    and "acc_staked (account_at (ledger B db') j) = acc_staked (account_at (ledger B db) j)" and "db_ok B db'"
proof -
  note sok = backend_okD(1) [OF assms(1)]
  let ?credit = "\<lambda>db p. credit_account B db (fst p) (snd p)"
  obtain ks db1 u where loop: "release_loop B now db 0 []
      (sled_scan_prefix B (db_metadata db) pending_unstake_prefix) = (Inr (n, ks), db1)"
    and rm: "run_all (remove_pending B) db1 ks = (Inr u, db')"
    using assms(3) unfolding process_matured_unstakes_def by (auto elim!: st_bind_InrE)
  obtain kvs where scan: "sled_scan_prefix B (db_metadata db) pending_unstake_prefix = map Inr kvs"
    and dec: "\<forall>(k, v) \<in> set kvs. decode_entry (pending_json B) v \<noteq> None"
    and ks: "ks = map fst (matured now (entries B kvs))"
    and run: "run_all ?credit db
       (map (\<lambda>kp. (pu_address (snd kp), pu_amount (snd kp))) (matured now (entries B kvs))) = (Inr (), db1)"
    and n: "unat n = min (\<Sum>kp\<leftarrow>matured now (entries B kvs). unat (pu_amount (snd kp))) (2 ^ 64 - 1)"
    by (rule release_loop_Inr [OF loop]) (rule that, simp_all)
  have lm: "lists_map kvs (metadata B db |` {k. starts_with pending_unstake_prefix k})"
    using sled_scan_contents [OF sok scan] by (simp add: metadata_def)
  note q = entries_queue [OF lm dec]
  have totals: "(\<Sum>kp\<leftarrow>entries B kvs. f (snd kp)) = map_total f (queue B db)" for f
    using map_total_list [OF q(2), of f] by (simp add: q(1))
  note cr = credits.credits_run [OF assms(1,2) run]
  have "db_ok B db1 \<and> same_but_accounts db db1"
  proof -
    have "db_ok B (snd (run_all ?credit db (map (\<lambda>kp. (pu_address (snd kp), pu_amount (snd kp))) (matured now (entries B kvs)))))
        \<and> same_but_accounts db (snd (run_all ?credit db (map (\<lambda>kp. (pu_address (snd kp), pu_amount (snd kp))) (matured now (entries B kvs)))))"
      by (rule run_all_invariant [where P = "\<lambda>s. db_ok B s \<and> same_but_accounts db s"],
          rule credit_account_closed [OF assms(1) write_closed_frame [OF assms(1), of UNIV]]) (use assms(2) in simp_all)
    then show ?thesis by (simp add: run)
  qed
  then have "db_metadata db1 = db_metadata db" by (intro same_but_accounts_fields(4)) simp
  then have md: "metadata B db1 = metadata B db" by (simp add: metadata_def)
  note rmd = remove_all_metadata [OF sok rm]
  have in_ks: "k \<in> set ks \<longleftrightarrow> (\<exists>p. queue B db k = Some p \<and> is_matured now p)" for k
    unfolding q(1) [symmetric] map_of_eq_Some_iff [OF q(2)] ks by (force simp: matured_def is_matured_def)
  show "queue B db' k = (case queue B db k of Some p \<Rightarrow> if is_matured now p then None else Some p | None \<Rightarrow> None)"
  proof (cases "k \<in> set ks")
    case True
    then obtain p where "queue B db k = Some p" "is_matured now p" by (auto simp: in_ks)
    with True rmd md show ?thesis by (simp add: queue_def)
  next
    case False
    then have "queue B db' k = queue B db k" using rmd md by (simp add: queue_def)
    with False in_ks [of k] show ?thesis by (auto split: option.split)
  qed
  show "unat (acc_balance (account_at (ledger B db') j)) = unat (acc_balance (account_at (ledger B db) j))
      + map_total (\<lambda>p. if is_matured now p \<and> pu_address p = j then unat (pu_amount p) else 0) (queue B db)"
    using cr(3) [of j] rmd
    by (simp add: comp_def matured_def sum_list_filter_if is_matured_def eq_commute [of j] cong: if_cong flip: totals if_if_eq_conj)
  show "ledger_funds (ledger B db') = ledger_funds (ledger B db)
      + map_total (\<lambda>p. if is_matured now p then unat (pu_amount p) else 0) (queue B db)"
    using cr(2) rmd by (simp add: comp_def matured_def sum_list_filter_if is_matured_def flip: totals)
  show "unat n = min (map_total (\<lambda>p. if is_matured now p then unat (pu_amount p) else 0) (queue B db)) (2 ^ 64 - 1)"
    using n by (simp add: matured_def sum_list_filter_if is_matured_def flip: totals)
  show "acc_staked (account_at (ledger B db') j) = acc_staked (account_at (ledger B db) j)"
    using cr(4) [of j] rmd by simp
  show "db_ok B db'" using cr(1) rmd by (simp add: db_ok_def)
qed

text \<open>Processing moves funds from the queue to the ledger and loses none.\<close>

lemma process_matured_funds:
  assumes "backend_ok B" "db_ok B db" "process_matured_unstakes B db now = (Inr n, db')"
  shows "all_funds B db' = all_funds B db"
proof -
  let ?f = "\<lambda>p. unat (pu_amount p)"
  note r = process_matured_result [OF assms]
  have fin: "finite (dom (queue B db))" by (rule finite_queue [OF assms(1)])
  have left: "dom (queue B db') = {k \<in> dom (queue B db). \<not> is_matured now (the (queue B db k))}"
    by (auto simp: r(1) dom_def split: option.splits if_splits)
  have "queue_funds B db' = (\<Sum>k \<in> dom (queue B db'). ?f (the (queue B db k)))"
    unfolding queue_funds_def map_total_def
    by (rule sum.cong) (auto simp: r(1) split: option.splits if_splits)
  also have "\<dots> = (\<Sum>k \<in> dom (queue B db). if is_matured now (the (queue B db k)) then 0 else ?f (the (queue B db k)))"
    unfolding left by (subst sum.inter_filter [OF fin]) (rule sum.cong, auto)
  finally have "queue_funds B db' + map_total (\<lambda>p. if is_matured now p then ?f p else 0) (queue B db) = queue_funds B db"
    by (simp add: queue_funds_def map_total_def flip: sum.distrib) (rule sum.cong, auto)
  then show ?thesis using r(3) by (simp add: all_funds_def)
qed

end
