(* ===== verification/Fees.thy ===== *)
theory Fees
  imports Types
begin

text \<open>
  Fees, \<open>src/src/mempool/fees.rs\<close>: the minimum per transaction type and the split of a fee into
  burn, validator and treasury parts; the multiplier is in \<open>Dynamic_Fees\<close>. The lemmas show that
  the parts always sum to the fee, wrapped products included, and when they are the stated
  percentages.
\<close>

definition fee_transfer :: u64 where "fee_transfer = 1000000"
definition fee_contract_call :: u64 where "fee_contract_call = 5000000"
definition fee_contract_deploy :: u64 where "fee_contract_deploy = 100000000"
definition fee_defi :: u64 where "fee_defi = 10000000"
definition fee_validator_registration :: u64 where "fee_validator_registration = 1000000000"
definition fee_stake_lock :: u64 where "fee_stake_lock = 1000000"
definition fee_stake_unlock :: u64 where "fee_stake_unlock = 1000000"

definition burn_share_bps :: u64 where "burn_share_bps = 5000"
definition validator_share_bps :: u64 where "validator_share_bps = 4000"
definition treasury_share_bps :: u64 where "treasury_share_bps = 1000"

fun minimum_fee :: "transaction_type \<Rightarrow> u64" where
  "minimum_fee Transfer = fee_transfer"
| "minimum_fee ContractCall = fee_contract_call"
| "minimum_fee ContractDeploy = fee_contract_deploy"
| "minimum_fee StakeLock = fee_stake_lock"
| "minimum_fee StakeUnlock = fee_stake_unlock"

definition fee_is_sufficient :: "transaction \<Rightarrow> bool" where
  "fee_is_sufficient tx \<longleftrightarrow> minimum_fee (tx_type tx) \<le> tx_fee tx"

definition calculate_burn_amount :: "u64 \<Rightarrow> u64" where
  "calculate_burn_amount fee = fee * burn_share_bps div 10000"

definition calculate_validator_amount :: "u64 \<Rightarrow> u64" where
  "calculate_validator_amount fee = fee * validator_share_bps div 10000"

definition calculate_treasury_amount :: "u64 \<Rightarrow> u64" where
  "calculate_treasury_amount fee = fee * treasury_share_bps div 10000"

definition calculate_fee_split :: "u64 \<Rightarrow> u64 \<times> u64 \<times> u64" where
  "calculate_fee_split fee =
     (let burn = calculate_burn_amount fee;
          validator = calculate_validator_amount fee;
          treasury = calculate_treasury_amount fee;
          dust = saturating_sub (saturating_sub (saturating_sub fee burn) validator) treasury
      in (burn + dust, validator, treasury))"

definition total_fees :: "transaction list \<Rightarrow> u64" where
  "total_fees txs = (\<Sum>tx\<leftarrow>txs. tx_fee tx)"

section \<open>The split\<close>

lemma unat_share:
  assumes "unat fee * unat bps < 2 ^ 64"
  shows "unat (fee * bps div 10000 :: u64) = unat fee * unat bps div 10000"
  using assms by (simp add: unat_div unat_word_ariths)

lemma unat_share_le: "unat (fee * bps div 10000 :: u64) \<le> unat fee * unat bps div 10000"
  by (simp add: unat_div unat_word_ariths div_le_mono)

lemma bps_values [simp]:
  "unat burn_share_bps = 5000" "unat validator_share_bps = 4000" "unat treasury_share_bps = 1000"
  by (simp_all add: burn_share_bps_def validator_share_bps_def treasury_share_bps_def)

text \<open>No unit is made or lost by the split, for every fee.\<close>

lemma calculate_fee_split_sum:
  assumes "calculate_fee_split fee = (burn, validator, treasury)"
  shows "unat burn + unat validator + unat treasury = unat fee"
proof -
  let ?b = "calculate_burn_amount fee" and ?v = "calculate_validator_amount fee" and ?t = "calculate_treasury_amount fee"
  let ?d = "saturating_sub (saturating_sub (saturating_sub fee ?b) ?v) ?t"
  have le: "unat ?b \<le> unat fee * 5000 div 10000" "unat ?v \<le> unat fee * 4000 div 10000"
    "unat ?t \<le> unat fee * 1000 div 10000"
    using unat_share_le [of fee burn_share_bps] unat_share_le [of fee validator_share_bps]
      unat_share_le [of fee treasury_share_bps]
    by (simp_all add: calculate_burn_amount_def calculate_validator_amount_def calculate_treasury_amount_def)
  have sum: "unat ?b + unat ?v + unat ?t \<le> unat fee" using le by linarith
  have d: "unat ?d = unat fee - unat ?b - unat ?v - unat ?t" by (simp add: unat_saturating_sub)
  have "unat (?b + ?d) = unat ?b + unat ?d"
    by (rule unat_add_exact) (use sum d le_less_trans [OF _ u64_less, of _ fee] in simp)
  then show ?thesis using assms sum d by (auto simp: calculate_fee_split_def Let_def)
qed

text \<open>While the products fit, the parts are the percentages, with the dust burned.\<close>

lemma calculate_fee_split_exact:
  assumes "unat fee * 5000 < 2 ^ 64" "calculate_fee_split fee = (burn, validator, treasury)"
  shows "unat validator = unat fee * 2 div 5" "unat treasury = unat fee div 10"
    and "unat fee div 2 \<le> unat burn" "unat burn \<le> unat fee div 2 + 2"
proof -
  have v: "unat validator = unat fee * 4000 div 10000" and t: "unat treasury = unat fee * 1000 div 10000"
    using assms unat_share [of fee validator_share_bps] unat_share [of fee treasury_share_bps]
    by (auto simp: calculate_fee_split_def Let_def calculate_validator_amount_def calculate_treasury_amount_def)
  show "unat validator = unat fee * 2 div 5" "unat treasury = unat fee div 10"
    using v t div_mult_mult1 [of 2000 "unat fee * 2" 5] div_mult_mult1 [of 1000 "unat fee" 10] by simp_all
  then show "unat fee div 2 \<le> unat burn" "unat burn \<le> unat fee div 2 + 2"
    using calculate_fee_split_sum [OF assms(2)] by linarith+
qed

text \<open>The treasury part is what the state transition credits.\<close>

lemma treasury_amount_state:
  assumes "unat fee * 1000 < 2 ^ 64"
  shows "calculate_treasury_amount fee = fee div 10"
  using unat_share [of fee treasury_share_bps] assms div_mult_mult1 [of 1000 "unat fee" 10]
  by (simp add: calculate_treasury_amount_def word_unat_eq_iff unat_div)

lemma minimum_fee_pos: "0 < minimum_fee ty"
  by (cases ty) (simp_all add: fee_transfer_def fee_contract_call_def fee_contract_deploy_def
      fee_stake_lock_def fee_stake_unlock_def)

lemma total_fees_exact:
  "(\<Sum>tx\<leftarrow>txs. unat (tx_fee tx)) < 2 ^ 64 \<Longrightarrow> unat (total_fees txs) = (\<Sum>tx\<leftarrow>txs. unat (tx_fee tx))"
proof (induction txs)
  case Nil
  then show ?case by (simp add: total_fees_def)
next
  case (Cons tx txs)
  then have IH: "unat (total_fees txs) = (\<Sum>tx\<leftarrow>txs. unat (tx_fee tx))" by simp
  then have "unat (tx_fee tx) + unat (total_fees txs) < 2 ^ 64" using Cons.prems by simp
  then show ?case using IH by (simp add: total_fees_def unat_add_exact)
qed

end
