(* ===== verification/Rules.thy ===== *)
theory Rules
  imports State_Trie Coinbase
begin

text \<open>
  The consensus rules, \<open>src/src/consensus/rules.rs\<close>: every check a block from the network goes
  through, in the order of the code, with its violation. The lemmas say exactly which blocks
  are accepted, relate the transaction checks to what the ledger can apply, and record what
  the rules do not look at: signatures, receivers, data, and the position of a block whose
  height is zero.
\<close>

section \<open>Violations\<close>

definition max_clock_skew_ms :: i64 where "max_clock_skew_ms = 120000"
definition min_micro_block_interval_ms :: i64 where "min_micro_block_interval_ms = 500"
definition min_epoch_block_interval_ms :: i64 where "min_epoch_block_interval_ms = 60000"
definition max_transactions_per_micro_block :: nat where "max_transactions_per_micro_block = 1000"
definition max_micro_blocks_per_epoch :: nat where "max_micro_blocks_per_epoch = 10000"

datatype rule_violation =
    InvalidHeight u64 u64
  | InvalidPreviousHash string string
  | InvalidHash
  | InsufficientProofOfWork u32 string
  | InvalidTimestamp string
  | InvalidMerkleRoot
  | BlockTooLarge nat nat
  | InvalidCoinbase string
  | DuplicateTransaction string
  | InvalidTransactionNonce u64 u64
  | InsufficientBalance string u64 u64
  | MissingCoinbase
  | UnexpectedCoinbase
  | InvalidEpochIndex u64 u64
  | InvalidBlockReward u64 u64
  | InvalidStateRoot

text \<open>The \<open>Display\<close> text, \<open>None\<close> when a slice panics.\<close>

fun rule_violation_display :: "rule_violation \<Rightarrow> string option" where
  "rule_violation_display (InvalidHeight expected got) =
     Some (''Invalid height: expected '' @ u64_to_string expected @ '' got '' @ u64_to_string got)"
| "rule_violation_display (InvalidPreviousHash expected got) =
     Option.bind (str_prefix 8 expected) (\<lambda>e. Option.bind (str_prefix 8 got) (\<lambda>g.
     Some (''Invalid previous hash: expected '' @ e @ ''... got '' @ g @ ''...'')))"
| "rule_violation_display InvalidHash = Some ''Block hash does not match header contents''"
| "rule_violation_display (InsufficientProofOfWork required h) =
     Option.bind (str_prefix 16 h) (\<lambda>p.
     Some (''Hash '' @ p @ '' does not meet difficulty '' @ u32_to_string required))"
| "rule_violation_display (InvalidTimestamp reason) = Some (''Invalid timestamp: '' @ reason)"
| "rule_violation_display InvalidMerkleRoot = Some ''Merkle root does not match transaction list''"
| "rule_violation_display (BlockTooLarge limit got) =
     Some (''Block has '' @ dec_string got @ '' transactions, maximum is '' @ dec_string limit)"
| "rule_violation_display (InvalidCoinbase reason) = Some (''Invalid coinbase: '' @ reason)"
| "rule_violation_display (DuplicateTransaction h) =
     Option.bind (str_prefix 16 h) (\<lambda>p. Some (''Duplicate transaction: '' @ p))"
| "rule_violation_display (InvalidTransactionNonce expected got) =
     Some (''Invalid nonce: expected '' @ u64_to_string expected @ '' got '' @ u64_to_string got)"
| "rule_violation_display (InsufficientBalance address required available) =
     Option.bind (str_prefix 12 address) (\<lambda>p.
     Some (''Insufficient balance at '' @ p @ '': need '' @ u64_to_string required
           @ '' have '' @ u64_to_string available))"
| "rule_violation_display MissingCoinbase = Some ''Epoch block is missing a coinbase transaction''"
| "rule_violation_display UnexpectedCoinbase = Some ''Micro block contains a coinbase transaction''"
| "rule_violation_display (InvalidEpochIndex expected got) =
     Some (''Invalid epoch index: expected '' @ u64_to_string expected @ '' got '' @ u64_to_string got)"
| "rule_violation_display (InvalidBlockReward expected got) =
     Some (''Invalid block reward: expected '' @ u64_to_string expected @ '' got '' @ u64_to_string got)"
| "rule_violation_display InvalidStateRoot = Some ''State root does not match computed state''"

section \<open>The checks\<close>

definition check_height :: "block \<Rightarrow> chain_tip \<Rightarrow> rule_violation + unit" where
  "check_height b tip =
     (let expected = tip_height tip + 1 in
      if hdr_index (blk_header b) \<noteq> expected then Inl (InvalidHeight expected (hdr_index (blk_header b)))
      else Inr ())"

definition check_previous_hash :: "block \<Rightarrow> chain_tip \<Rightarrow> rule_violation + unit" where
  "check_previous_hash b tip =
     (if hdr_previous_hash (blk_header b) \<noteq> tip_hash tip
      then Inl (InvalidPreviousHash (tip_hash tip) (hdr_previous_hash (blk_header b))) else Inr ())"

definition check_previous_hash_genesis :: "block \<Rightarrow> rule_violation + unit" where
  "check_previous_hash_genesis b =
     (if hdr_previous_hash (blk_header b) \<noteq> zero_hash
      then Inl (InvalidPreviousHash zero_hash (hdr_previous_hash (blk_header b))) else Inr ())"

definition check_block_size :: "block \<Rightarrow> transaction list \<Rightarrow> rule_violation + unit" where
  "check_block_size b txs =
     (if hdr_is_epoch (blk_header b) then
        (if max_micro_blocks_per_epoch < length (blk_tx_hashes b)
         then Inl (BlockTooLarge max_micro_blocks_per_epoch (length (blk_tx_hashes b))) else Inr ())
      else
        (if max_transactions_per_micro_block < length txs
         then Inl (BlockTooLarge max_transactions_per_micro_block (length txs)) else Inr ()))"

definition check_timestamp :: "i64 \<Rightarrow> block \<Rightarrow> chain_tip \<Rightarrow> rule_violation + unit" where
  "check_timestamp now b tip =
     (let ts = hdr_timestamp (blk_header b) in
      if ts > i64_wrap (now + max_clock_skew_ms) then
        Inl (InvalidTimestamp (''Block timestamp '' @ i64_to_string ts @ '' is ''
          @ i64_to_string (i64_wrap (ts - now)) @ ''ms in the future''))
      else if ts \<le> tip_timestamp tip \<and> tip_timestamp tip > 0 then
        Inl (InvalidTimestamp (''Block timestamp '' @ i64_to_string ts
          @ '' is not after previous block timestamp '' @ i64_to_string (tip_timestamp tip)))
      else if tip_timestamp tip > 0 then
        let elapsed = i64_wrap (ts - tip_timestamp tip);
            min_interval = (if hdr_is_epoch (blk_header b) then min_epoch_block_interval_ms
                            else min_micro_block_interval_ms)
        in if elapsed < min_interval then
             Inl (InvalidTimestamp (''Only '' @ i64_to_string elapsed
               @ ''ms since last block, minimum is '' @ i64_to_string min_interval @ ''ms''))
           else Inr ()
      else Inr ())"

definition check_proof_of_work :: "block \<Rightarrow> rule_violation + unit" where
  "check_proof_of_work b =
     (if \<not> meets_difficulty (blk_hash b) (hdr_difficulty (blk_header b))
      then Inl (InsufficientProofOfWork (hdr_difficulty (blk_header b)) (blk_hash b)) else Inr ())"

definition check_block_hash :: "hashing \<Rightarrow> block \<Rightarrow> rule_violation + unit" where
  "check_block_hash H b =
     (let hdr = blk_header b;
          recomputed = hash_block_header H (hdr_index hdr) (hdr_timestamp hdr) (hdr_previous_hash hdr)
            (hdr_merkle_root hdr) (hdr_nonce hdr) (hdr_difficulty hdr) (hdr_is_epoch hdr)
            (hdr_epoch_index hdr) (hdr_state_root hdr)
      in if recomputed \<noteq> blk_hash b then Inl InvalidHash else Inr ())"

definition check_merkle_root :: "hashing \<Rightarrow> block \<Rightarrow> transaction list \<Rightarrow> rule_violation + unit" where
  "check_merkle_root H b txs =
     (if compute_merkle_root H (map tx_hash txs) \<noteq> hdr_merkle_root (blk_header b)
      then Inl InvalidMerkleRoot else Inr ())"

definition check_epoch_index :: "block \<Rightarrow> chain_tip \<Rightarrow> rule_violation + unit" where
  "check_epoch_index b tip =
     (let expected = tip_epoch_index tip + 1 in
      if hdr_epoch_index (blk_header b) \<noteq> expected
      then Inl (InvalidEpochIndex expected (hdr_epoch_index (blk_header b))) else Inr ())"

definition check_block_reward :: "block \<Rightarrow> rule_violation + unit" where
  "check_block_reward b =
     (let expected = calculate_block_reward (hdr_epoch_index (blk_header b)) in
      if blk_reward b \<noteq> expected then Inl (InvalidBlockReward expected (blk_reward b)) else Inr ())"

definition check_coinbase :: "hashing \<Rightarrow> block \<Rightarrow> transaction list \<Rightarrow> rule_violation + unit" where
  "check_coinbase H b txs =
     (case txs of
        [] \<Rightarrow> Inl MissingCoinbase
      | coinbase # _ \<Rightarrow>
          if tx_sender coinbase \<noteq> coinbase_sender then Inl MissingCoinbase
          else if \<not> verify_coinbase H coinbase (hdr_epoch_index (blk_header b)) (blk_hash b)
          then Inl (InvalidCoinbase ''Coinbase hash, amount, or nonce is incorrect'')
          else Inr ())"

fun check_no_coinbase :: "transaction list \<Rightarrow> rule_violation + unit" where
  "check_no_coinbase [] = Inr ()"
| "check_no_coinbase (tx # txs) =
     (if tx_sender tx = coinbase_sender then Inl UnexpectedCoinbase else check_no_coinbase txs)"

definition required_balance :: "transaction \<Rightarrow> u64" where
  "required_balance tx =
     (case tx_type tx of
        Transfer \<Rightarrow> saturating_add (tx_amount tx) (tx_fee tx)
      | StakeLock \<Rightarrow> saturating_add (tx_amount tx) (tx_fee tx)
      | StakeUnlock \<Rightarrow> tx_fee tx
      | ContractDeploy \<Rightarrow> tx_fee tx
      | ContractCall \<Rightarrow> tx_fee tx)"

fun check_transactions_from ::
  "'t backend \<Rightarrow> 't kyvera_db \<Rightarrow> string set \<Rightarrow> transaction list \<Rightarrow> rule_violation + unit" where
  "check_transactions_from B db seen [] = Inr ()"
| "check_transactions_from B db seen (tx # txs) =
     (if tx_sender tx = coinbase_sender then check_transactions_from B db seen txs
      else if tx_hash tx \<in> seen then Inl (DuplicateTransaction (tx_hash tx))
      else
        res_bind (map_err (\<lambda>_. InsufficientBalance (tx_sender tx) 0 0) (get_account B db (tx_sender tx))) (\<lambda>r.
        case r of
          None \<Rightarrow> check_transactions_from B db (insert (tx_hash tx) seen) txs
        | Some a \<Rightarrow>
            let required = required_balance tx in
            if acc_balance a < required then Inl (InsufficientBalance (tx_sender tx) required (acc_balance a))
            else if acc_nonce a \<noteq> tx_nonce tx then Inl (InvalidTransactionNonce (acc_nonce a) (tx_nonce tx))
            else check_transactions_from B db (insert (tx_hash tx) seen) txs))"

definition check_transactions ::
  "'t backend \<Rightarrow> 't kyvera_db \<Rightarrow> transaction list \<Rightarrow> rule_violation + unit" where
  "check_transactions B db txs = check_transactions_from B db {} txs"

definition validate_block_rules ::
  "hashing \<Rightarrow> 't backend \<Rightarrow> i64 \<Rightarrow> block \<Rightarrow> transaction list \<Rightarrow> chain_tip \<Rightarrow> 't kyvera_db \<Rightarrow> rule_violation + unit" where
  "validate_block_rules H B now b txs tip db =
     (if hdr_index (blk_header b) = 0 then
        res_bind (check_previous_hash_genesis b) (\<lambda>_.
        res_bind (check_proof_of_work b) (\<lambda>_.
        res_bind (check_block_hash H b) (\<lambda>_.
        res_bind (check_merkle_root H b txs) (\<lambda>_. Inr ()))))
      else
        res_bind (check_height b tip) (\<lambda>_.
        res_bind (check_previous_hash b tip) (\<lambda>_.
        res_bind (check_block_size b txs) (\<lambda>_.
        res_bind (check_timestamp now b tip) (\<lambda>_.
        res_bind (check_proof_of_work b) (\<lambda>_.
        res_bind (check_block_hash H b) (\<lambda>_.
        res_bind (check_merkle_root H b txs) (\<lambda>_.
        res_bind (if hdr_is_epoch (blk_header b) then
                    res_bind (check_epoch_index b tip) (\<lambda>_.
                    res_bind (check_block_reward b) (\<lambda>_.
                    check_coinbase H b txs))
                  else check_no_coinbase txs) (\<lambda>_.
        res_bind (check_transactions B db txs) (\<lambda>_. Inr ()))))))))))"

section \<open>What each check accepts\<close>

lemma check_height_iff: "check_height b tip = Inr u \<longleftrightarrow> hdr_index (blk_header b) = tip_height tip + 1"
  by (simp add: check_height_def Let_def)

lemma check_previous_hash_iff:
  "check_previous_hash b tip = Inr u \<longleftrightarrow> hdr_previous_hash (blk_header b) = tip_hash tip"
  by (simp add: check_previous_hash_def)

lemma check_previous_hash_genesis_iff:
  "check_previous_hash_genesis b = Inr u \<longleftrightarrow> hdr_previous_hash (blk_header b) = zero_hash"
  by (simp add: check_previous_hash_genesis_def)

definition size_ok :: "block \<Rightarrow> transaction list \<Rightarrow> bool" where
  "size_ok b txs \<longleftrightarrow> (if hdr_is_epoch (blk_header b) then length (blk_tx_hashes b) \<le> 10000 else length txs \<le> 1000)"

lemma check_block_size_iff: "check_block_size b txs = Inr u \<longleftrightarrow> size_ok b txs"
  by (auto simp: check_block_size_def size_ok_def max_micro_blocks_per_epoch_def
      max_transactions_per_micro_block_def)

definition time_ok :: "i64 \<Rightarrow> block \<Rightarrow> chain_tip \<Rightarrow> bool" where
  "time_ok now b tip \<longleftrightarrow> hdr_timestamp (blk_header b) \<le> i64_wrap (now + 120000)
     \<and> (0 < tip_timestamp tip \<longrightarrow>
         tip_timestamp tip < hdr_timestamp (blk_header b)
         \<and> (if hdr_is_epoch (blk_header b) then 60000 else 500)
            \<le> i64_wrap (hdr_timestamp (blk_header b) - tip_timestamp tip))"

lemma check_timestamp_iff: "check_timestamp now b tip = Inr u \<longleftrightarrow> time_ok now b tip"
  by (auto simp: check_timestamp_def time_ok_def Let_def max_clock_skew_ms_def
      min_epoch_block_interval_ms_def min_micro_block_interval_ms_def not_less)

lemma check_proof_of_work_iff:
  "check_proof_of_work b = Inr u \<longleftrightarrow> meets_difficulty (blk_hash b) (hdr_difficulty (blk_header b))"
  by (simp add: check_proof_of_work_def)

lemma check_block_hash_iff: "check_block_hash H b = Inr u \<longleftrightarrow> header_hash H (blk_header b) = blk_hash b"
  by (simp add: check_block_hash_def header_hash_def header_hash_with_def Let_def)

lemma check_merkle_root_iff:
  "check_merkle_root H b txs = Inr u \<longleftrightarrow> hdr_merkle_root (blk_header b) = compute_merkle_root H (map tx_hash txs)"
  by (auto simp: check_merkle_root_def)

lemma check_epoch_index_iff:
  "check_epoch_index b tip = Inr u \<longleftrightarrow> hdr_epoch_index (blk_header b) = tip_epoch_index tip + 1"
  by (simp add: check_epoch_index_def Let_def)

lemma check_block_reward_iff:
  "check_block_reward b = Inr u \<longleftrightarrow> blk_reward b = calculate_block_reward (hdr_epoch_index (blk_header b))"
  by (simp add: check_block_reward_def Let_def)

lemma check_coinbase_iff:
  "check_coinbase H b txs = Inr u \<longleftrightarrow>
     txs \<noteq> [] \<and> verify_coinbase H (hd txs) (hdr_epoch_index (blk_header b)) (blk_hash b)"
  by (auto simp: check_coinbase_def verify_coinbase_iff split: list.split)

lemma check_no_coinbase_iff: "check_no_coinbase txs = Inr u \<longleftrightarrow> (\<forall>tx \<in> set txs. tx_sender tx \<noteq> coinbase_sender)"
  by (induction txs) auto

lemmas check_iffs = check_height_iff check_previous_hash_iff check_previous_hash_genesis_iff
  check_block_size_iff check_timestamp_iff check_proof_of_work_iff check_block_hash_iff
  check_merkle_root_iff check_epoch_index_iff check_block_reward_iff check_coinbase_iff
  check_no_coinbase_iff

section \<open>The transaction checks\<close>

definition ordinary :: "transaction list \<Rightarrow> transaction list" where
  "ordinary txs = filter (\<lambda>tx. tx_sender tx \<noteq> coinbase_sender) txs"

text \<open>What the rules ask of a sender the ledger knows; of an unknown one they ask nothing.\<close>

definition payable :: "(string \<Rightarrow> account option) \<Rightarrow> transaction \<Rightarrow> bool" where
  "payable L tx \<longleftrightarrow> (case L (tx_sender tx) of None \<Rightarrow> True
     | Some a \<Rightarrow> required_balance tx \<le> acc_balance a \<and> acc_nonce a = tx_nonce tx)"

lemma ordinary_simps [simp]:
  "ordinary [] = []"
  "ordinary (tx # txs) = (if tx_sender tx = coinbase_sender then ordinary txs else tx # ordinary txs)"
  by (simp_all add: ordinary_def)

text \<open>Transactions in the name of the coinbase sender are skipped, however many there are.\<close>

lemma check_transactions_ordinary: "check_transactions B db (ordinary txs) = check_transactions B db txs"
proof -
  have "check_transactions_from B db seen (ordinary txs) = check_transactions_from B db seen txs" for seen
    by (induction txs arbitrary: seen) (simp_all add: Let_def cong: if_cong option.case_cong)
  then show ?thesis by (simp add: check_transactions_def)
qed

lemma check_transactions_from_sound:
  assumes "backend_ok B" "check_transactions_from B db seen txs = Inr u"
  shows "distinct (map tx_hash (ordinary txs)) \<and> set (map tx_hash (ordinary txs)) \<inter> seen = {}
    \<and> (\<forall>tx \<in> set (ordinary txs). payable (ledger B db) tx)"
  using assms(2)
proof (induction txs arbitrary: seen)
  case Nil
  then show ?case by simp
next
  case (Cons tx txs)
  show ?case
  proof (cases "tx_sender tx = coinbase_sender")
    case True
    with Cons show ?thesis by auto
  next
    case False
    with Cons.prems obtain r where new: "tx_hash tx \<notin> seen" and g: "get_account B db (tx_sender tx) = Inr r"
      by (auto simp: res_bind_eq_Inr split: if_splits)
    have "r = ledger B db (tx_sender tx)" by (rule get_account_ledger [OF assms(1) g])
    with Cons.prems False new g
    have "check_transactions_from B db (insert (tx_hash tx) seen) txs = Inr u" "payable (ledger B db) tx"
      by (auto simp: payable_def Let_def not_less split: option.splits if_splits)
    with Cons.IH [of "insert (tx_hash tx) seen"] False new show ?thesis by auto
  qed
qed

lemma check_transactions_from_complete:
  assumes "backend_total B" "accounts_readable B db"
    and "distinct (map tx_hash (ordinary txs))" "set (map tx_hash (ordinary txs)) \<inter> seen = {}"
    and "\<forall>tx \<in> set (ordinary txs). payable (ledger B db) tx"
  shows "check_transactions_from B db seen txs = Inr ()"
  using assms(3-5)
proof (induction txs arbitrary: seen)
  case Nil
  then show ?case by simp
next
  case (Cons tx txs)
  show ?case
  proof (cases "tx_sender tx = coinbase_sender")
    case True
    with Cons show ?thesis by simp
  next
    case False
    have "check_transactions_from B db (insert (tx_hash tx) seen) txs = Inr ()"
      using Cons.prems False by (intro Cons.IH) auto
    with Cons.prems False show ?thesis
      by (auto simp: get_account_total [OF assms(1,2)] payable_def Let_def split: option.splits)
  qed
qed

lemma check_transactions_iff:
  assumes "backend_total B" "accounts_readable B db"
  shows "check_transactions B db txs = Inr () \<longleftrightarrow>
    distinct (map tx_hash (ordinary txs)) \<and> (\<forall>tx \<in> set (ordinary txs). payable (ledger B db) tx)"
  using check_transactions_from_sound [OF backend_total_ok [OF assms(1)], of db "{}" txs "()"]
    check_transactions_from_complete [OF assms, of txs "{}"]
  by (auto simp: check_transactions_def)

section \<open>Which blocks are accepted\<close>

lemma validate_block_rules_iff:
  assumes "backend_total B" "accounts_readable B db"
  shows "validate_block_rules H B now b txs tip db = Inr () \<longleftrightarrow>
    meets_difficulty (blk_hash b) (hdr_difficulty (blk_header b))
    \<and> header_hash H (blk_header b) = blk_hash b
    \<and> hdr_merkle_root (blk_header b) = compute_merkle_root H (map tx_hash txs)
    \<and> (if hdr_index (blk_header b) = 0 then hdr_previous_hash (blk_header b) = zero_hash
       else hdr_index (blk_header b) = tip_height tip + 1
         \<and> hdr_previous_hash (blk_header b) = tip_hash tip \<and> size_ok b txs \<and> time_ok now b tip
         \<and> (if hdr_is_epoch (blk_header b)
            then hdr_epoch_index (blk_header b) = tip_epoch_index tip + 1
              \<and> blk_reward b = calculate_block_reward (hdr_epoch_index (blk_header b))
              \<and> txs \<noteq> [] \<and> verify_coinbase H (hd txs) (hdr_epoch_index (blk_header b)) (blk_hash b)
            else \<forall>tx \<in> set txs. tx_sender tx \<noteq> coinbase_sender)
         \<and> distinct (map tx_hash (ordinary txs)) \<and> (\<forall>tx \<in> set (ordinary txs). payable (ledger B db) tx))"
  unfolding validate_block_rules_def
  by (auto simp: res_bind_eq_Inr check_iffs check_transactions_iff [OF assms])

text \<open>An accepted block is one the chain code accepts too.\<close>

lemma rules_imply_validate_block:
  assumes "hdr_index (blk_header b) \<noteq> 0" "0 < tip_timestamp tip"
    and "validate_block_rules H B now b txs tip db = Inr ()"
  shows "validate_block H now b tip txs = Inr ()"
  using assms
  by (auto simp: validate_block_rules_def res_bind_eq_Inr check_iffs validate_block_iff time_ok_def)

section \<open>Transactions the rules accept and the ledger does not\<close>

lemma required_balance_le_charge:
  assumes "charge a tx \<noteq> None"
  shows "required_balance tx \<le> acc_balance a"
  using assms
  by (auto simp: charge_def required_balance_def Let_def word_le_nat_alt unat_saturating_add
      split: transaction_type.splits if_splits)

text \<open>A transaction the ledger takes is payable: the rules refuse nothing that would apply to
  the state before the block.\<close>

lemma applicable_is_payable: "ledger_apply L tx = Some L' \<Longrightarrow> payable L tx"
proof -
  assume a: "ledger_apply L tx = Some L'"
  have "acc_nonce (account_at L (tx_sender tx)) = tx_nonce tx" by (rule ledger_apply_nonce(1) [OF a])
  moreover have "charge (account_at L (tx_sender tx)) tx \<noteq> None" using a by (auto elim: ledger_applyE)
  ultimately show "payable L tx"
    using required_balance_le_charge [of "account_at L (tx_sender tx)" tx]
    by (auto simp: payable_def split: option.split)
qed

text \<open>The converse fails within one block: two transactions of one sender with one nonce pass
  the checks, the second cannot be applied after the first.\<close>

lemma same_nonce_pair_accepted:
  assumes "backend_total B" "accounts_readable B db"
    and "tx_sender t1 = tx_sender t2" "tx_nonce t1 = tx_nonce t2" "tx_hash t1 \<noteq> tx_hash t2"
    and "payable (ledger B db) t1" "payable (ledger B db) t2"
    and "ledger_apply (ledger B db) t1 = Some L1"
  shows "check_transactions B db [t1, t2] = Inr ()" "ledger_apply L1 t2 = None"
proof -
  show "check_transactions B db [t1, t2] = Inr ()"
    using assms(5-7) by (simp add: check_transactions_iff [OF assms(1,2)])
  have "acc_nonce (account_at L1 (tx_sender t2)) = tx_nonce t2 + 1"
    using ledger_apply_nonce(2) [OF assms(8), of "tx_sender t2"] by (simp add: assms(3,4))
  then show "ledger_apply L1 t2 = None" by (simp add: ledger_apply_def Let_def)
qed

text \<open>An unknown sender passes with any amount, and cannot pay.\<close>

lemma unknown_sender_accepted:
  assumes "backend_total B" "accounts_readable B db" "ledger B db (tx_sender tx) = None"
    and "tx_type tx = Transfer" "0 < tx_amount tx"
  shows "check_transactions B db [tx] = Inr ()" "ledger_apply (ledger B db) tx = None"
  using assms(3-5)
  by (simp_all add: check_transactions_iff [OF assms(1,2)] payable_def ledger_apply_def charge_def Let_def
      word_less_nat_alt)

section \<open>What the rules do not look at\<close>

text \<open>Two lists of transactions that agree on what the rules read.\<close>

definition same_to_rules :: "transaction \<Rightarrow> transaction \<Rightarrow> bool" where
  "same_to_rules t u \<longleftrightarrow> tx_hash t = tx_hash u \<and> tx_sender t = tx_sender u \<and> tx_amount t = tx_amount u
     \<and> tx_fee t = tx_fee u \<and> tx_nonce t = tx_nonce u \<and> tx_type t = tx_type u"

lemma check_transactions_from_same:
  "list_all2 same_to_rules ts us \<Longrightarrow> check_transactions_from B db seen ts = check_transactions_from B db seen us"
proof (induction arbitrary: seen rule: list_all2_induct)
  case Nil
  then show ?case by simp
next
  case (Cons t ts u us)
  then have "required_balance t = required_balance u" by (cases "tx_type u") (simp_all add: same_to_rules_def required_balance_def)
  with Cons show ?case by (simp add: same_to_rules_def cong: option.case_cong if_cong)
qed

lemma same_to_rules_maps: "list_all2 same_to_rules ts us \<Longrightarrow> map tx_hash ts = map tx_hash us"
  by (induction rule: list_all2_induct) (simp_all add: same_to_rules_def)

lemma check_no_coinbase_same: "list_all2 same_to_rules ts us \<Longrightarrow> check_no_coinbase ts = check_no_coinbase us"
  by (induction rule: list_all2_induct) (simp_all add: same_to_rules_def)

text \<open>Receivers, signatures, data and timestamps of the transactions, the coinbase included,
  and the signature and producer of the block are free.\<close>

lemma validate_block_rules_same:
  assumes "list_all2 same_to_rules ts us"
  shows "validate_block_rules H B now b ts tip db
    = validate_block_rules H B now (b\<lparr>blk_validator_signature := sig, blk_producer := producer\<rparr>) us tip db"
proof -
  let ?b = "b\<lparr>blk_validator_signature := sig, blk_producer := producer\<rparr>"
  have coinbase: "check_coinbase H b ts = check_coinbase H ?b us"
    using assms by (cases ts; cases us) (simp_all add: check_coinbase_def same_to_rules_def verify_coinbase_def)
  have size: "check_block_size b ts = check_block_size ?b us"
    using list_all2_lengthD [OF assms] by (simp add: check_block_size_def)
  have root: "check_merkle_root H b ts = check_merkle_root H ?b us"
    using same_to_rules_maps [OF assms] by (simp add: check_merkle_root_def)
  have "check_previous_hash_genesis b = check_previous_hash_genesis ?b"
    "check_proof_of_work b = check_proof_of_work ?b" "check_block_hash H b = check_block_hash H ?b"
    "check_height b tip = check_height ?b tip" "check_previous_hash b tip = check_previous_hash ?b tip"
    "check_timestamp now b tip = check_timestamp now ?b tip"
    "check_epoch_index b tip = check_epoch_index ?b tip" "check_block_reward b = check_block_reward ?b"
    by (simp_all add: check_previous_hash_genesis_def check_proof_of_work_def check_block_hash_def
        check_height_def check_previous_hash_def check_timestamp_def check_epoch_index_def
        check_block_reward_def Let_def)
  then show ?thesis
    using coinbase size root check_no_coinbase_same [OF assms] check_transactions_from_same [OF assms, of B db "{}"]
    by (simp add: validate_block_rules_def check_transactions_def cong: if_cong)
qed

text \<open>The coinbase hash depends on the block hash, which depends on the Merkle root over the
  coinbase hash: an accepted epoch block is a fixed point of SHA3.\<close>

lemma epoch_block_fixed_point:
  assumes "hdr_index (blk_header b) \<noteq> 0" "hdr_is_epoch (blk_header b)"
    and "validate_block_rules H B now b txs tip db = Inr ()"
  shows "blk_hash b = header_hash H ((blk_header b)
    \<lparr>hdr_merkle_root := compute_merkle_root H
       (coinbase_hash H (blk_hash b) (hdr_epoch_index (blk_header b)) # map tx_hash (tl txs))\<rparr>)"
proof -
  from assms have h: "header_hash H (blk_header b) = blk_hash b"
    and m: "hdr_merkle_root (blk_header b) = compute_merkle_root H (map tx_hash txs)"
    and ne: "txs \<noteq> []" and cb: "verify_coinbase H (hd txs) (hdr_epoch_index (blk_header b)) (blk_hash b)"
    by (auto simp: validate_block_rules_def res_bind_eq_Inr check_iffs)
  from cb have "tx_hash (hd txs) = coinbase_hash H (blk_hash b) (hdr_epoch_index (blk_header b))"
    by (simp add: verify_coinbase_iff)
  then have "compute_merkle_root H (coinbase_hash H (blk_hash b) (hdr_epoch_index (blk_header b)) # map tx_hash (tl txs))
      = hdr_merkle_root (blk_header b)"
    using ne m by (cases txs) simp_all
  then show ?thesis using h by simp
qed

end
