(* ===== verification/Pool.thy ===== *)
theory Pool
  imports Fees Rules "HOL-Library.AList"
begin

text \<open>
  The mempool, \<open>src/src/mempool/pool.rs\<close>: transactions by hash, an index ordered by fee and hash,
  and the pending nonces. The \<open>HashMap\<close> is an association list with distinct keys, the
  \<open>BTreeMap\<close> the strictly sorted list of its keys (the locale \<open>ordered_index\<close> is what the pool
  uses of it), the \<open>HashSet\<close> a set. The invariant \<open>mempool_ok\<close> ties the three together and bounds
  the size; every operation keeps it. The other lemmas say which transactions are
  admitted, that a rejected one changes nothing, what is evicted, and that the block
  producer gets the highest fees.
\<close>

section \<open>Errors and keys\<close>

definition max_mempool_size :: nat where "max_mempool_size = 50000"

datatype mempool_error =
    AlreadyExists
  | DuplicateNonce string u64
  | InsufficientBalance string u64 u64
  | InvalidNonce u64 u64
  | PoolFullFeeTooLow
  | MalformedTransaction string

fun mempool_error_display :: "mempool_error \<Rightarrow> string option" where
  "mempool_error_display AlreadyExists = Some ''Transaction already in mempool''"
| "mempool_error_display (DuplicateNonce address nonce) =
     Option.bind (str_prefix 12 address) (\<lambda>p.
     Some (''Sender '' @ p @ '' already has a pending transaction with nonce '' @ u64_to_string nonce))"
| "mempool_error_display (InsufficientBalance address required available) =
     Option.bind (str_prefix 12 address) (\<lambda>p.
     Some (p @ '' cannot afford transaction: needs '' @ u64_to_string required @ '' has ''
           @ u64_to_string available))"
| "mempool_error_display (InvalidNonce expected got) =
     Some (''Invalid nonce: expected '' @ u64_to_string expected @ '' got '' @ u64_to_string got)"
| "mempool_error_display PoolFullFeeTooLow =
     Some ''Mempool is full and this transaction's fee is too low to evict anything''"
| "mempool_error_display (MalformedTransaction reason) = Some (''Malformed transaction: '' @ reason)"

datatype fee_key = FeeKey (key_fee: u64) (key_hash: string)

text \<open>The derived order: the fee first, then the hash.\<close>

instantiation fee_key :: linorder
begin

definition less_eq_fee_key :: "fee_key \<Rightarrow> fee_key \<Rightarrow> bool" where
  "less_eq_fee_key a b \<longleftrightarrow> key_fee a < key_fee b \<or> key_fee a = key_fee b \<and> key_hash a \<le> key_hash b"

definition less_fee_key :: "fee_key \<Rightarrow> fee_key \<Rightarrow> bool" where
  "less_fee_key a b \<longleftrightarrow> key_fee a < key_fee b \<or> key_fee a = key_fee b \<and> key_hash a < key_hash b"

instance
  by standard (auto simp: less_eq_fee_key_def less_fee_key_def intro: fee_key.expand)

end

lemma fee_key_le_fee: "a \<le> b \<Longrightarrow> key_fee a \<le> key_fee (b :: fee_key)"
  by (auto simp: less_eq_fee_key_def)

section \<open>The ordered index\<close>

fun btree_insert :: "'k::linorder \<Rightarrow> 'k list \<Rightarrow> 'k list" where
  "btree_insert k [] = [k]"
| "btree_insert k (x # xs) = (if k < x then k # x # xs else if k = x then x # xs else x # btree_insert k xs)"

definition btree_remove :: "'k::linorder \<Rightarrow> 'k list \<Rightarrow> 'k list" where
  "btree_remove k xs = filter (\<lambda>x. x \<noteq> k) xs"

lemma set_btree_insert: "set (btree_insert k xs) = insert k (set xs)"
  by (induction xs) auto

lemma sorted_btree_insert: "sorted_wrt (<) xs \<Longrightarrow> sorted_wrt (<) (btree_insert k xs)"
  by (induction xs) (auto simp: set_btree_insert)

locale ordered_index =
  fixes ins :: "'k::linorder \<Rightarrow> 'k list \<Rightarrow> 'k list"
    and del :: "'k \<Rightarrow> 'k list \<Rightarrow> 'k list"
  assumes ins_set: "set (ins k xs) = insert k (set xs)"
    and ins_sorted: "sorted_wrt (<) xs \<Longrightarrow> sorted_wrt (<) (ins k xs)"
    and del_set: "set (del k xs) = set xs - {k}"
    and del_sorted: "sorted_wrt (<) xs \<Longrightarrow> sorted_wrt (<) (del k xs)"
begin

definition index_of :: "'k set \<Rightarrow> 'k list \<Rightarrow> bool" where
  "index_of K xs \<longleftrightarrow> sorted_wrt (<) xs \<and> set xs = K"

lemma index_ins: "index_of K xs \<Longrightarrow> index_of (insert k K) (ins k xs)"
  by (simp add: index_of_def ins_set ins_sorted)

lemma index_del: "index_of K xs \<Longrightarrow> index_of (K - {k}) (del k xs)"
  by (simp add: index_of_def del_set del_sorted)

lemma index_length: "index_of K xs \<Longrightarrow> length xs = card K"
  using distinct_card [of xs] by (simp add: index_of_def strict_sorted_iff)

lemma index_least: "index_of K (x # xs) \<Longrightarrow> k \<in> K \<Longrightarrow> x \<le> k"
  by (auto simp: index_of_def order.strict_implies_order)

lemma index_Nil: "index_of K [] \<longleftrightarrow> K = {}"
  by (auto simp: index_of_def)

text \<open>The last \<open>n\<close> keys, in reverse, are the greatest ones in descending order.\<close>

lemma index_top:
  assumes "index_of K xs"
  shows "sorted_wrt (>) (take n (rev xs))" "length (take n (rev xs)) = min n (card K)"
    and "k \<in> K \<Longrightarrow> k \<notin> set (take n (rev xs)) \<Longrightarrow> j \<in> set (take n (rev xs)) \<Longrightarrow> k < j"
proof -
  have desc: "sorted_wrt (>) (rev xs)" using assms by (simp add: index_of_def sorted_wrt_rev)
  then show "sorted_wrt (>) (take n (rev xs))" by (rule sorted_wrt_take)
  show "length (take n (rev xs)) = min n (card K)" using index_length [OF assms] by (simp add: min.commute)
  assume k: "k \<in> K" "k \<notin> set (take n (rev xs))" and j: "j \<in> set (take n (rev xs))"
  have "set (rev xs) = K" using assms by (simp add: index_of_def)
  then have "k \<in> set (drop n (rev xs))" using k by (metis UnE append_take_drop_id set_append)
  then show "k < j" using desc j by (metis append_take_drop_id sorted_wrt_append)
qed

end

interpretation fee_order: ordered_index "btree_insert :: fee_key \<Rightarrow> fee_key list \<Rightarrow> fee_key list" btree_remove
  by unfold_locales (auto simp: set_btree_insert sorted_btree_insert btree_remove_def sorted_wrt_filter)

section \<open>The pool\<close>

record mempool =
  pool_transactions :: "(string \<times> transaction) list"
  pool_fee_index :: "fee_key list"
  pool_pending_nonces :: "(string \<times> u64) set"

definition mempool_new :: mempool where
  "mempool_new = \<lparr>pool_transactions = [], pool_fee_index = [], pool_pending_nonces = {}\<rparr>"

text \<open>\<open>impl Default\<close>.\<close>

definition mempool_default :: mempool where
  "mempool_default = mempool_new"

definition pool_len :: "mempool \<Rightarrow> nat" where "pool_len m = length (pool_transactions m)"
definition pool_is_empty :: "mempool \<Rightarrow> bool" where "pool_is_empty m \<longleftrightarrow> pool_transactions m = []"

definition pool_get :: "mempool \<Rightarrow> string \<Rightarrow> transaction option" where
  "pool_get m h = map_of (pool_transactions m) h"

definition pool_contains :: "mempool \<Rightarrow> string \<Rightarrow> bool" where
  "pool_contains m h \<longleftrightarrow> pool_get m h \<noteq> None"

definition fee_key_of :: "transaction \<Rightarrow> fee_key" where
  "fee_key_of tx = FeeKey (tx_fee tx) (tx_hash tx)"

definition pool_insert :: "mempool \<Rightarrow> transaction \<Rightarrow> mempool" where
  "pool_insert m tx =
     \<lparr>pool_transactions = AList.update (tx_hash tx) tx (pool_transactions m),
      pool_fee_index = btree_insert (fee_key_of tx) (pool_fee_index m),
      pool_pending_nonces = insert (tx_sender tx, tx_nonce tx) (pool_pending_nonces m)\<rparr>"

definition pool_remove :: "mempool \<Rightarrow> string \<Rightarrow> transaction option \<times> mempool" where
  "pool_remove m h =
     (case pool_get m h of
        None \<Rightarrow> (None, m)
      | Some tx \<Rightarrow> (Some tx,
          \<lparr>pool_transactions = AList.delete h (pool_transactions m),
           pool_fee_index = btree_remove (fee_key_of tx) (pool_fee_index m),
           pool_pending_nonces = pool_pending_nonces m - {(tx_sender tx, tx_nonce tx)}\<rparr>))"

definition evict_for :: "mempool \<Rightarrow> u64 \<Rightarrow> (mempool_error + unit) \<times> mempool" where
  "evict_for m incoming_fee =
     (case pool_fee_index m of
        [] \<Rightarrow> (Inr (), m)
      | lowest # _ \<Rightarrow>
          if incoming_fee \<le> key_fee lowest then (Inl PoolFullFeeTooLow, m)
          else (Inr (), snd (pool_remove m (key_hash lowest))))"

definition top_by_fee :: "mempool \<Rightarrow> nat \<Rightarrow> transaction list" where
  "top_by_fee m limit = List.map_filter (\<lambda>k. pool_get m (key_hash k)) (take limit (rev (pool_fee_index m)))"

fun remove_batch :: "mempool \<Rightarrow> string list \<Rightarrow> mempool" where
  "remove_batch m [] = m"
| "remove_batch m (h # hs) = remove_batch (snd (pool_remove m h)) hs"

definition validate_structure :: "transaction \<Rightarrow> mempool_error + unit" where
  "validate_structure tx =
     (if tx_hash tx = [] then Inl (MalformedTransaction ''empty hash'')
      else if tx_signature tx = [] then Inl (MalformedTransaction ''empty signature'')
      else if tx_sender tx = [] \<or> tx_receiver tx = [] then
        Inl (MalformedTransaction ''empty sender or receiver'')
      else Inr ())"

definition add_transaction ::
  "'t backend \<Rightarrow> 't kyvera_db \<Rightarrow> mempool \<Rightarrow> transaction \<Rightarrow> (mempool_error + unit) \<times> mempool" where
  "add_transaction B db m tx =
     read_bind m (validate_structure tx) (\<lambda>_.
     if pool_contains m (tx_hash tx) then (Inl AlreadyExists, m)
     else if (tx_sender tx, tx_nonce tx) \<in> pool_pending_nonces m then
       (Inl (DuplicateNonce (tx_sender tx) (tx_nonce tx)), m)
     else
       read_bind m (map_err MalformedTransaction (get_account B db (tx_sender tx))) (\<lambda>found.
       let a = (case found of Some a \<Rightarrow> a | None \<Rightarrow> account_new (tx_sender tx));
           required = required_balance tx
       in if acc_balance a < required then
            (Inl (InsufficientBalance (tx_sender tx) required (acc_balance a)), m)
          else
            let has_other_pending = (\<exists>p \<in> pool_pending_nonces m. fst p = tx_sender tx) in
            if \<not> has_other_pending \<and> tx_nonce tx \<noteq> acc_nonce a then
              (Inl (InvalidNonce (acc_nonce a) (tx_nonce tx)), m)
            else
              st_bind (if max_mempool_size \<le> pool_len m then evict_for m (tx_fee tx) else (Inr (), m)) (\<lambda>_ m.
              (Inr (), pool_insert m tx))))"

section \<open>The invariant\<close>

definition pool_txs :: "mempool \<Rightarrow> transaction set" where
  "pool_txs m = snd ` set (pool_transactions m)"

definition nonce_key :: "transaction \<Rightarrow> string \<times> u64" where
  "nonce_key tx = (tx_sender tx, tx_nonce tx)"

definition indexes_ok :: "mempool \<Rightarrow> bool" where
  "indexes_ok m \<longleftrightarrow> distinct (map fst (pool_transactions m))
     \<and> (\<forall>(h, tx) \<in> set (pool_transactions m). tx_hash tx = h)
     \<and> fee_order.index_of (fee_key_of ` pool_txs m) (pool_fee_index m)
     \<and> pool_pending_nonces m = nonce_key ` pool_txs m \<and> inj_on nonce_key (pool_txs m)"

definition mempool_ok :: "mempool \<Rightarrow> bool" where
  "mempool_ok m \<longleftrightarrow> indexes_ok m \<and> pool_len m \<le> max_mempool_size"

lemma indexes_okD:
  assumes "indexes_ok m"
  shows "distinct (map fst (pool_transactions m))" "(h, tx) \<in> set (pool_transactions m) \<Longrightarrow> tx_hash tx = h"
    "fee_order.index_of (fee_key_of ` pool_txs m) (pool_fee_index m)"
    "pool_pending_nonces m = nonce_key ` pool_txs m" "inj_on nonce_key (pool_txs m)"
  using assms by (auto simp: indexes_ok_def)

lemma pool_get_iff:
  assumes "indexes_ok m"
  shows "pool_get m h = Some tx \<longleftrightarrow> tx \<in> pool_txs m \<and> tx_hash tx = h"
proof -
  have "pool_get m h = Some tx \<longleftrightarrow> (h, tx) \<in> set (pool_transactions m)"
    by (simp add: pool_get_def map_of_eq_Some_iff indexes_okD(1) [OF assms])
  also have "\<dots> \<longleftrightarrow> tx \<in> pool_txs m \<and> tx_hash tx = h"
    using indexes_okD(2) [OF assms] by (force simp: pool_txs_def)
  finally show ?thesis .
qed

lemma pool_contains_iff: "indexes_ok m \<Longrightarrow> pool_contains m h \<longleftrightarrow> h \<in> tx_hash ` pool_txs m"
  by (auto simp: pool_contains_def pool_get_iff)

lemma mempool_new_ok: "mempool_ok mempool_new"
  by (simp add: mempool_ok_def indexes_ok_def mempool_new_def pool_txs_def pool_len_def fee_order.index_Nil)

lemma tx_hash_inj: "indexes_ok m \<Longrightarrow> inj_on tx_hash (pool_txs m)"
  by (intro inj_onI) (metis option.inject pool_get_iff)

lemma card_pool_txs: "indexes_ok m \<Longrightarrow> card (pool_txs m) = pool_len m"
proof -
  assume ok: "indexes_ok m"
  have "map tx_hash (map snd (pool_transactions m)) = map fst (pool_transactions m)"
    using indexes_okD(2) [OF ok] by auto
  then have "distinct (map snd (pool_transactions m))"
    using indexes_okD(1) [OF ok] by (metis distinct_map)
  then show ?thesis using distinct_card [of "map snd (pool_transactions m)"]
    by (simp add: pool_txs_def pool_len_def)
qed

section \<open>Insertion and removal\<close>

lemma update_fresh: "k \<notin> set (map fst al) \<Longrightarrow> AList.update k v al = al @ [(k, v)]"
  by (induction al) auto

lemma pool_insert_txs:
  assumes "indexes_ok m" "\<not> pool_contains m (tx_hash tx)"
  shows "pool_txs (pool_insert m tx) = insert tx (pool_txs m)" "pool_len (pool_insert m tx) = pool_len m + 1"
proof -
  have fresh: "tx_hash tx \<notin> set (map fst (pool_transactions m))"
    using assms(2) by (simp add: pool_contains_def pool_get_def map_of_eq_None_iff)
  then have "AList.update (tx_hash tx) tx (pool_transactions m) = pool_transactions m @ [(tx_hash tx, tx)]"
    by (rule update_fresh)
  then show "pool_txs (pool_insert m tx) = insert tx (pool_txs m)" "pool_len (pool_insert m tx) = pool_len m + 1"
    by (simp_all add: pool_txs_def pool_insert_def pool_len_def)
qed

lemma pool_insert_indexes:
  assumes "indexes_ok m" "\<not> pool_contains m (tx_hash tx)" "nonce_key tx \<notin> pool_pending_nonces m"
  shows "indexes_ok (pool_insert m tx)"
proof -
  note txs = pool_insert_txs(1) [OF assms(1,2)]
  have "distinct (map fst (pool_transactions (pool_insert m tx)))"
    using AList.distinct_update [of "pool_transactions m"] indexes_okD(1) [OF assms(1)] by (simp add: pool_insert_def)
  moreover have "\<forall>(h, t) \<in> set (pool_transactions (pool_insert m tx)). tx_hash t = h"
  proof -
    have "tx_hash tx \<notin> set (map fst (pool_transactions m))"
      using assms(2) by (simp add: pool_contains_def pool_get_def map_of_eq_None_iff)
    then show ?thesis using indexes_okD(2) [OF assms(1)] by (auto simp: pool_insert_def update_fresh)
  qed
  moreover have "fee_order.index_of (fee_key_of ` pool_txs (pool_insert m tx)) (pool_fee_index (pool_insert m tx))"
    using fee_order.index_ins [OF indexes_okD(3) [OF assms(1)], of "fee_key_of tx"]
    unfolding txs by (simp add: pool_insert_def)
  moreover have "pool_pending_nonces (pool_insert m tx) = nonce_key ` pool_txs (pool_insert m tx)"
    unfolding txs using indexes_okD(4) [OF assms(1)] by (simp add: pool_insert_def nonce_key_def)
  moreover have "inj_on nonce_key (pool_txs (pool_insert m tx))"
    unfolding txs using indexes_okD(4,5) [OF assms(1)] assms(3) by auto
  ultimately show ?thesis by (simp add: indexes_ok_def)
qed

lemma set_delete_entry:
  assumes "distinct (map fst al)" "(k, v) \<in> set al"
  shows "set (AList.delete k al) = set al - {(k, v)}" "length al = Suc (length (AList.delete k al))"
proof -
  show "set (AList.delete k al) = set al - {(k, v)}"
    using assms eq_key_imp_eq_value [OF assms(1)] by (auto simp: AList.delete_eq)
  show "length al = Suc (length (AList.delete k al))"
    using assms
  proof (induction al)
    case Nil
    then show ?case by simp
  next
    case (Cons x al)
    show ?case
    proof (cases "x = (k, v)")
      case True
      then have "k \<notin> fst ` set al" using Cons.prems(1) by auto
      then have "AList.delete k al = al" by (simp add: AList.delete_idem)
      with True show ?thesis by simp
    next
      case False
      with Cons show ?thesis by (cases x) (force simp: image_iff)
    qed
  qed
qed

lemma pool_remove_txs:
  assumes "indexes_ok m" "pool_get m h = Some tx"
  shows "fst (pool_remove m h) = Some tx" "pool_txs (snd (pool_remove m h)) = pool_txs m - {tx}"
    "pool_len m = Suc (pool_len (snd (pool_remove m h)))" "indexes_ok (snd (pool_remove m h))"
proof -
  let ?m = "snd (pool_remove m h)"
  have mem: "(h, tx) \<in> set (pool_transactions m)" using assms(2) by (simp add: pool_get_def map_of_SomeD)
  have hash: "tx_hash tx = h" by (rule indexes_okD(2) [OF assms(1) mem])
  have tx: "tx \<in> pool_txs m" using mem by (force simp: pool_txs_def)
  note del = set_delete_entry [OF indexes_okD(1) [OF assms(1)] mem]
  have m: "?m = \<lparr>pool_transactions = AList.delete h (pool_transactions m),
      pool_fee_index = btree_remove (fee_key_of tx) (pool_fee_index m),
      pool_pending_nonces = pool_pending_nonces m - {nonce_key tx}\<rparr>"
    by (simp add: pool_remove_def assms(2) nonce_key_def)
  show "fst (pool_remove m h) = Some tx" by (simp add: pool_remove_def assms(2))
  show txs: "pool_txs ?m = pool_txs m - {tx}"
  proof -
    have "inj_on snd (set (pool_transactions m))"
      by (intro inj_onI) (metis indexes_okD(2) [OF assms(1)] prod.collapse)
    then have "snd ` (set (pool_transactions m) - {(h, tx)}) = pool_txs m - {tx}"
      using inj_on_image_set_diff [of snd "set (pool_transactions m)" "set (pool_transactions m)" "{(h, tx)}"] mem
      by (simp add: pool_txs_def)
    then show ?thesis using del(1) by (simp add: m pool_txs_def)
  qed
  show "pool_len m = Suc (pool_len ?m)" using del(2) by (simp add: m pool_len_def)
  have inj: "f ` (pool_txs m - {tx}) = f ` pool_txs m - {f tx}" if "inj_on f (pool_txs m)" for f :: "transaction \<Rightarrow> 'x"
    using inj_on_image_set_diff [OF that, of "pool_txs m" "{tx}"] tx by simp
  have keys: "inj_on fee_key_of (pool_txs m)"
    using tx_hash_inj [OF assms(1)] by (auto simp: inj_on_def fee_key_of_def)
  show "indexes_ok ?m"
    unfolding indexes_ok_def txs
  proof (intro conjI)
    show "distinct (map fst (pool_transactions ?m))"
      using AList.distinct_delete [OF indexes_okD(1) [OF assms(1)]] by (simp add: m)
    show "\<forall>(h, t) \<in> set (pool_transactions ?m). tx_hash t = h"
      using del(1) indexes_okD(2) [OF assms(1)] by (auto simp: m)
    show "fee_order.index_of (fee_key_of ` (pool_txs m - {tx})) (pool_fee_index ?m)"
      unfolding inj [OF keys] using fee_order.index_del [OF indexes_okD(3) [OF assms(1)]] by (simp add: m)
    show "pool_pending_nonces ?m = nonce_key ` (pool_txs m - {tx})"
      unfolding inj [OF indexes_okD(5) [OF assms(1)]] using indexes_okD(4) [OF assms(1)] by (simp add: m)
    show "inj_on nonce_key (pool_txs m - {tx})"
      using indexes_okD(5) [OF assms(1)] by (rule inj_on_diff)
  qed
qed

lemma pool_remove_ok: "mempool_ok m \<Longrightarrow> mempool_ok (snd (pool_remove m h))"
  using pool_remove_txs [of m h] by (cases "pool_get m h") (auto simp: mempool_ok_def pool_remove_def)

lemma remove_batch_ok: "mempool_ok m \<Longrightarrow> mempool_ok (remove_batch m hs)"
  by (induction hs arbitrary: m) (simp_all add: pool_remove_ok)

lemma remove_batch_txs:
  "indexes_ok m \<Longrightarrow> pool_txs (remove_batch m hs) = {tx \<in> pool_txs m. tx_hash tx \<notin> set hs}"
proof (induction hs arbitrary: m)
  case Nil
  then show ?case by simp
next
  case (Cons h hs)
  show ?case
  proof (cases "pool_get m h")
    case None
    then have "snd (pool_remove m h) = m" by (simp add: pool_remove_def)
    moreover have "tx_hash t \<noteq> h" if "t \<in> pool_txs m" for t
      using None that pool_get_iff [OF Cons.prems, of h t] by auto
    ultimately show ?thesis using Cons.IH [OF Cons.prems] by auto
  next
    case (Some tx)
    note r = pool_remove_txs [OF Cons.prems Some]
    have eq: "tx_hash t = h \<longleftrightarrow> t = tx" if "t \<in> pool_txs m" for t
    proof -
      have "tx_hash t = h \<longleftrightarrow> pool_get m h = Some t" using that by (simp add: pool_get_iff [OF Cons.prems])
      then show ?thesis by (auto simp: Some)
    qed
    have "{t \<in> pool_txs m - {tx}. tx_hash t \<notin> set hs} = {t \<in> pool_txs m. tx_hash t \<notin> set (h # hs)}"
      by (rule Collect_cong) (use eq in force)
    with Cons.IH [OF r(4)] r(2) show ?thesis by simp
  qed
qed

section \<open>Eviction\<close>

lemma evict_for_result:
  assumes "indexes_ok m" "evict_for m fee = (r, m')"
  obtains "pool_txs m = {}" "r = Inr ()" "m' = m"
  | tx where "tx \<in> pool_txs m" "\<forall>t \<in> pool_txs m. fee_key_of tx \<le> fee_key_of t" "fee \<le> tx_fee tx"
      "r = Inl PoolFullFeeTooLow" "m' = m"
  | tx where "tx \<in> pool_txs m" "\<forall>t \<in> pool_txs m. fee_key_of tx \<le> fee_key_of t" "tx_fee tx < fee"
      "r = Inr ()" "pool_txs m' = pool_txs m - {tx}" "pool_len m = Suc (pool_len m')" "indexes_ok m'"
proof (cases "pool_fee_index m")
  case Nil
  then have "pool_txs m = {}"
    using indexes_okD(3) [OF assms(1)] by (simp add: fee_order.index_Nil)
  with Nil assms(2) show thesis by (intro that(1)) (auto simp: evict_for_def)
next
  case (Cons lowest ks)
  have idx: "fee_order.index_of (fee_key_of ` pool_txs m) (lowest # ks)"
    using indexes_okD(3) [OF assms(1)] by (simp add: Cons)
  then have "lowest \<in> fee_key_of ` pool_txs m" by (auto simp: fee_order.index_of_def)
  then obtain tx where tx: "tx \<in> pool_txs m" "lowest = fee_key_of tx" by auto
  have least: "\<forall>t \<in> pool_txs m. fee_key_of tx \<le> fee_key_of t"
    using fee_order.index_least [OF idx] tx(2) by auto
  have get: "pool_get m (key_hash lowest) = Some tx"
    using tx by (simp add: pool_get_iff [OF assms(1)] fee_key_of_def)
  show thesis
  proof (cases "fee \<le> tx_fee tx")
    case True
    then have "r = Inl PoolFullFeeTooLow" "m' = m" using assms(2) tx(2) by (simp_all add: evict_for_def Cons fee_key_of_def)
    with tx least True show thesis by (intro that(2))
  next
    case False
    then have "r = Inr ()" "m' = snd (pool_remove m (key_hash lowest))"
      using assms(2) tx(2) by (simp_all add: evict_for_def Cons fee_key_of_def)
    with tx least False pool_remove_txs [OF assms(1) get] show thesis by (intro that(3)) simp_all
  qed
qed

section \<open>Admission\<close>

definition admitted_fields :: "transaction \<Rightarrow> bool" where
  "admitted_fields tx \<longleftrightarrow> tx_hash tx \<noteq> [] \<and> tx_signature tx \<noteq> [] \<and> tx_sender tx \<noteq> [] \<and> tx_receiver tx \<noteq> []"

lemma validate_structure_iff: "validate_structure tx = Inr u \<longleftrightarrow> admitted_fields tx"
  by (auto simp: validate_structure_def admitted_fields_def)

text \<open>A rejected transaction leaves the pool as it was.\<close>

lemma add_transaction_rejects:
  assumes "add_transaction B db m tx = (Inl e, m')"
  shows "m' = m"
proof -
  have ev: "m'' = m" if "evict_for m f = (Inl e', m'')" for e' f m''
    using that by (auto simp: evict_for_def split: list.splits if_splits)
  show ?thesis
    using assms unfolding add_transaction_def Let_def
    by (auto simp: read_bind_def st_bind_def ev split: sum.splits if_splits prod.splits)
qed

definition sender_account :: "'t backend \<Rightarrow> 't kyvera_db \<Rightarrow> transaction \<Rightarrow> account" where
  "sender_account B db tx = account_at (ledger B db) (tx_sender tx)"

lemma add_transaction_InrE:
  assumes "backend_ok B" "add_transaction B db m tx = (Inr (), m')"
  obtains m1 where "admitted_fields tx" "\<not> pool_contains m (tx_hash tx)" "nonce_key tx \<notin> pool_pending_nonces m"
    "required_balance tx \<le> acc_balance (sender_account B db tx)"
    "(\<forall>p \<in> pool_pending_nonces m. fst p \<noteq> tx_sender tx) \<longrightarrow> tx_nonce tx = acc_nonce (sender_account B db tx)"
    "(if max_mempool_size \<le> pool_len m then evict_for m (tx_fee tx) else (Inr (), m)) = (Inr (), m1)"
    "m' = pool_insert m1 tx"
proof -
  obtain u where v: "validate_structure tx = Inr u"
    using assms(2) unfolding add_transaction_def by (auto elim!: read_bind_InrE)
  then have rest: "\<not> pool_contains m (tx_hash tx)" "nonce_key tx \<notin> pool_pending_nonces m"
    and r: "read_bind m (map_err MalformedTransaction (get_account B db (tx_sender tx))) (\<lambda>found.
       let a = (case found of Some a \<Rightarrow> a | None \<Rightarrow> account_new (tx_sender tx));
           required = required_balance tx
       in if acc_balance a < required then
            (Inl (InsufficientBalance (tx_sender tx) required (acc_balance a)), m)
          else
            let has_other_pending = (\<exists>p \<in> pool_pending_nonces m. fst p = tx_sender tx) in
            if \<not> has_other_pending \<and> tx_nonce tx \<noteq> acc_nonce a then
              (Inl (InvalidNonce (acc_nonce a) (tx_nonce tx)), m)
            else
              st_bind (if max_mempool_size \<le> pool_len m then evict_for m (tx_fee tx) else (Inr (), m)) (\<lambda>_ m.
              (Inr (), pool_insert m tx))) = (Inr (), m')"
    using assms(2) unfolding add_transaction_def nonce_key_def by (auto split: if_splits)
  obtain found where f: "get_account B db (tx_sender tx) = Inr found" using r by (auto elim: read_bind_InrE)
  have a: "(case found of Some a \<Rightarrow> a | None \<Rightarrow> account_new (tx_sender tx)) = sender_account B db tx"
    using get_account_ledger [OF assms(1) f] by (simp add: sender_account_def account_at_def)
  have r': "(let has_other_pending = (\<exists>p \<in> pool_pending_nonces m. fst p = tx_sender tx) in
            if \<not> has_other_pending \<and> tx_nonce tx \<noteq> acc_nonce (sender_account B db tx) then
              (Inl (InvalidNonce (acc_nonce (sender_account B db tx)) (tx_nonce tx)), m)
            else
              st_bind (if max_mempool_size \<le> pool_len m then evict_for m (tx_fee tx) else (Inr (), m)) (\<lambda>_ m.
              (Inr (), pool_insert m tx))) = (Inr (), m')"
    and bal: "required_balance tx \<le> acc_balance (sender_account B db tx)"
    using r unfolding f by (auto simp: a Let_def not_less simp del: st_bind_simps split: if_splits)
  have nonce: "(\<forall>p \<in> pool_pending_nonces m. fst p \<noteq> tx_sender tx) \<longrightarrow> tx_nonce tx = acc_nonce (sender_account B db tx)"
    using r' by (auto simp: Let_def split: if_splits)
  have "st_bind (if max_mempool_size \<le> pool_len m then evict_for m (tx_fee tx) else (Inr (), m)) (\<lambda>_ m.
      (Inr (), pool_insert m tx)) = (Inr (), m')"
    using r' by (simp add: Let_def split: if_splits)
  then obtain m1 where "(if max_mempool_size \<le> pool_len m then evict_for m (tx_fee tx) else (Inr (), m)) = (Inr (), m1)"
    "m' = pool_insert m1 tx"
    by (auto elim!: st_bind_InrE)
  with v rest bal nonce show thesis by (intro that) (simp_all add: validate_structure_iff)
qed

text \<open>The pool after an admission: the transaction joins, and when the pool was full the
  cheapest one leaves, which pays strictly less.\<close>

lemma add_transaction_admits:
  assumes "backend_ok B" "mempool_ok m" "add_transaction B db m tx = (Inr (), m')"
  shows "mempool_ok m'" "pool_get m' (tx_hash tx) = Some tx"
    and "pool_txs m' = insert tx (pool_txs m)
      \<or> (\<exists>low \<in> pool_txs m. pool_len m = max_mempool_size \<and> tx_fee low < tx_fee tx
          \<and> (\<forall>t \<in> pool_txs m. tx_fee low \<le> tx_fee t) \<and> pool_txs m' = insert tx (pool_txs m - {low}))"
proof -
  obtain m1 where c: "\<not> pool_contains m (tx_hash tx)" "nonce_key tx \<notin> pool_pending_nonces m"
    and ev: "(if max_mempool_size \<le> pool_len m then evict_for m (tx_fee tx) else (Inr (), m)) = (Inr (), m1)"
    and m': "m' = pool_insert m1 tx"
    by (rule add_transaction_InrE [OF assms(1,3)])
  have ok: "indexes_ok m" and len: "pool_len m \<le> max_mempool_size" using assms(2) by (simp_all add: mempool_ok_def)
  have step: "indexes_ok m1 \<and> pool_len m1 < max_mempool_size \<and> pool_txs m1 \<subseteq> pool_txs m
    \<and> (pool_txs m1 = pool_txs m
      \<or> (\<exists>low \<in> pool_txs m. pool_len m = max_mempool_size \<and> tx_fee low < tx_fee tx
          \<and> (\<forall>t \<in> pool_txs m. tx_fee low \<le> tx_fee t) \<and> pool_txs m1 = pool_txs m - {low}))"
  proof (cases "max_mempool_size \<le> pool_len m")
    case False
    with ev ok show ?thesis by simp
  next
    case True
    with ev have e: "evict_for m (tx_fee tx) = (Inr (), m1)" by simp
    show ?thesis
    proof (rule evict_for_result [OF ok e])
      assume "pool_txs m = {}"
      then have "pool_len m = 0" using card_pool_txs [OF ok] by simp
      with True show ?thesis by (simp add: max_mempool_size_def)
    next
      fix low assume low: "low \<in> pool_txs m" "\<forall>t \<in> pool_txs m. fee_key_of low \<le> fee_key_of t"
        "tx_fee low < tx_fee tx" "pool_txs m1 = pool_txs m - {low}" "pool_len m = Suc (pool_len m1)" "indexes_ok m1"
      have "\<forall>t \<in> pool_txs m. tx_fee low \<le> tx_fee t"
        using low(2) fee_key_le_fee by (fastforce simp: fee_key_of_def)
      with low len True show ?thesis by auto
    qed simp
  qed
  then have m1: "indexes_ok m1" "\<not> pool_contains m1 (tx_hash tx)" "nonce_key tx \<notin> pool_pending_nonces m1"
    using c ok by (auto simp: pool_contains_iff indexes_okD(4))
  note ins = pool_insert_txs [OF m1(1,2)]
  have "indexes_ok m'" unfolding m' by (rule pool_insert_indexes [OF m1])
  then show "mempool_ok m'" using step ins(2) by (simp add: mempool_ok_def m')
  show "pool_get m' (tx_hash tx) = Some tx"
    using ins(1) pool_get_iff [OF \<open>indexes_ok m'\<close>] by (simp add: m')
  show "pool_txs m' = insert tx (pool_txs m)
      \<or> (\<exists>low \<in> pool_txs m. pool_len m = max_mempool_size \<and> tx_fee low < tx_fee tx
          \<and> (\<forall>t \<in> pool_txs m. tx_fee low \<le> tx_fee t) \<and> pool_txs m' = insert tx (pool_txs m - {low}))"
    using step ins(1) by (auto simp: m')
qed

lemma add_transaction_ok:
  assumes "backend_ok B" "mempool_ok m"
  shows "mempool_ok (snd (add_transaction B db m tx))"
proof (cases "add_transaction B db m tx")
  case (Pair r m')
  then show ?thesis
    using add_transaction_admits(1) [OF assms, of db tx m'] add_transaction_rejects [of B db m tx _ m'] assms(2)
    by (cases r) auto
qed

text \<open>With a readable account store the checks decide: a transaction that meets them is admitted.\<close>

definition admissible :: "'t backend \<Rightarrow> 't kyvera_db \<Rightarrow> mempool \<Rightarrow> transaction \<Rightarrow> bool" where
  "admissible B db m tx \<longleftrightarrow> admitted_fields tx \<and> tx_hash tx \<notin> tx_hash ` pool_txs m
     \<and> nonce_key tx \<notin> nonce_key ` pool_txs m
     \<and> required_balance tx \<le> acc_balance (sender_account B db tx)
     \<and> (tx_sender tx \<in> tx_sender ` pool_txs m \<or> tx_nonce tx = acc_nonce (sender_account B db tx))
     \<and> (pool_len m < max_mempool_size \<or> (\<exists>t \<in> pool_txs m. tx_fee t < tx_fee tx))"

lemma evict_for_cheaper:
  assumes "indexes_ok m" "t \<in> pool_txs m" "tx_fee t < fee"
  obtains m1 where "evict_for m fee = (Inr (), m1)"
proof -
  obtain r m1 where e: "evict_for m fee = (r, m1)" by fastforce
  show thesis
  proof (rule evict_for_result [OF assms(1) e])
    fix low assume low: "low \<in> pool_txs m" "\<forall>t \<in> pool_txs m. fee_key_of low \<le> fee_key_of t" "fee \<le> tx_fee low"
    from low(2) assms(2) have "tx_fee low \<le> tx_fee t"
      using fee_key_le_fee [of "fee_key_of low" "fee_key_of t"] by (simp add: fee_key_of_def)
    with low(3) assms(3) show thesis by simp
  qed (use e that assms(2) in simp_all)
qed

lemma add_transaction_accepts:
  assumes "backend_total B" "accounts_readable B db" "mempool_ok m" "admissible B db m tx"
  obtains m' where "add_transaction B db m tx = (Inr (), m')"
proof -
  have ok: "indexes_ok m" using assms(3) by (simp add: mempool_ok_def)
  have pend: "(\<exists>p \<in> pool_pending_nonces m. fst p = tx_sender tx) \<longleftrightarrow> tx_sender tx \<in> tx_sender ` pool_txs m"
    unfolding indexes_okD(4) [OF ok] by (auto simp: nonce_key_def image_iff) metis
  have acc: "(case ledger B db (tx_sender tx) of Some a \<Rightarrow> a | None \<Rightarrow> account_new (tx_sender tx)) = sender_account B db tx"
    by (simp add: sender_account_def account_at_def)
  obtain m1 where room: "(if max_mempool_size \<le> pool_len m then evict_for m (tx_fee tx) else (Inr (), m)) = (Inr (), m1)"
  proof (cases "max_mempool_size \<le> pool_len m")
    case True
    then obtain t where "t \<in> pool_txs m" "tx_fee t < tx_fee tx" using assms(4) by (auto simp: admissible_def)
    with True show thesis using evict_for_cheaper [OF ok] that by metis
  qed (use that in simp)
  have "validate_structure tx = Inr ()" using assms(4) by (simp add: validate_structure_iff admissible_def)
  then have "add_transaction B db m tx = (Inr (), pool_insert m1 tx)"
    unfolding add_transaction_def get_account_total [OF assms(1,2)] pend map_err_simps read_bind_simps Let_def acc room
    using assms(4) by (auto simp: admissible_def pool_contains_iff [OF ok] indexes_okD(4) [OF ok] nonce_key_def not_less)
  then show thesis by (rule that)
qed

lemma add_transaction_iff:
  assumes "backend_total B" "accounts_readable B db" "mempool_ok m"
  shows "fst (add_transaction B db m tx) = Inr () \<longleftrightarrow> admissible B db m tx"
proof
  assume "admissible B db m tx"
  then obtain m' where "add_transaction B db m tx = (Inr (), m')" by (rule add_transaction_accepts [OF assms])
  then show "fst (add_transaction B db m tx) = Inr ()" by simp
next
  have ok: "indexes_ok m" and bok: "backend_ok B"
    using assms by (simp_all add: mempool_ok_def backend_total_ok)
  assume "fst (add_transaction B db m tx) = Inr ()"
  then obtain m' where a: "add_transaction B db m tx = (Inr (), m')" by (metis prod.collapse)
  obtain m1 where c: "admitted_fields tx" "\<not> pool_contains m (tx_hash tx)" "nonce_key tx \<notin> pool_pending_nonces m"
    "required_balance tx \<le> acc_balance (sender_account B db tx)"
    "(\<forall>p \<in> pool_pending_nonces m. fst p \<noteq> tx_sender tx) \<longrightarrow> tx_nonce tx = acc_nonce (sender_account B db tx)"
    by (rule add_transaction_InrE [OF bok a])
  have "tx_sender tx \<in> tx_sender ` pool_txs m \<or> tx_nonce tx = acc_nonce (sender_account B db tx)"
    using c(5) by (force simp: indexes_okD(4) [OF ok] nonce_key_def)
  moreover have "pool_len m < max_mempool_size \<or> (\<exists>t \<in> pool_txs m. tx_fee t < tx_fee tx)"
  proof (rule disjCI)
    assume "\<not> (\<exists>t \<in> pool_txs m. tx_fee t < tx_fee tx)"
    then have ins: "pool_txs m' = insert tx (pool_txs m)"
      using add_transaction_admits(3) [OF bok assms(3) a] by blast
    have ok': "mempool_ok m'" by (rule add_transaction_admits(1) [OF bok assms(3) a])
    have "tx \<notin> pool_txs m" using c(2) by (auto simp: pool_contains_iff [OF ok])
    then have "pool_len m' = Suc (pool_len m)"
      using card_pool_txs [OF ok] card_pool_txs [of m'] ok' ins
      by (simp add: mempool_ok_def pool_txs_def)
    then show "pool_len m < max_mempool_size" using ok' by (simp add: mempool_ok_def)
  qed
  ultimately show "admissible B db m tx"
    using c(1-4) by (simp add: admissible_def pool_contains_iff [OF ok] indexes_okD(4) [OF ok])
qed

text \<open>The pools a node can have: any sequence of submissions, against any states of the database, and
  of removals.\<close>

inductive pool_run :: "'t backend \<Rightarrow> mempool \<Rightarrow> bool" for B :: "'t backend" where
  start: "pool_run B mempool_new"
| submit: "pool_run B m \<Longrightarrow> pool_run B (snd (add_transaction B db m tx))"
| discard: "pool_run B m \<Longrightarrow> pool_run B (snd (pool_remove m h))"
| confirm: "pool_run B m \<Longrightarrow> pool_run B (remove_batch m hs)"

lemma pool_run_ok:
  assumes "backend_ok B"
  shows "pool_run B m \<Longrightarrow> mempool_ok m"
  by (induction rule: pool_run.induct)
    (simp_all add: mempool_new_ok add_transaction_ok [OF assms] pool_remove_ok remove_batch_ok)

text \<open>Of two transactions in the pool no two share sender and nonce.\<close>

lemma pool_nonces_unique:
  "mempool_ok m \<Longrightarrow> t \<in> pool_txs m \<Longrightarrow> u \<in> pool_txs m \<Longrightarrow>
     tx_sender t = tx_sender u \<Longrightarrow> tx_nonce t = tx_nonce u \<Longrightarrow> t = u"
  using indexes_okD(5) [of m] by (auto simp: mempool_ok_def inj_on_def nonce_key_def)

section \<open>Selection for a block\<close>

lemma top_by_fee_keys:
  assumes "indexes_ok m"
  shows "map fee_key_of (top_by_fee m n) = take n (rev (pool_fee_index m))" "set (top_by_fee m n) \<subseteq> pool_txs m"
proof -
  have idx: "set (pool_fee_index m) = fee_key_of ` pool_txs m"
    using indexes_okD(3) [OF assms] by (simp add: fee_order.index_of_def)
  have one: "\<exists>tx. pool_get m (key_hash k) = Some tx \<and> fee_key_of tx = k \<and> tx \<in> pool_txs m"
    if k: "k \<in> set (pool_fee_index m)" for k
  proof -
    obtain tx where "tx \<in> pool_txs m" "k = fee_key_of tx" using k idx by auto
    then show ?thesis using pool_get_iff [OF assms] by (auto simp: fee_key_of_def)
  qed
  have all: "set ks \<subseteq> set (pool_fee_index m) \<Longrightarrow>
      map fee_key_of (List.map_filter (\<lambda>k. pool_get m (key_hash k)) ks) = ks
      \<and> set (List.map_filter (\<lambda>k. pool_get m (key_hash k)) ks) \<subseteq> pool_txs m" for ks
  proof (induction ks)
    case Nil
    then show ?case by (simp add: map_filter_simps)
  next
    case (Cons k ks)
    then show ?case using one [of k] by (auto simp: map_filter_simps)
  qed
  have "set (take n (rev (pool_fee_index m))) \<subseteq> set (pool_fee_index m)"
    using set_take_subset [of n "rev (pool_fee_index m)"] by simp
  from all [OF this] show "map fee_key_of (top_by_fee m n) = take n (rev (pool_fee_index m))"
    "set (top_by_fee m n) \<subseteq> pool_txs m" by (simp_all add: top_by_fee_def)
qed

text \<open>The selection is the \<open>n\<close> greatest by fee, best first: what is left out pays no more.\<close>

lemma top_by_fee_best:
  assumes "mempool_ok m"
  shows "length (top_by_fee m n) = min n (pool_len m)"
    and "sorted_wrt (\<lambda>t u. tx_fee u \<le> tx_fee t) (top_by_fee m n)"
    and "t \<in> pool_txs m \<Longrightarrow> t \<notin> set (top_by_fee m n) \<Longrightarrow> u \<in> set (top_by_fee m n) \<Longrightarrow> tx_fee t \<le> tx_fee u"
proof -
  have ok: "indexes_ok m" using assms by (simp add: mempool_ok_def)
  note keys = top_by_fee_keys [OF ok, of n] and idx = indexes_okD(3) [OF ok]
  have inj: "inj_on fee_key_of (pool_txs m)"
    using tx_hash_inj [OF ok] by (auto simp: inj_on_def fee_key_of_def)
  have card: "card (fee_key_of ` pool_txs m) = pool_len m"
    using card_image [OF inj] card_pool_txs [OF ok] by simp
  show "length (top_by_fee m n) = min n (pool_len m)"
    using fee_order.index_top(2) [OF idx, of n] arg_cong [OF keys(1), of length] card by simp
  have "sorted_wrt (\<lambda>t u. fee_key_of u < fee_key_of t) (top_by_fee m n)"
    using fee_order.index_top(1) [OF idx, of n] by (simp add: sorted_wrt_map flip: keys(1))
  then show "sorted_wrt (\<lambda>t u. tx_fee u \<le> tx_fee t) (top_by_fee m n)"
    by (rule sorted_wrt_mono_rel [rotated]) (metis fee_key.sel(1) fee_key_le_fee fee_key_of_def less_imp_le)
  assume t: "t \<in> pool_txs m" "t \<notin> set (top_by_fee m n)" and u: "u \<in> set (top_by_fee m n)"
  have "fee_key_of t \<notin> set (take n (rev (pool_fee_index m)))"
    using t keys(2) inj by (auto simp: inj_on_def simp flip: keys(1))
  moreover have "fee_key_of u \<in> set (take n (rev (pool_fee_index m)))"
    using u by (simp flip: keys(1))
  ultimately have "fee_key_of t < fee_key_of u" using fee_order.index_top(3) [OF idx] t(1) by blast
  then show "tx_fee t \<le> tx_fee u"
    using fee_key_le_fee [of "fee_key_of t" "fee_key_of u"] by (simp add: fee_key_of_def)
qed

end
