(* ===== verification/Node.thy ===== *)
theory Node
  imports Staking Genesis Pool
begin

text \<open>
  The operations on the stored state as one transition system. The repository has no node loop
  yet: the functions of \<open>storage/state_trie.rs\<close>, \<open>consensus/validators.rs\<close> and
  \<open>consensus/staking.rs\<close> are its entry points. A run is a sequence of their successful calls in
  any order; the relation \<open>runs\<close> is the set of those sequences.

  The lemmas are the invariants of a run: the tree stays well-formed, supply moves only by
  rewards and fees as long as no slash exceeds the stake (\<open>slash_in_range\<close>) and no withdrawal is
  overwritten, an account's nonce counts its transactions, and no transaction is taken
  twice.
\<close>

section \<open>What keeps what credits keep\<close>

definition credit_closed :: "'t backend \<Rightarrow> ('t kyvera_db \<Rightarrow> bool) \<Rightarrow> bool" where
  "credit_closed B P \<longleftrightarrow> (\<forall>db k amt. P db \<longrightarrow> P (snd (credit_account B db k amt)))"

lemma credit_closedD: "credit_closed B P \<Longrightarrow> P db \<Longrightarrow> P (snd (credit_account B db k amt))"
  by (simp add: credit_closed_def)

lemma credit_closed_write: "backend_ok B \<Longrightarrow> write_closed B UNIV P \<Longrightarrow> credit_closed B P"
  unfolding credit_closed_def by (blast intro: credit_account_closed)

lemma distribute_loop_closed:
  "credit_closed B P \<Longrightarrow> P db \<Longrightarrow> P (snd (distribute_loop B T W db d ws))"
proof (induction B T W db d ws rule: distribute_loop.induct)
  case (2 B T W db d address weight ws)
  show ?case
  proof (cases "0 < validator_share T W weight")
    case True
    then show ?thesis
      using 2 credit_closedD [OF 2(3,4)]
      by (auto simp: Let_def intro!: st_bind_closed [where P = P])
  next
    case False
    then show ?thesis using 2 by (simp add: Let_def)
  qed
qed simp

lemma apply_epoch_rewards_closed:
  assumes "credit_closed B P" "P db"
  shows "P (snd (apply_epoch_rewards B db cb fees))"
proof -
  have cb: "P (snd (apply_coinbase B db' cb share))" if "P db'" for db' share
    unfolding apply_coinbase_def
    using that credit_closedD [OF assms(1)] by (auto intro!: st_bind_closed [where P = P])
  have dist: "P (snd (distribute_validator_rewards B db' T))" if "P db'" for db' T
    unfolding distribute_validator_rewards_def Let_def
    using that distribute_loop_closed [OF assms(1)] by (auto intro!: read_bind_state [where P = P])
  show ?thesis
    unfolding apply_epoch_rewards_def Let_def
    using cb [OF assms(2)] dist credit_closedD [OF assms(1)]
    by (auto intro!: st_bind_closed [where P = P])
qed

lemma release_loop_closed:
  "credit_closed B P \<Longrightarrow> P db \<Longrightarrow> P (snd (release_loop B now db n ks rs))"
proof (induction rs arbitrary: db n ks)
  case (Cons r rs)
  show ?case
  proof (cases r)
    case (Inr kv)
    then show ?thesis
      using Cons credit_closedD [OF Cons.prems(1)]
      by (cases kv) (auto intro!: read_bind_state [where P = P] st_bind_closed [where P = P])
  qed (use Cons.prems(2) in simp)
qed simp

section \<open>Nonces\<close>

definition nonce_of :: "'t backend \<Rightarrow> 't kyvera_db \<Rightarrow> string \<Rightarrow> u64" where
  "nonce_of B db k = acc_nonce (account_at (ledger B db) k)"

definition nonces_are :: "'t backend \<Rightarrow> (string \<Rightarrow> u64) \<Rightarrow> 't kyvera_db \<Rightarrow> bool" where
  "nonces_are B f db \<longleftrightarrow> db_ok B db \<and> nonce_of B db = f"

lemma nonces_at: "nonces_are B f db \<Longrightarrow> acc_nonce (account_at (ledger B db) k) = f k"
  by (auto simp: nonces_are_def nonce_of_def)

lemma save_same_nonce:
  assumes "backend_ok B" "nonces_are B f db" "acc_nonce a = f (acc_address a)" "account_ok (acc_address a) a"
  shows "nonces_are B f (snd (save_account B db a))"
proof -
  let ?db' = "snd (save_account B db a)"
  have "acc_nonce (account_at (ledger B ?db') k) = f k" for k
    using save_account_atomic [OF assms(1), of db a] nonces_at [OF assms(2), of k] assms(3)
    by (elim disjE) (simp_all add: account_at_upd)
  moreover have "db_ok B ?db'"
    using save_account_db_ok [OF assms(1) _ assms(4)] assms(2) by (simp add: nonces_are_def)
  ultimately show ?thesis by (simp add: nonces_are_def nonce_of_def fun_eq_iff)
qed

lemma nonces_credit_closed:
  assumes "backend_ok B"
  shows "credit_closed B (nonces_are B f)"
  unfolding credit_closed_def
proof (intro allI impI)
  fix db k amt assume n: "nonces_are B f db"
  let ?a = "account_at (ledger B db) k"
  have aok: "account_ok k ?a" using n db_ok_at(1) by (auto simp: nonces_are_def)
  have "nonces_are B f (snd (save_account B db (?a\<lparr>acc_balance := b\<rparr>)))" for b
    by (rule save_same_nonce [OF assms n])
      (use aok nonces_at [OF n] in \<open>simp_all add: account_ok_def\<close>)
  then show "nonces_are B f (snd (credit_account B db k amt))"
    unfolding credit_account_def
    by (intro rmw_state [where P = "nonces_are B f"] read_bind_state [where P = "nonces_are B f"] assms n)
qed

section \<open>The operations and their runs\<close>

datatype node_op =
    Apply transaction
  | Rewards transaction u64
  | Unstake string u64 u64
  | Mature u64
  | Slash string u64

text \<open>Each step is a successful call with any arguments. Rewards list the accounts in a vector, which has
  fewer than \<open>2 ^ 63\<close> entries, so the number of accounts is below \<open>2 ^ 64 - 1\<close> whenever they succeed.\<close>

inductive node_step :: "'t backend \<Rightarrow> 't kyvera_db \<Rightarrow> node_op \<Rightarrow> 't kyvera_db \<Rightarrow> bool" for B where
  step_apply: "apply_transaction B db tx = (Inr (), db') \<Longrightarrow> node_step B db (Apply tx) db'"
| step_rewards: "card (dom (ledger B db)) + 1 < 2 ^ 64 \<Longrightarrow>
    apply_epoch_rewards B db cb fees = (Inr (), db') \<Longrightarrow> node_step B db (Rewards cb fees) db'"
| step_unstake: "request_unstake B db k amt e = (Inr p, db') \<Longrightarrow> node_step B db (Unstake k amt e) db'"
| step_mature: "process_matured_unstakes B db now = (Inr n, db') \<Longrightarrow> node_step B db (Mature now) db'"
| step_slash: "slash_validator B db k bps = (Inr r, db') \<Longrightarrow> node_step B db (Slash k bps) db'"

inductive_cases apply_stepE: "node_step B db (Apply tx) db'"
inductive_cases rewards_stepE: "node_step B db (Rewards cb fees) db'"
inductive_cases unstake_stepE: "node_step B db (Unstake k amt e) db'"
inductive_cases mature_stepE: "node_step B db (Mature now) db'"
inductive_cases slash_stepE: "node_step B db (Slash k bps) db'"

lemmas node_stepE = apply_stepE rewards_stepE unstake_stepE mature_stepE slash_stepE

inductive runs :: "'t backend \<Rightarrow> 't kyvera_db \<Rightarrow> node_op list \<Rightarrow> 't kyvera_db \<Rightarrow> bool" for B db where
  runs_Nil: "runs B db [] db"
| runs_snoc: "runs B db ops db1 \<Longrightarrow> node_step B db1 op db2 \<Longrightarrow> runs B db (ops @ [op]) db2"

section \<open>What one operation does\<close>

lemma slash_validator_closed:
  assumes "backend_ok B" "write_closed B UNIV P" "P db"
  shows "P (snd (slash_validator B db k bps))"
  unfolding slash_validator_def Let_def
proof (intro read_bind_state [where P = P] assms(3))
  fix found a
  assume f: "get_account B db k = Inr found" "ok_or found (''No account found for '' @ k) = Inr a"
  then have "ledger B db k = Some a" using get_account_ledger [OF assms(1) f(1)] by simp
  then have aok: "account_ok k a"
    using db_ok_at(1) [OF write_closedD(1) [OF assms(2,3)], of k] by (simp add: account_at_def)
  have save: "P (snd (save_account B db (update_validator_tier (a\<lparr>acc_staked := s\<rparr>))))" for s
    by (rule write_closedD(2) [OF assms(2,3), of k]) (use aok in \<open>simp_all add: account_ok_def\<close>)
  show "P (snd (if acc_staked a = 0 then (Inl (k @ '' has no staked balance to slash''), db)
      else if slash_amount_of (acc_staked a) bps = 0 then (Inr 0, db)
      else st_bind (save_account B db (update_validator_tier
          (a\<lparr>acc_staked := acc_staked a - slash_amount_of (acc_staked a) bps\<rparr>))) (\<lambda>_ db.
        st_bind (credit_account B db treasury_address (slash_amount_of (acc_staked a) bps)) (\<lambda>_ db.
        (Inr (slash_amount_of (acc_staked a) bps), db)))))"
    using assms(3) save credit_account_closed [OF assms(1,2)]
    by (auto intro!: st_bind_closed [where P = P])
qed

text \<open>Only requests and processing touch the queue.\<close>

lemma closed_frame:
  assumes "backend_ok B" "db_ok B db"
    and "\<And>P. write_closed B UNIV P \<Longrightarrow> P db \<Longrightarrow> P db'"
  shows "db_ok B db' \<and> queue B db' = queue B db"
proof -
  have "db_ok B db' \<and> same_but_accounts db db'"
    by (rule assms(3) [OF write_closed_frame [OF assms(1)]]) (simp add: assms(2))
  then show ?thesis using same_but_accounts_fields(4) queue_cong by blast
qed

lemma apply_frame:
  assumes "backend_ok B" "db_ok B db" "apply_transaction B db tx = (r, db')"
  shows "db_ok B db' \<and> queue B db' = queue B db"
  by (rule closed_frame [OF assms(1,2)])
    (use apply_transaction_closed [OF assms(1), of UNIV _ db tx] assms(3) in auto)

lemma rewards_frame:
  assumes "backend_ok B" "db_ok B db" "apply_epoch_rewards B db cb fees = (r, db')"
  shows "db_ok B db' \<and> queue B db' = queue B db"
  by (rule closed_frame [OF assms(1,2)])
    (use apply_epoch_rewards_closed [OF credit_closed_write [OF assms(1)], of _ db cb fees] assms(3) in auto)

lemma slash_frame:
  assumes "backend_ok B" "db_ok B db" "slash_validator B db k bps = (r, db')"
  shows "db_ok B db' \<and> queue B db' = queue B db"
  by (rule closed_frame [OF assms(1,2)]) (use slash_validator_closed [OF assms(1), of _ db k bps] assms(3) in auto)

fun minted :: "node_op \<Rightarrow> nat" where
  "minted (Rewards cb fees) = unat (tx_amount cb) + unat (calculate_validator_fee_share fees)"
| "minted _ = 0"

text \<open>Of a fee the ledger keeps the tenth that goes to the treasury.\<close>

fun taken :: "node_op \<Rightarrow> nat" where
  "taken (Apply tx) = unat (tx_fee tx) - unat (tx_fee tx) div 10"
| "taken _ = 0"

fun request_of :: "node_op \<Rightarrow> pending_unstake option" where
  "request_of (Unstake k amt e) =
     Some \<lparr>pu_address = k, pu_amount = amt, pu_request_epoch = e, pu_unlock_epoch = e + 10\<rparr>"
| "request_of _ = None"

text \<open>Nothing in the code keeps a slash within the whole stake; the supply theorems assume it.\<close>

fun slash_in_range :: "node_op \<Rightarrow> bool" where
  "slash_in_range (Slash k bps) \<longleftrightarrow> unat bps \<le> 10000"
| "slash_in_range _ \<longleftrightarrow> True"

text \<open>What a request displaces when its key is in use.\<close>

definition displaced :: "'t backend \<Rightarrow> 't kyvera_db \<Rightarrow> node_op \<Rightarrow> nat" where
  "displaced B db op = (case request_of op of None \<Rightarrow> 0
     | Some p \<Rightarrow> opt_total (\<lambda>p. unat (pu_amount p)) (queue B db (pending_key p)))"

fun sent_by :: "string \<Rightarrow> node_op \<Rightarrow> u64 list" where
  "sent_by k (Apply tx) = (if tx_sender tx = k then [tx_nonce tx] else [])"
| "sent_by k _ = []"

lemma step_db_ok: "backend_ok B \<Longrightarrow> db_ok B db \<Longrightarrow> node_step B db op db' \<Longrightarrow> db_ok B db'"
  by (erule node_step.cases)
    (auto dest: apply_frame rewards_frame slash_frame request_unstake_ledger(6) process_matured_result(6))

lemma step_funds:
  assumes "backend_ok B" "db_ok B db" "node_step B db op db'" "slash_in_range op"
  shows "all_funds B db' + taken op + displaced B db op = all_funds B db + minted op"
  using assms(3)
proof cases
  case (step_apply tx)
  have "ledger_apply (ledger B db) tx = Some (ledger B db')"
    by (rule apply_transaction_refines [OF assms(1,2) step_apply(2)])
  then have "ledger_funds (ledger B db') + unat (tx_fee tx)
      = ledger_funds (ledger B db) + unat (tx_fee tx) div 10"
    by (rule ledger_apply_funds [OF finite_ledger [OF assms(1)]])
  moreover have "queue_funds B db' = queue_funds B db"
    using apply_frame [OF assms(1,2) step_apply(2)] by (simp add: queue_funds_def)
  ultimately show ?thesis by (simp add: step_apply(1) all_funds_def displaced_def)
next
  case (step_rewards cb fees)
  have "queue_funds B db' = queue_funds B db"
    using rewards_frame [OF assms(1,2) step_rewards(3)] by (simp add: queue_funds_def)
  then show ?thesis
    using apply_epoch_rewards_funds [OF assms(1,2) step_rewards(2,3)]
    by (simp add: step_rewards(1) all_funds_def displaced_def)
next
  case (step_unstake k amt e p)
  have "request_of op = Some p"
    using request_unstake_ledger(3) [OF assms(1,2) step_unstake(2)] by (simp add: step_unstake(1))
  then show ?thesis
    using request_unstake_funds [OF assms(1,2) step_unstake(2)] by (simp add: step_unstake(1) displaced_def)
next
  case (step_mature now n)
  then show ?thesis using process_matured_funds [OF assms(1,2) step_mature(2)] by (simp add: displaced_def)
next
  case (step_slash k bps r)
  have "queue_funds B db' = queue_funds B db"
    using slash_frame [OF assms(1,2) step_slash(2)] by (simp add: queue_funds_def)
  moreover have "unat bps \<le> 10000" using assms(4) by (simp add: step_slash(1))
  ultimately show ?thesis
    using slash_validator_funds [OF assms(1,2) step_slash(2)]
    by (simp add: step_slash(1) all_funds_def displaced_def)
qed

lemma step_queue:
  assumes "backend_ok B" "db_ok B db" "node_step B db op db'"
  shows "dom (queue B db') \<subseteq> dom (queue B db) \<union> (case request_of op of None \<Rightarrow> {} | Some p \<Rightarrow> {pending_key p})"
  using assms(3)
proof cases
  case (step_apply tx)
  then show ?thesis using apply_frame [OF assms(1,2) step_apply(2)] by simp
next
  case (step_rewards cb fees)
  then show ?thesis using rewards_frame [OF assms(1,2) step_rewards(3)] by simp
next
  case (step_unstake k amt e p)
  note r = request_unstake_ledger [OF assms(1,2) step_unstake(2)]
  have "request_of op = Some p" using r(3) by (simp add: step_unstake(1))
  then show ?thesis using r(5) by auto
next
  case (step_mature now n)
  have "k \<in> dom (queue B db)" if "k \<in> dom (queue B db')" for k
    using that process_matured_result(1) [OF assms(1,2) step_mature(2), of k] by (auto split: option.splits)
  then show ?thesis by auto
next
  case (step_slash k bps r)
  then show ?thesis using slash_frame [OF assms(1,2) step_slash(2)] by simp
qed

section \<open>Nonces of a run\<close>

lemma remove_all_ledger:
  "backend_ok B \<Longrightarrow> ledger B (snd (run_all (remove_pending B) db ks)) = ledger B db"
proof (rule run_all_invariant [where P = "\<lambda>s. ledger B s = ledger B db"])
  fix s k assume l: "ledger B s = ledger B db"
  have "ledger B (snd (remove_pending B s k)) = ledger B s"
    by (cases "sled_remove B (db_metadata s) k") (simp add: remove_pending_def)
  with l show "ledger B (snd (remove_pending B s k)) = ledger B db" by simp
qed simp

lemma mature_nonces:
  assumes "backend_ok B" "nonces_are B f db" "process_matured_unstakes B db now = (Inr n, db')"
  shows "nonces_are B f db'"
proof -
  obtain ks db1 u where loop: "release_loop B now db 0 []
      (sled_scan_prefix B (db_metadata db) pending_unstake_prefix) = (Inr (n, ks), db1)"
    and rm: "run_all (remove_pending B) db1 ks = (Inr u, db')"
    using assms(3) unfolding process_matured_unstakes_def by (auto elim!: st_bind_InrE)
  have "nonces_are B f db1"
    using release_loop_closed [OF nonces_credit_closed [OF assms(1)] assms(2)] loop by (metis snd_conv)
  moreover have "ledger B db' = ledger B db1"
    using remove_all_ledger [OF assms(1), of db1 ks] by (simp add: rm)
  moreover from this have "nonce_of B db' = nonce_of B db1" by (intro ext) (simp add: nonce_of_def)
  ultimately show ?thesis by (simp add: nonces_are_def db_ok_def)
qed

lemma slash_nonces:
  assumes "backend_ok B" "nonces_are B f db" "slash_validator B db k bps = (Inr r, db')"
  shows "nonces_are B f db'"
proof -
  obtain found a where g: "get_account B db k = Inr found" and a: "found = Some a"
    using assms(3) unfolding slash_validator_def by (auto elim!: read_bind_InrE)
  have led: "ledger B db k = Some a" using get_account_ledger [OF assms(1) g] a by simp
  have dbok: "db_ok B db" using assms(2) by (simp add: nonces_are_def)
  have aok: "account_ok k a" using db_ok_at(1) [OF dbok, of k] led by (simp add: account_at_def)
  have n: "acc_nonce a = f k" using nonces_at [OF assms(2), of k] led by (simp add: account_at_def)
  have save: "nonces_are B f (snd (save_account B db (update_validator_tier (a\<lparr>acc_staked := s\<rparr>))))" for s
    by (rule save_same_nonce [OF assms(1,2)]) (use aok n in \<open>simp_all add: account_ok_def\<close>)
  have "nonces_are B f (snd (slash_validator B db k bps))"
    using assms(2) save credit_closedD [OF nonces_credit_closed [OF assms(1)]]
    by (auto simp: slash_validator_def Let_def g a intro!: st_bind_closed [where P = "nonces_are B f"])
  then show ?thesis by (simp add: assms(3))
qed

lemma step_nonces:
  assumes "backend_ok B" "db_ok B db" "node_step B db op db'"
  shows "sent_by k op = map (\<lambda>i. nonce_of B db k + of_nat i) [0..<length (sent_by k op)]"
    "nonce_of B db' k = nonce_of B db k + of_nat (length (sent_by k op))"
proof -
  have start: "nonces_are B (nonce_of B db) db" using assms(2) by (simp add: nonces_are_def)
  have "sent_by k op = map (\<lambda>i. nonce_of B db k + of_nat i) [0..<length (sent_by k op)]
    \<and> nonce_of B db' k = nonce_of B db k + of_nat (length (sent_by k op))"
    using assms(3)
  proof cases
    case (step_apply tx)
    have "ledger_apply (ledger B db) tx = Some (ledger B db')"
      by (rule apply_transaction_refines [OF assms(1,2) step_apply(2)])
    from ledger_apply_nonce [OF this] show ?thesis by (simp add: step_apply(1) nonce_of_def)
  next
    case (step_rewards cb fees)
    have "nonces_are B (nonce_of B db) db'"
      using apply_epoch_rewards_closed [OF nonces_credit_closed [OF assms(1)] start, of cb fees] step_rewards(3)
      by simp
    then show ?thesis by (simp add: step_rewards(1) nonces_are_def)
  next
    case (step_unstake a amt e p)
    then show ?thesis
      using request_unstake_ledger(4) [OF assms(1,2) step_unstake(2)] by (simp add: nonce_of_def account_at_upd)
  next
    case (step_mature now n)
    then show ?thesis using mature_nonces [OF assms(1) start step_mature(2)] by (simp add: nonces_are_def)
  next
    case (step_slash a bps r)
    then show ?thesis using slash_nonces [OF assms(1) start step_slash(2)] by (simp add: nonces_are_def)
  qed
  then show "sent_by k op = map (\<lambda>i. nonce_of B db k + of_nat i) [0..<length (sent_by k op)]"
    "nonce_of B db' k = nonce_of B db k + of_nat (length (sent_by k op))" by simp_all
qed

definition sent :: "string \<Rightarrow> node_op list \<Rightarrow> u64 list" where
  "sent k ops = concat (map (sent_by k) ops)"

lemma runs_db_ok: "runs B db ops db' \<Longrightarrow> backend_ok B \<Longrightarrow> db_ok B db \<Longrightarrow> db_ok B db'"
  by (induction rule: runs.induct) (auto intro: step_db_ok)

lemma map_upt_add:
  "map (\<lambda>i. c + of_nat i) [0..<m] @ map (\<lambda>i. c + of_nat m + of_nat i) [0..<n]
     = map (\<lambda>i. c + of_nat i :: u64) [0..<m + n]"
proof (induction n)
  case (Suc n)
  have "map (\<lambda>i. c + of_nat i) [0..<m] @ map (\<lambda>i. c + of_nat m + of_nat i) [0..<Suc n]
      = (map (\<lambda>i. c + of_nat i) [0..<m] @ map (\<lambda>i. c + of_nat m + of_nat i) [0..<n])
        @ [c + of_nat m + of_nat n :: u64]" by simp
  also have "\<dots> = map (\<lambda>i. c + of_nat i) [0..<m + n] @ [c + of_nat (m + n)]"
    unfolding Suc by simp
  finally show ?case by simp
qed simp

text \<open>The nonces a sender's transactions carry along a run count up by one from the nonce of its
  account.\<close>

lemma runs_nonces:
  assumes "runs B db ops db'" "backend_ok B" "db_ok B db"
  shows "sent k ops = map (\<lambda>i. nonce_of B db k + of_nat i) [0..<length (sent k ops)]
    \<and> nonce_of B db' k = nonce_of B db k + of_nat (length (sent k ops))"
  using assms(1)
proof induction
  case runs_Nil
  then show ?case by (simp add: sent_def)
next
  case (runs_snoc ops db1 op db2)
  have ok: "db_ok B db1" by (rule runs_db_ok [OF runs_snoc(1) assms(2,3)])
  note st = step_nonces [OF assms(2) ok runs_snoc(2), of k]
  have split: "sent k (ops @ [op]) = sent k ops @ sent_by k op" by (simp add: sent_def)
  have "sent_by k op = map (\<lambda>i. nonce_of B db k + of_nat (length (sent k ops)) + of_nat i) [0..<length (sent_by k op)]"
    using st(1) runs_snoc.IH by simp
  then have "sent k (ops @ [op]) = map (\<lambda>i. nonce_of B db k + of_nat i) [0..<length (sent k ops)]
      @ map (\<lambda>i. nonce_of B db k + of_nat (length (sent k ops)) + of_nat i) [0..<length (sent_by k op)]"
    using runs_snoc.IH split by metis
  also have "\<dots> = map (\<lambda>i. nonce_of B db k + of_nat i) [0..<length (sent k ops) + length (sent_by k op)]"
    by (rule map_upt_add)
  finally show ?case using st(2) runs_snoc.IH split by simp
qed

lemma distinct_counting:
  assumes "n \<le> 2 ^ 64"
  shows "distinct (map (\<lambda>i. c + of_nat i :: u64) [0..<n])"
proof -
  have "inj_on (\<lambda>i. c + of_nat i :: u64) {0..<n}"
  proof (rule inj_onI)
    fix i j assume "i \<in> {0..<n}" "j \<in> {0..<n}" and e: "c + of_nat i = (c + of_nat j :: u64)"
    then have "unat (of_nat i :: u64) = i" "unat (of_nat j :: u64) = j"
      using assms by (auto intro!: of_nat_inverse)
    moreover have "(of_nat i :: u64) = of_nat j" using e by (rule add_left_imp_eq)
    ultimately show "i = j" by metis
  qed
  then show ?thesis by (simp add: distinct_map)
qed

section \<open>Supply\<close>

lemma runs_funds_le:
  assumes "runs B db ops db'" "backend_ok B" "db_ok B db"
  shows "\<forall>op \<in> set ops. slash_in_range op \<Longrightarrow>
    all_funds B db' + (\<Sum>op\<leftarrow>ops. taken op) \<le> all_funds B db + (\<Sum>op\<leftarrow>ops. minted op)"
  using assms(1)
proof induction
  case (runs_snoc ops db1 op db2)
  then show ?case
    using step_funds [OF assms(2) runs_db_ok [OF runs_snoc(1) assms(2,3)] runs_snoc(2)] by simp
qed simp

definition request_keys :: "node_op list \<Rightarrow> bytes list" where
  "request_keys ops = map pending_key (List.map_filter request_of ops)"

lemma request_keys_snoc:
  "request_keys (ops @ [op]) = request_keys ops @ (case request_of op of None \<Rightarrow> [] | Some p \<Rightarrow> [pending_key p])"
  by (simp add: request_keys_def List.map_filter_def split: option.split)

lemma runs_queue:
  assumes "runs B db ops db'" "backend_ok B" "db_ok B db"
  shows "dom (queue B db') \<subseteq> dom (queue B db) \<union> set (request_keys ops)"
  using assms(1)
proof induction
  case (runs_snoc ops db1 op db2)
  have "dom (queue B db2) \<subseteq> dom (queue B db1)
      \<union> (case request_of op of None \<Rightarrow> {} | Some p \<Rightarrow> {pending_key p})"
    by (rule step_queue [OF assms(2) runs_db_ok [OF runs_snoc(1) assms(2,3)] runs_snoc(2)])
  also have "\<dots> \<subseteq> dom (queue B db) \<union> set (request_keys (ops @ [op]))"
    using runs_snoc.IH by (cases "request_of op") (auto simp: request_keys_snoc)
  finally show ?case .
qed simp

text \<open>When no request meets a pending one of the same address and epoch, the account is exact.\<close>

lemma runs_funds:
  assumes "runs B db ops db'" "backend_ok B" "db_ok B db"
  shows "distinct (request_keys ops) \<Longrightarrow> dom (queue B db) \<inter> set (request_keys ops) = {} \<Longrightarrow>
    \<forall>op \<in> set ops. slash_in_range op \<Longrightarrow>
    all_funds B db' + (\<Sum>op\<leftarrow>ops. taken op) = all_funds B db + (\<Sum>op\<leftarrow>ops. minted op)"
  using assms(1)
proof induction
  case (runs_snoc ops db1 op db2)
  have "displaced B db1 op = 0"
  proof (cases "request_of op")
    case (Some p)
    then have "pending_key p \<notin> set (request_keys ops)" "pending_key p \<notin> dom (queue B db)"
      using runs_snoc.prems by (auto simp: request_keys_snoc)
    then have "queue B db1 (pending_key p) = None"
      using runs_queue [OF runs_snoc(1) assms(2,3)] by blast
    then show ?thesis by (simp add: displaced_def Some)
  qed (simp add: displaced_def)
  moreover have "distinct (request_keys ops)" "dom (queue B db) \<inter> set (request_keys ops) = {}"
    using runs_snoc.prems by (auto simp: request_keys_snoc)
  ultimately show ?case
    using step_funds [OF assms(2) runs_db_ok [OF runs_snoc(1) assms(2,3)] runs_snoc(2)] runs_snoc.IH runs_snoc.prems
    by simp
qed simp

lemma request_keys_distinct:
  "distinct (map (\<lambda>p. (pu_address p, pu_request_epoch p)) (List.map_filter request_of ops)) \<Longrightarrow> distinct (request_keys ops)"
  unfolding request_keys_def
  by (induction ops) (auto simp: List.map_filter_simps pending_key_eq split: option.splits)

end
