(* ===== verification/Progress.thy ===== *)
theory Progress
  imports Node
begin

text \<open>
  When the operations of \<open>Node\<close> succeed. On a backend that reports no errors, over trees whose
  entries decode and with less than \<open>2 ^ 64\<close> units in all, the only reasons for a failure are
  the guards of the code: each lemma names them. The conditions are kept by every operation, so
  they hold along a run.
\<close>

section \<open>Readable stores\<close>

definition queue_readable :: "'t backend \<Rightarrow> 't kyvera_db \<Rightarrow> bool" where
  "queue_readable B db \<longleftrightarrow> (\<forall>k v. starts_with pending_unstake_prefix k \<longrightarrow> metadata B db k = Some v \<longrightarrow>
     decode_entry (pending_json B) v \<noteq> None)"

lemma queue_readable_cong: "db_metadata db' = db_metadata db \<Longrightarrow> queue_readable B db' = queue_readable B db"
  by (simp add: queue_readable_def metadata_def)

lemma store_ready_cong:
  assumes "db_accounts db' = db_accounts db"
  shows "store_ready B db' = store_ready B db"
  unfolding store_ready_def db_ok_def accounts_readable_def assms ledger_cong [OF assms, of B] ..

section \<open>Credits\<close>

lemma ready_credit_amount:
  assumes "store_ready B db" "ledger_funds (ledger B db) + unat amt < 2 ^ 64"
  obtains db' where "credit_account B db k amt = (Inr (), db')" "store_ready B db'"
    "ledger_funds (ledger B db') = ledger_funds (ledger B db) + unat amt"
proof -
  note r = store_readyD [OF assms(1)]
  obtain L' where l: "ledger_credit (ledger B db) k amt = Some L'"
    using ledger_credit_total [OF finite_ledger [OF r(2)] assms(2)] by blast
  obtain db' where c: "credit_account B db k amt = (Inr (), db')" "store_ready B db'"
    using ready_credit [OF assms(1) l] .
  with credits.credit_funds [OF r(2,3) c(1)] show thesis by (intro that)
qed

lemma ready_credits:
  assumes "store_ready B db" "ledger_funds (ledger B db) + (\<Sum>p\<leftarrow>ps. unat (snd p)) < 2 ^ 64"
  shows "\<exists>db'. run_all (\<lambda>db p. credit_account B db (fst p) (snd p)) db ps = (Inr (), db') \<and> store_ready B db'"
  using assms
proof (induction ps arbitrary: db)
  case (Cons p ps)
  obtain db1 where c: "credit_account B db (fst p) (snd p) = (Inr (), db1)" "store_ready B db1"
    "ledger_funds (ledger B db1) = ledger_funds (ledger B db) + unat (snd p)"
    by (rule ready_credit_amount [OF Cons.prems(1), of "snd p" "fst p"]) (use Cons.prems(2) in auto)
  have "\<exists>db'. run_all (\<lambda>db p. credit_account B db (fst p) (snd p)) db1 ps = (Inr (), db') \<and> store_ready B db'"
    by (rule Cons.IH [OF c(2)]) (use Cons.prems(2) c(3) in simp)
  with c(1) show ?case by simp
qed simp

section \<open>Requests and slashes\<close>

lemma ready_account: "store_ready B db \<Longrightarrow> ledger B db k = Some a \<Longrightarrow> account_ok k a"
  using db_ok_at(1) [OF store_readyD(3), of B db k] by (simp add: account_at_def)

lemma ready_get_account: "store_ready B db \<Longrightarrow> get_account B db k = Inr (ledger B db k)"
  by (simp add: get_account_total store_readyD)

lemma ready_request:
  assumes "store_ready B db" "ledger B db k = Some a" "amt \<le> acc_staked a"
  obtains p db' where "request_unstake B db k amt e = (Inr p, db')" "store_ready B db'"
    "queue_readable B db \<Longrightarrow> queue_readable B db'"
proof -
  note r = store_readyD [OF assms(1)]
  let ?a' = "update_validator_tier (a\<lparr>acc_staked := acc_staked a - amt\<rparr>)"
  let ?p = "\<lparr>pu_address = k, pu_amount = amt, pu_request_epoch = e, pu_unlock_epoch = e + 10\<rparr>"
  have aok: "account_ok (acc_address ?a') ?a'"
    using ready_account [OF assms(1,2)] by (simp add: account_ok_def)
  obtain db1 where s: "save_account B db ?a' = (Inr (), db1)" "store_ready B db1"
    by (rule ready_save [OF assms(1) aok]) (rule that)
  obtain bs where bs: "to_vec (pending_json B) ?p = Inr bs" using total_to_vec(6) [OF r(1)] by blast
  obtain db2 where m: "set_metadata B db1 (pending_key ?p) bs = (Inr (), db2)"
    using set_metadata_total [OF r(1)] by blast
  have "db_accounts db2 = db_accounts db1" using m by (auto elim!: set_metadata_okE)
  then have "store_ready B db2" using s(2) store_ready_cong by blast
  moreover have "queue_readable B db2" if "queue_readable B db"
  proof -
    have "metadata B db1 = metadata B db"
      using same_but_accounts_fields(4) [OF save_account_ledger(2) [OF r(2) s(1)]] by (simp add: metadata_def fun_eq_iff)
    then have "metadata B db2 = (metadata B db)(pending_key ?p \<mapsto> bs)"
      using set_metadata_view [OF backend_okD(1) [OF r(2)] m] by simp
    then show ?thesis
      using that to_vec_decode [OF backend_okD(7) [OF r(2)] bs] by (auto simp: queue_readable_def)
  qed
  moreover have "request_unstake B db k amt e = (Inr ?p, db2)"
    using assms(3) s(1) m
    by (simp add: request_unstake_def ready_get_account [OF assms(1)] assms(2) save_pending_unstake_def bs
        unbonding_period_epochs_def Let_def)
  ultimately show thesis by (intro that)
qed

lemma ready_slash:
  assumes "store_ready B db" "ledger_funds (ledger B db) < 2 ^ 64" "unat bps \<le> 10000"
    and "ledger B db k = Some a" "acc_staked a \<noteq> 0"
  obtains r db' where "slash_validator B db k bps = (Inr r, db')" "store_ready B db'"
proof (cases "slash_amount_of (acc_staked a) bps = 0")
  case True
  then show thesis
    using assms(5) by (intro that [of 0 db])
      (simp_all add: slash_validator_def ready_get_account assms(1,4))
next
  case False
  note rd = store_readyD [OF assms(1)]
  let ?x = "slash_amount_of (acc_staked a) bps"
  let ?a' = "update_validator_tier (a\<lparr>acc_staked := acc_staked a - ?x\<rparr>)"
  have aok: "account_ok k a" by (rule ready_account [OF assms(1,4)])
  then have ok': "account_ok (acc_address ?a') ?a'" by (simp add: account_ok_def)
  obtain db1 where s: "save_account B db ?a' = (Inr (), db1)" "store_ready B db1"
    "ledger B db1 = (ledger B db)(acc_address ?a' \<mapsto> ?a')"
    by (rule ready_save [OF assms(1) ok']) (rule that)
  have at: "account_at (ledger B db) k = a" by (simp add: account_at_def assms(4))
  have "unat (acc_staked a - ?x) + unat ?x = unat (acc_staked a)"
    using slash_amount_le [OF assms(3), of "acc_staked a"] by (simp add: unat_sub_le word_le_nat_alt)
  then have "ledger_funds (ledger B db1) + unat ?x = ledger_funds (ledger B db)"
    using ledger_funds_upd [OF finite_ledger [OF rd(2)], of db k ?a'] aok
    by (simp add: s(3) at account_ok_def account_funds_def)
  then obtain db2 where "credit_account B db1 treasury_address ?x = (Inr (), db2)" "store_ready B db2"
    using ready_credit_amount [OF s(2), of ?x treasury_address] assms(2) by auto
  then show thesis
    using assms(5) False s(1) by (intro that [of ?x db2])
      (simp_all add: slash_validator_def ready_get_account assms(1,4) Let_def)
qed

section \<open>Processing the queue\<close>

lemma release_loop_run:
  assumes "\<forall>(k, v) \<in> set kvs. decode_entry (pending_json B) v \<noteq> None"
    and "run_all (\<lambda>db p. credit_account B db (fst p) (snd p)) db
       (map (\<lambda>kp. (pu_address (snd kp), pu_amount (snd kp))) (matured now (entries B kvs))) = (Inr (), db')"
  shows "\<exists>n'. release_loop B now db n ks (map Inr kvs)
    = (Inr (n', ks @ map fst (matured now (entries B kvs))), db')"
  using assms
proof (induction kvs arbitrary: db n ks)
  case Nil
  then show ?case by (simp add: entries_def matured_def)
next
  case (Cons kv kvs)
  obtain k v where kv: "kv = (k, v)" by fastforce
  obtain p where dec: "decode_entry (pending_json B) v = Some p" using Cons.prems(1) by (auto simp: kv)
  then have p: "from_slice (pending_json B) v = Inr p" by (simp add: decode_entry_Some)
  have ent: "entries B (kv # kvs) = (k, p) # entries B kvs" by (simp add: entries_def kv dec)
  have rest: "\<forall>(k, v) \<in> set kvs. decode_entry (pending_json B) v \<noteq> None" using Cons.prems(1) by simp
  show ?case
  proof (cases "pu_unlock_epoch p \<le> now")
    case True
    obtain u db1 where c: "credit_account B db (pu_address p) (pu_amount p) = (Inr u, db1)"
      and run: "run_all (\<lambda>db p. credit_account B db (fst p) (snd p)) db1
        (map (\<lambda>kp. (pu_address (snd kp), pu_amount (snd kp))) (matured now (entries B kvs))) = (Inr (), db')"
      using Cons.prems(2) True unfolding ent by (auto simp: matured_def elim: st_bind_InrE)
    from Cons.IH [OF rest run, of "saturating_add n (pu_amount p)" "ks @ [k]"] show ?thesis
      using True c by (simp add: kv p) (simp add: ent [unfolded kv] matured_def)
  next
    case False
    then have "matured now (entries B (kv # kvs)) = matured now (entries B kvs)"
      unfolding ent by (simp add: matured_def)
    with Cons.IH [OF rest, of db n ks] Cons.prems(2) False show ?thesis by (simp add: kv p)
  qed
qed

lemma remove_pending_total:
  assumes "backend_total B"
  shows "\<exists>db'. remove_pending B db k = (Inr (), db')"
proof -
  obtain r t where "sled_remove B (db_metadata db) k = (Inr r, t)" using total_remove [OF assms] by blast
  then show ?thesis by (simp add: remove_pending_def on_metadata_def)
qed

lemma ready_mature:
  assumes "store_ready B db" "queue_readable B db" "all_funds B db < 2 ^ 64"
  obtains n db' where "process_matured_unstakes B db now = (Inr n, db')" "store_ready B db'"
proof -
  note rd = store_readyD [OF assms(1)]
  obtain kvs where scan: "sled_scan_prefix B (db_metadata db) pending_unstake_prefix = map Inr kvs"
    using total_scan [OF rd(1)] by blast
  have lm: "lists_map kvs (metadata B db |` {k. starts_with pending_unstake_prefix k})"
    using sled_scan_contents [OF backend_okD(1) [OF rd(2)] scan] by (simp add: metadata_def)
  have dec: "\<forall>(k, v) \<in> set kvs. decode_entry (pending_json B) v \<noteq> None"
    using assms(2) by (auto simp: lists_map_set [OF lm] queue_readable_def restrict_map_def split: if_splits)
  let ?ps = "map (\<lambda>kp. (pu_address (snd kp), pu_amount (snd kp))) (matured now (entries B kvs))"
  have "(\<Sum>p\<leftarrow>?ps. unat (snd p)) = (\<Sum>kp\<leftarrow>entries B kvs. if pu_unlock_epoch (snd kp) \<le> now then unat (pu_amount (snd kp)) else 0)"
    by (simp add: comp_def matured_def sum_list_filter_if)
  also have "\<dots> \<le> (\<Sum>kp\<leftarrow>entries B kvs. unat (pu_amount (snd kp)))" by (rule sum_list_mono) simp
  also have "\<dots> = queue_funds B db"
    using map_total_list [OF entries_queue(2) [OF lm dec], of "\<lambda>p. unat (pu_amount p)"]
    by (simp add: queue_funds_def entries_queue(1) [OF lm dec])
  finally have "ledger_funds (ledger B db) + (\<Sum>p\<leftarrow>?ps. unat (snd p)) < 2 ^ 64"
    using assms(3) by (simp add: all_funds_def)
  then obtain db1 where run: "run_all (\<lambda>db p. credit_account B db (fst p) (snd p)) db ?ps = (Inr (), db1)"
    and r1: "store_ready B db1"
    using ready_credits [OF assms(1)] by blast
  obtain n ks where loop: "release_loop B now db 0 [] (map Inr kvs) = (Inr (n, ks), db1)"
    using release_loop_run [OF dec run, of 0 "[]"] by auto
  obtain db2 where rm: "run_all (remove_pending B) db1 ks = (Inr (), db2)"
    using run_all_total [of ks "remove_pending B" db1] remove_pending_total [OF rd(1)] by blast
  have "db_accounts db2 = db_accounts db1"
  proof -
    have "db_accounts (snd (remove_pending B s k)) = db_accounts s" for s k
      by (simp add: remove_pending_def on_metadata_def)
    then have "db_accounts (snd (run_all (remove_pending B) db1 ks)) = db_accounts db1"
      by (intro run_all_invariant [where P = "\<lambda>s. db_accounts s = db_accounts db1"]) simp_all
    then show ?thesis by (simp add: rm)
  qed
  then have "store_ready B db2" using r1 store_ready_cong by blast
  moreover have "process_matured_unstakes B db now = (Inr n, db2)"
    by (simp add: process_matured_unstakes_def scan loop rm)
  ultimately show thesis by (intro that)
qed

section \<open>The rewards of an epoch\<close>

lemma collect_validators_total:
  "\<forall>(k, v) \<in> set kvs. decode_entry (account_json B) v \<noteq> None \<Longrightarrow>
     \<exists>vs. collect_validators B (map Inr kvs) = Inr vs"
proof (induction kvs)
  case (Cons kv kvs)
  obtain k v where kv: "kv = (k, v)" by fastforce
  obtain a where "from_slice (account_json B) v = Inr a"
    using Cons.prems by (auto simp: kv decode_entry_Some)
  then show ?case using Cons by (auto simp: kv)
qed simp

lemma ready_validators:
  assumes "store_ready B db"
  obtains vs where "get_validators B db = Inr vs"
proof -
  note rd = store_readyD [OF assms]
  obtain kvs where it: "sled_iter B (db_accounts db) = map Inr kvs" using total_iter [OF rd(1)] by blast
  have lm: "lists_map kvs (tree_contents B (db_accounts db))"
    by (rule sled_iter_contents [OF backend_okD(1) [OF rd(2)] it])
  have "decode_entry (account_json B) v \<noteq> None" if "(k, v) \<in> set kvs" for k v
  proof -
    have m: "tree_contents B (db_accounts db) k = Some v" using that lists_map_set [OF lm] by simp
    then have "k \<in> dom (ledger B db)" using rd(4) by (auto simp: accounts_readable_def)
    with m show ?thesis by (auto simp: ledger_def)
  qed
  then obtain vs where "collect_validators B (map Inr kvs) = Inr vs"
    using collect_validators_total [of kvs B] by auto
  then show thesis by (intro that) (simp add: get_validators_def it)
qed

lemma ready_distribute_loop:
  assumes "store_ready B db"
    and "ledger_funds (ledger B db) + (\<Sum>p\<leftarrow>ws. unat (validator_share T W (snd p))) < 2 ^ 64"
  shows "\<exists>r db'. distribute_loop B T W db d ws = (Inr r, db') \<and> store_ready B db'"
  using assms
proof (induction ws arbitrary: db d)
  case (Cons p ws)
  obtain k w where p: "p = (k, w)" by fastforce
  let ?s = "validator_share T W w"
  show ?case
  proof (cases "0 < ?s")
    case True
    obtain db1 where c: "credit_account B db k ?s = (Inr (), db1)" "store_ready B db1"
      "ledger_funds (ledger B db1) = ledger_funds (ledger B db) + unat ?s"
      by (rule ready_credit_amount [OF Cons.prems(1), of ?s k]) (use Cons.prems(2) in \<open>auto simp: p\<close>)
    have "\<exists>r db'. distribute_loop B T W db1 (saturating_add d ?s) ws = (Inr r, db') \<and> store_ready B db'"
      by (rule Cons.IH [OF c(2)]) (use Cons.prems(2) c(3) in \<open>simp add: p\<close>)
    with c(1) True show ?thesis by (simp add: p Let_def)
  next
    case False
    have "\<exists>r db'. distribute_loop B T W db d ws = (Inr r, db') \<and> store_ready B db'"
      by (rule Cons.IH [OF Cons.prems(1)]) (use Cons.prems(2) in \<open>simp add: p\<close>)
    with False show ?thesis by (simp add: p Let_def)
  qed
qed simp

lemma ready_distribute:
  assumes "store_ready B db" "ledger_funds (ledger B db) + unat T < 2 ^ 64"
    and "card (dom (ledger B db)) < 2 ^ 64"
  obtains r db' where "distribute_validator_rewards B db T = (Inr r, db')" "store_ready B db'"
proof -
  note rd = store_readyD [OF assms(1)]
  obtain vs where vs: "get_validators B db = Inr vs" by (rule ready_validators [OF assms(1)])
  let ?W = "\<Sum>p\<leftarrow>weights_of vs. u64_as_u128 (snd p)"
  show thesis
  proof (cases "T = 0 \<or> vs = [] \<or> ?W = 0")
    case True
    then show thesis
      using vs assms(1) by (intro that [of 0 db])
        (auto simp: distribute_validator_rewards_def get_active_validator_set_def weights_of_def Let_def)
  next
    case False
    have "length (weights_of vs) < 2 ^ 64"
      using validators_le_accounts [OF rd(2,3) vs] assms(3) by simp
    from sum_shares(3) [OF this refl, of T] False
    have "(\<Sum>p\<leftarrow>weights_of vs. unat (validator_share T ?W (snd p))) \<le> unat T" by simp
    then obtain r db' where "distribute_loop B T ?W db 0 (weights_of vs) = (Inr r, db')" "store_ready B db'"
      using ready_distribute_loop [OF assms(1), of T ?W "weights_of vs" 0] assms(2) by auto
    then show thesis
      using False vs by (intro that [of r db'])
        (simp_all add: distribute_validator_rewards_def get_active_validator_set_def weights_of_def Let_def)
  qed
qed

lemma card_dom_credit:
  assumes "backend_ok B" "db_ok B db" "run_all (\<lambda>db p. credit_account B db (fst p) (snd p)) db ps = (Inr (), db')"
  shows "card (dom (ledger B db')) \<le> card (dom (ledger B db)) + length ps"
  using assms(2,3)
proof (induction ps arbitrary: db)
  case (Cons p ps)
  obtain u db1 where c: "credit_account B db (fst p) (snd p) = (Inr u, db1)"
    and r: "run_all (\<lambda>db p. credit_account B db (fst p) (snd p)) db1 ps = (Inr (), db')"
    using Cons.prems(2) by (auto elim: st_bind_InrE)
  have "db_ok B db1" using credit_account_db_ok [OF assms(1) Cons.prems(1), of "fst p" "snd p"] c by simp
  note IH = Cons.IH [OF this r]
  have "card (dom (ledger B db1)) \<le> card (dom (ledger B db)) + 1"
    using credit_account_ledger(2) [OF assms(1) Cons.prems(1) c] finite_ledger [OF assms(1), of db]
    by (simp add: card_insert_if)
  with IH show ?case by simp
qed simp

lemma ready_coinbase:
  assumes "store_ready B db" "tx_sender cb = coinbase_sender"
    and "ledger_funds (ledger B db) + unat (tx_amount cb) + unat share < 2 ^ 64"
  obtains db' where "apply_coinbase B db cb share = (Inr (), db')" "store_ready B db'"
    "card (dom (ledger B db')) \<le> card (dom (ledger B db)) + 2"
proof -
  note rd = store_readyD [OF assms(1)]
  let ?ps = "filter (\<lambda>p. 0 < snd p) [(tx_receiver cb, tx_amount cb), (tx_receiver cb, share)]"
  have "(\<Sum>p\<leftarrow>?ps. unat (snd p)) = unat (tx_amount cb) + unat share"
    using sum_positive_credits [of "[(tx_receiver cb, tx_amount cb), (tx_receiver cb, share)]"] by simp
  then obtain db' where run: "run_all (\<lambda>db p. credit_account B db (fst p) (snd p)) db ?ps = (Inr (), db')" "store_ready B db'"
    using ready_credits [OF assms(1), of ?ps] assms(3) by auto
  have "length ?ps \<le> 2" by simp
  with card_dom_credit [OF rd(2,3) run(1)] have "card (dom (ledger B db')) \<le> card (dom (ledger B db)) + 2" by simp
  with run show thesis by (intro that) (simp_all add: apply_coinbase_credits assms(2))
qed

lemma ready_rewards:
  assumes "store_ready B db" "tx_sender cb = coinbase_sender"
    and "ledger_funds (ledger B db) + unat (tx_amount cb) + unat (calculate_validator_fee_share fees) < 2 ^ 64"
    and "card (dom (ledger B db)) + 2 < 2 ^ 64"
  obtains db' where "apply_epoch_rewards B db cb fees = (Inr (), db')"
proof -
  note rd = store_readyD [OF assms(1)]
  let ?T = "calculate_validator_fee_share fees"
  obtain db1 where cb: "apply_coinbase B db cb 0 = (Inr (), db1)" "store_ready B db1"
    "card (dom (ledger B db1)) \<le> card (dom (ledger B db)) + 2"
    by (rule ready_coinbase [OF assms(1,2), of 0]) (use assms(3) in auto)
  have f1: "ledger_funds (ledger B db1) = ledger_funds (ledger B db) + unat (tx_amount cb)"
    using apply_coinbase_pays(3) [OF rd(2,3) cb(1)] by simp
  have c1: "card (dom (ledger B db1)) < 2 ^ 64" using cb(3) assms(4) by simp
  obtain r db2 where dist: "distribute_validator_rewards B db1 ?T = (Inr r, db2)" "store_ready B db2"
    by (rule ready_distribute [OF cb(2), of ?T]) (use f1 assms(3) c1 in auto)
  note rd1 = store_readyD [OF cb(2)]
  obtain vs where vs: "get_validators B db1 = Inr vs" by (rule ready_validators [OF cb(2)])
  have "length vs < 2 ^ 64" using validators_le_accounts [OF rd1(2,3) vs] c1 by simp
  note d = distribute_ledger [OF rd1(2,3) vs this dist(1)]
  have "ledger_funds (ledger B db2) + unat (saturating_sub ?T r) < 2 ^ 64"
    using d(2,3) f1 assms(3) by (simp add: unat_saturating_sub word_le_nat_alt)
  then obtain db3 where "credit_account B db2 treasury_address (saturating_sub ?T r) = (Inr (), db3)"
    using ready_credit_amount [OF dist(2)] by blast
  then show thesis
    using cb(1) dist(1)
    by (intro that [of "if 0 < saturating_sub ?T r then db3 else db2"]) (simp add: apply_epoch_rewards_def Let_def)
qed

section \<open>Initialisation\<close>

lemma collect_account_hashes_total:
  assumes "backend_total B"
  shows "\<forall>(k, v) \<in> set kvs. utf8_valid k \<and> decode_entry (account_json B) v \<noteq> None \<Longrightarrow>
    \<exists>hs. collect_account_hashes H B (map Inr kvs) = Inr hs"
proof (induction kvs)
  case (Cons kv kvs)
  obtain k v where kv: "kv = (k, v)" by fastforce
  obtain a where a: "from_slice (account_json B) v = Inr a"
    using Cons.prems by (auto simp: kv decode_entry_Some)
  obtain js where js: "to_vec (account_json B) a = Inr js" using total_to_vec(1) [OF assms] by blast
  have "from_utf8 k = Inr k" using Cons.prems by (simp add: kv utf8_valid_def from_utf8_def)
  with a js Cons show ?case by (auto simp: kv)
qed simp

lemma ready_state_root:
  assumes "store_ready B db" "\<forall>k \<in> dom (ledger B db). utf8_valid k"
  obtains root where "compute_state_root H B db = Inr root"
proof -
  note rd = store_readyD [OF assms(1)]
  obtain kvs where it: "sled_iter B (db_accounts db) = map Inr kvs" using total_iter [OF rd(1)] by blast
  have lm: "lists_map kvs (tree_contents B (db_accounts db))"
    by (rule sled_iter_contents [OF backend_okD(1) [OF rd(2)] it])
  have "utf8_valid k \<and> decode_entry (account_json B) v \<noteq> None" if "(k, v) \<in> set kvs" for k v
  proof -
    have m: "tree_contents B (db_accounts db) k = Some v" using that lists_map_set [OF lm] by simp
    then have "k \<in> dom (ledger B db)" using rd(4) by (auto simp: accounts_readable_def)
    with m assms(2) show ?thesis by (auto simp: ledger_def)
  qed
  then obtain hs where "collect_account_hashes H B (map Inr kvs) = Inr hs"
    using collect_account_hashes_total [OF rd(1), of kvs H] by auto
  then have "\<exists>root. compute_state_root H B db = Inr root" by (simp add: compute_state_root_def it)
  then show thesis using that by blast
qed

lemma save_block_total:
  assumes "backend_total B"
  obtains db' where "save_block B db b = (Inr (), db')" "db_accounts db' = db_accounts db"
    "db_metadata db' = db_metadata db"
proof -
  obtain bs where bs: "to_vec (block_json B) b = Inr bs" using total_to_vec(2) [OF assms] by blast
  obtain t where t: "db_write B (db_blocks_by_hash db) (blk_hash b) bs = (Inr (), t)"
    using db_write_total [OF assms] by blast
  obtain t' where t': "db_write B (db_blocks_by_height db) (to_be_bytes (hdr_index (blk_header b))) (blk_hash b) = (Inr (), t')"
    using db_write_total [OF assms] by blast
  show thesis
    by (rule that [of "db\<lparr>db_blocks_by_hash := t, db_blocks_by_height := t'\<rparr>"])
      (simp_all add: save_block_def bs t t' on_blocks_by_hash_def on_blocks_by_height_def Let_def)
qed

lemma dom_after_credits:
  assumes "backend_ok B" "db_ok B db" "run_all (\<lambda>db p. credit_account B db (fst p) (snd p)) db ps = (Inr (), db')"
  shows "dom (ledger B db') \<subseteq> dom (ledger B db) \<union> fst ` set ps"
  using assms(2,3)
proof (induction ps arbitrary: db)
  case (Cons p ps)
  obtain u db1 where c: "credit_account B db (fst p) (snd p) = (Inr u, db1)"
    and r: "run_all (\<lambda>db p. credit_account B db (fst p) (snd p)) db1 ps = (Inr (), db')"
    using Cons.prems(2) by (auto elim: st_bind_InrE)
  have "db_ok B db1" using credit_account_db_ok [OF assms(1) Cons.prems(1), of "fst p" "snd p"] c by simp
  from Cons.IH [OF this r] show ?case
    using credit_account_ledger(2) [OF assms(1) Cons.prems(1) c] by auto
qed simp

lemma genesis_addresses_valid: "p \<in> set (genesis_credits @ [(genesis_miner, genesis_block_reward)]) \<Longrightarrow> utf8_valid (fst p)"
  by (rule utf8_valid_ascii)
    (auto simp: genesis_credits_def ecosystem_address_def founder_address_def community_address_def
      treasury_address_def genesis_miner_def)

lemma ready_initialize:
  assumes "store_ready B db" "load_chain_tip B db = Inr None" "produce_genesis_block H now genesis_miner = Inr g"
    and "ledger_funds (ledger B db) + 600000050 * 1000000000 < 2 ^ 64" "\<forall>k \<in> dom (ledger B db). utf8_valid k"
  obtains tip db' where "initialize_chain H B now db = (Inr tip, db')" "store_ready B db'"
proof -
  note rd = store_readyD [OF assms(1)]
  let ?credit = "\<lambda>db p. credit_account B db (fst p) (snd p)"
  let ?ps = "genesis_credits @ [(genesis_miner, genesis_block_reward)]"
  have sum: "(\<Sum>p\<leftarrow>?ps. unat (snd p)) = 600000050 * 1000000000"
    by (simp add: genesis_credits_def ecosystem_allocation_def founder_allocation_def
        community_allocation_def treasury_allocation_def unat_reward_constants)
  have fits: "ledger_funds (ledger B db) + (\<Sum>p\<leftarrow>?ps. unat (snd p)) < 2 ^ 64" unfolding sum by (rule assms(4))
  obtain db1 where run: "run_all ?credit db ?ps = (Inr (), db1)" "store_ready B db1"
    using ready_credits [OF assms(1) fits] by blast
  obtain dba where a: "run_all ?credit db genesis_credits = (Inr (), dba)"
    and m: "credit_account B dba genesis_miner genesis_block_reward = (Inr (), db1)"
    using run(1) unfolding run_all_append by (auto elim!: st_bind_InrE)
  obtain db2 where s: "save_block B db1 g = (Inr (), db2)" "db_accounts db2 = db_accounts db1"
    by (rule save_block_total [OF rd(1)]) (rule that)
  have r2: "store_ready B db2" using run(2) store_ready_cong [OF s(2)] by blast
  have "\<forall>k \<in> dom (ledger B db2). utf8_valid k"
  proof
    fix k assume "k \<in> dom (ledger B db2)"
    then have "k \<in> dom (ledger B db) \<union> fst ` set ?ps"
      using dom_after_credits [OF rd(2,3) run(1)] unfolding ledger_cong [OF s(2), of B] by blast
    then show "utf8_valid k"
      using assms(5) genesis_addresses_valid by (auto simp only: Un_iff image_iff)
  qed
  then obtain root where root: "compute_state_root H B db2 = Inr root" by (rule ready_state_root [OF r2])
  obtain db3 where db3: "save_state_root B db2 root = (Inr (), db3)"
    using set_metadata_total [OF rd(1)] unfolding save_state_root_def by blast
  have acc3: "db_accounts db3 = db_accounts db2"
    using db3 unfolding save_state_root_def by (auto elim!: set_metadata_okE)
  let ?tip = "advance tip_genesis g"
  obtain bs where bs: "to_vec (tip_json B) ?tip = Inr bs" using total_to_vec(4) [OF rd(1)] by blast
  obtain db4 where db4: "set_metadata B db3 chain_tip_key bs = (Inr (), db4)"
    using set_metadata_total [OF rd(1)] by blast
  have acc4: "db_accounts db4 = db_accounts db3" using db4 by (auto elim!: set_metadata_okE)
  have "initialize_chain H B now db = (Inr ?tip, db4)"
    by (simp add: initialize_chain_def assms(2,3) apply_genesis_allocations_credits a m s(1) root db3
        save_chain_tip_def bs db4 Let_def)
  moreover have "store_ready B db4"
    using r2 store_ready_cong [OF acc3, of B] store_ready_cong [OF acc4, of B] by simp
  ultimately show thesis by (rule that)
qed

section \<open>Snapshots\<close>

lemma ready_snapshot:
  assumes "store_ready B db" "load_state_root B db = Inr r"
  obtains snap where "take_snapshot H B db h addrs = Inr snap"
proof -
  have "snapshot_accounts B db addrs = Inr (map (\<lambda>k. (k, ledger B db k)) addrs)"
    by (induction addrs) (simp_all add: ready_get_account [OF assms(1)])
  then show thesis by (intro that) (simp add: take_snapshot_def assms(2) Let_def)
qed

lemma rollback_total:
  assumes "backend_total B"
  obtains db' where "rollback_to_snapshot B db snap = (Inr (), db')"
proof -
  have "\<exists>db'. restore_account B db e = (Inr (), db')" for db e
    using save_account_total [OF assms] db_delete_total [OF assms, of "db_accounts db" "fst e"]
    by (cases "snd e") (auto simp: restore_account_def on_accounts_def)
  then obtain db1 where r: "run_all (restore_account B) db (snap_accounts snap) = (Inr (), db1)"
    using run_all_total [of "snap_accounts snap" "restore_account B" db] by blast
  obtain db2 where "save_state_root B db1 (snap_state_root snap) = (Inr (), db2)"
    using set_metadata_total [OF assms] unfolding save_state_root_def by blast
  with r show thesis by (intro that) (simp add: rollback_to_snapshot_def)
qed

end
