(* ===== verification/Reference.thy ===== *)
theory Reference
  imports Crates
begin

text \<open>
  A concrete instance of the parameters of \<open>Crates\<close>: a tree is an association list in memory,
  a struct is encoded as its escaped fields, and the digest keeps the last bytes of the input.
  The instance shows that the laws \<open>hashing_ok\<close> and \<open>backend_total\<close> can hold together; it has
  no counterpart in the source, and no theorem about the program depends on it beyond its
  witness.
\<close>

section \<open>Hexadecimal text and a digest\<close>

definition hex_char :: "nat \<Rightarrow> char" where
  "hex_char n = ''0123456789abcdef'' ! n"

definition hex_value :: "char \<Rightarrow> nat option" where
  "hex_value c =
     (let b = (of_char c :: nat) in
      if 48 \<le> b \<and> b \<le> 57 then Some (b - 48)
      else if 97 \<le> b \<and> b \<le> 102 then Some (b - 87)
      else if 65 \<le> b \<and> b \<le> 70 then Some (b - 55)
      else None)"

definition ref_hex_encode :: "bytes \<Rightarrow> string" where
  "ref_hex_encode bs = concat (map (\<lambda>c. [hex_char (of_char c div 16), hex_char (of_char c mod 16)]) bs)"

fun ref_hex_decode :: "string \<Rightarrow> string + bytes" where
  "ref_hex_decode [] = Inr []"
| "ref_hex_decode [c] = Inl ''Odd number of digits''"
| "ref_hex_decode (a # b # r) =
     (case (hex_value a, hex_value b) of
        (Some x, Some y) \<Rightarrow> res_bind (ref_hex_decode r) (\<lambda>bs. Inr (char_of (16 * x + y) # bs))
      | _ \<Rightarrow> Inl ''Invalid character'')"

definition ref_digest :: "bytes \<Rightarrow> bytes" where
  "ref_digest bs = CHR 0x00 # take 31 (rev bs @ replicate 31 (CHR 0x00))"

definition ref_hashing :: hashing where
  "ref_hashing = \<lparr>sha3_256_digest = ref_digest, hex_encode = ref_hex_encode, hex_decode = ref_hex_decode\<rparr>"

lemma nibble_cases: "n < 16 \<Longrightarrow> n \<in> {0, 1, 2, 3, 4, 5, 6, 7, 8, 9, 10, 11, 12, 13, 14, 15 :: nat}"
  by (simp only: insert_iff empty_iff, presburger)

lemma hex_value_char: "n < 16 \<Longrightarrow> hex_value (hex_char n) = Some n"
  by (drule nibble_cases) (auto simp: hex_value_def hex_char_def)

lemma hex_char_digit: "n < 16 \<Longrightarrow> hex_char n \<in> lower_hex_digits"
  by (simp add: hex_char_def lower_hex_digits_def nth_mem del: set_simps)

lemma high_nibble: "(of_char c :: nat) div 16 < 16"
  by (rule less_mult_imp_div_less) (use nat_of_char_less_256 [of c] in simp)

lemma ref_hex_roundtrip: "ref_hex_decode (ref_hex_encode bs) = Inr bs"
proof (induction bs)
  case (Cons c bs)
  have "hex_value (hex_char (of_char c div 16)) = Some (of_char c div 16)"
    "hex_value (hex_char (of_char c mod 16)) = Some (of_char c mod 16)"
    by (simp_all add: hex_value_char high_nibble)
  then show ?case using Cons by (simp add: ref_hex_encode_def)
qed (simp add: ref_hex_encode_def)

lemma ref_hex_digits: "set (ref_hex_encode bs) \<subseteq> lower_hex_digits"
  by (auto simp: ref_hex_encode_def hex_char_digit high_nibble)

lemma ref_hashing_ok: "hashing_ok ref_hashing"
proof -
  have "length (ref_hex_encode bs) = 2 * length bs" for bs
    by (induction bs) (simp_all add: ref_hex_encode_def)
  moreover have "length (ref_digest bs) = 32" for bs by (simp add: ref_digest_def)
  ultimately show ?thesis
    by (simp add: hashing_ok_def ref_hashing_def ref_hex_roundtrip ref_hex_digits)
qed

section \<open>Fields as bytes\<close>

text \<open>A field ends with the byte 0; the bytes 0 and 1 inside it follow an escape byte 1.\<close>

fun esc :: "bytes \<Rightarrow> bytes" where
  "esc [] = [CHR 0x00]"
| "esc (c # cs) = (if c = CHR 0x00 \<or> c = CHR 0x01 then CHR 0x01 # c # esc cs else c # esc cs)"

text \<open>The field read so far, and the fields after it.\<close>

fun unesc :: "bytes \<Rightarrow> bytes \<Rightarrow> bytes list" where
  "unesc f [] = []"
| "unesc f (c # cs) =
     (if c = CHR 0x00 then f # unesc [] cs
      else if c = CHR 0x01 then (case cs of [] \<Rightarrow> [] | d # ds \<Rightarrow> unesc (f @ [d]) ds)
      else unesc (f @ [c]) cs)"

lemma unesc_esc: "unesc f (esc x @ r) = (f @ x) # unesc [] r"
  by (induction x arbitrary: f) auto

lemma unesc_fields: "unesc [] (concat (map esc xs)) = xs"
  by (induction xs) (simp_all add: unesc_esc)

definition nat_of_string :: "string \<Rightarrow> nat" where
  "nat_of_string s = foldl (\<lambda>acc c. acc * 10 + (of_char c - 48)) 0 s"

lemma nat_of_dec_string [simp]: "nat_of_string (dec_string n) = n"
proof (induction n rule: dec_string.induct)
  case (1 n)
  show ?case
    using 1 by (cases "n < 10")
      (simp_all add: nat_of_string_def dec_string.simps [of n] of_char_digit_char)
qed

definition enc_int :: "int \<Rightarrow> string" where
  "enc_int i = (if i < 0 then ''-'' else ''+'') @ dec_string (nat \<bar>i\<bar>)"

definition dec_int :: "string \<Rightarrow> int" where
  "dec_int s = (if take 1 s = ''-'' then - int (nat_of_string (tl s)) else int (nat_of_string (tl s)))"

lemma dec_enc_int [simp]: "dec_int (enc_int i) = i"
  by (simp add: dec_int_def enc_int_def)

definition enc_word :: "'n::len word \<Rightarrow> string" where
  "enc_word w = dec_string (unat w)"

definition dec_word :: "string \<Rightarrow> 'n::len word" where
  "dec_word s = of_nat (nat_of_string s)"

lemma dec_enc_word [simp]: "dec_word (enc_word w) = w"
  by (simp add: dec_word_def enc_word_def)

definition enc_bool :: "bool \<Rightarrow> string" where
  "enc_bool b = (if b then ''1'' else ''0'')"

definition dec_bool :: "string \<Rightarrow> bool" where
  "dec_bool s \<longleftrightarrow> s = ''1''"

lemma dec_enc_bool [simp]: "dec_bool (enc_bool b) = b"
  by (simp add: dec_bool_def enc_bool_def)

definition enc_list :: "string list \<Rightarrow> string" where
  "enc_list xs = concat (map esc xs)"

lemma dec_enc_list [simp]: "unesc [] (enc_list xs) = xs"
  by (simp add: enc_list_def unesc_fields)

section \<open>Encoders of the structs\<close>

definition field_codec :: "('a \<Rightarrow> string list) \<Rightarrow> (string list \<Rightarrow> 'a option) \<Rightarrow> 'a codec" where
  "field_codec enc dec =
     \<lparr>to_vec = (\<lambda>x. Inr (enc_list (enc x))),
      from_slice = (\<lambda>bs. ok_or (dec (unesc [] bs)) ''bad encoding'')\<rparr>"

lemma field_codec_ok:
  assumes "\<And>x. dec (enc x) = Some x"
  shows "codec_ok (field_codec enc dec)" "codec_total (field_codec enc dec)"
  using assms by (auto simp: codec_ok_def codec_total_def field_codec_def)

fun enc_tier :: "validator_tier option \<Rightarrow> string" where
  "enc_tier None = ''n''"
| "enc_tier (Some Igniter) = ''i''"
| "enc_tier (Some Kinetic) = ''k''"
| "enc_tier (Some Nexus) = ''x''"

definition dec_tier :: "string \<Rightarrow> validator_tier option" where
  "dec_tier s = (if s = ''i'' then Some Igniter else if s = ''k'' then Some Kinetic
     else if s = ''x'' then Some Nexus else None)"

lemma dec_enc_tier [simp]: "dec_tier (enc_tier t) = t"
  by (cases t rule: enc_tier.cases) (simp_all add: dec_tier_def)

fun enc_type :: "transaction_type \<Rightarrow> string" where
  "enc_type Transfer = ''t''"
| "enc_type StakeLock = ''l''"
| "enc_type StakeUnlock = ''u''"
| "enc_type ContractDeploy = ''d''"
| "enc_type ContractCall = ''c''"

definition dec_type :: "string \<Rightarrow> transaction_type" where
  "dec_type s = (if s = ''t'' then Transfer else if s = ''l'' then StakeLock
     else if s = ''u'' then StakeUnlock else if s = ''d'' then ContractDeploy else ContractCall)"

lemma dec_enc_type [simp]: "dec_type (enc_type t) = t"
  by (cases t) (simp_all add: dec_type_def)

definition enc_account :: "account \<Rightarrow> string list" where
  "enc_account a = [acc_address a, enc_word (acc_balance a), enc_word (acc_staked a), enc_word (acc_nonce a),
     enc_tier (acc_tier a), enc_bool (acc_is_contract a), enc_word (acc_last_reward_epoch a)]"

fun dec_account :: "string list \<Rightarrow> account option" where
  "dec_account [k, b, s, n, t, c, e] = Some \<lparr>acc_address = k, acc_balance = dec_word b,
     acc_staked = dec_word s, acc_nonce = dec_word n, acc_tier = dec_tier t,
     acc_is_contract = dec_bool c, acc_last_reward_epoch = dec_word e\<rparr>"
| "dec_account _ = None"

definition enc_tx :: "transaction \<Rightarrow> string list" where
  "enc_tx t = [tx_hash t, tx_sender t, tx_receiver t, enc_word (tx_amount t), enc_word (tx_fee t),
     enc_word (tx_nonce t), tx_signature t, enc_int (tx_timestamp t), enc_type (tx_type t), tx_data t]"

fun dec_tx :: "string list \<Rightarrow> transaction option" where
  "dec_tx [h, s, r, a, f, n, g, t, y, d] = Some \<lparr>tx_hash = h, tx_sender = s, tx_receiver = r,
     tx_amount = dec_word a, tx_fee = dec_word f, tx_nonce = dec_word n, tx_signature = g,
     tx_timestamp = dec_int t, tx_type = dec_type y, tx_data = d\<rparr>"
| "dec_tx _ = None"

definition enc_header :: "block_header \<Rightarrow> string list" where
  "enc_header h = [enc_word (hdr_index h), enc_int (hdr_timestamp h), hdr_previous_hash h, hdr_merkle_root h,
     enc_word (hdr_nonce h), enc_word (hdr_difficulty h), enc_bool (hdr_is_epoch h),
     enc_word (hdr_epoch_index h), hdr_state_root h]"

fun dec_header :: "string list \<Rightarrow> block_header option" where
  "dec_header [i, t, p, m, n, d, e, x, s] = Some \<lparr>hdr_index = dec_word i, hdr_timestamp = dec_int t,
     hdr_previous_hash = p, hdr_merkle_root = m, hdr_nonce = dec_word n, hdr_difficulty = dec_word d,
     hdr_is_epoch = dec_bool e, hdr_epoch_index = dec_word x, hdr_state_root = s\<rparr>"
| "dec_header _ = None"

definition enc_block :: "block \<Rightarrow> string list" where
  "enc_block b = [enc_list (enc_header (blk_header b)), enc_list (blk_tx_hashes b), blk_hash b,
     blk_validator_signature b, blk_producer b, enc_word (blk_reward b)]"

fun dec_block :: "string list \<Rightarrow> block option" where
  "dec_block [h, ts, g, v, p, r] = map_option (\<lambda>hd. \<lparr>blk_header = hd, blk_tx_hashes = unesc [] ts,
     blk_hash = g, blk_validator_signature = v, blk_producer = p, blk_reward = dec_word r\<rparr>)
     (dec_header (unesc [] h))"
| "dec_block _ = None"

definition enc_tip :: "chain_tip \<Rightarrow> string list" where
  "enc_tip t = [tip_hash t, enc_word (tip_height t), enc_int (tip_timestamp t), enc_word (tip_difficulty t),
     enc_word (tip_epoch_index t), enc_word (tip_total_work t)]"

fun dec_tip :: "string list \<Rightarrow> chain_tip option" where
  "dec_tip [h, n, t, d, e, w] = Some \<lparr>tip_hash = h, tip_height = dec_word n, tip_timestamp = dec_int t,
     tip_difficulty = dec_word d, tip_epoch_index = dec_word e, tip_total_work = dec_word w\<rparr>"
| "dec_tip _ = None"

definition enc_entry :: "string \<times> account option \<Rightarrow> string" where
  "enc_entry p = enc_list (fst p # (case snd p of None \<Rightarrow> [] | Some a \<Rightarrow> enc_account a))"

definition dec_entry :: "string \<Rightarrow> string \<times> account option" where
  "dec_entry s = (case unesc [] s of [] \<Rightarrow> ([], None) | k # fs \<Rightarrow> (k, dec_account fs))"

definition enc_snapshot :: "state_snapshot \<Rightarrow> string list" where
  "enc_snapshot s = [enc_word (snap_height s), snap_state_root s, enc_list (map enc_entry (snap_accounts s))]"

fun dec_snapshot :: "string list \<Rightarrow> state_snapshot option" where
  "dec_snapshot [h, r, es] = Some \<lparr>snap_height = dec_word h, snap_state_root = r,
     snap_accounts = map dec_entry (unesc [] es)\<rparr>"
| "dec_snapshot _ = None"

definition enc_pending :: "pending_unstake \<Rightarrow> string list" where
  "enc_pending p = [pu_address p, enc_word (pu_amount p), enc_word (pu_request_epoch p), enc_word (pu_unlock_epoch p)]"

fun dec_pending :: "string list \<Rightarrow> pending_unstake option" where
  "dec_pending [k, a, r, u] = Some \<lparr>pu_address = k, pu_amount = dec_word a, pu_request_epoch = dec_word r,
     pu_unlock_epoch = dec_word u\<rparr>"
| "dec_pending _ = None"

lemma dec_enc_account: "dec_account (enc_account a) = Some a"
  by (simp add: enc_account_def)

lemma dec_enc_entry: "dec_entry (enc_entry p) = p"
  by (cases p; cases "snd p") (simp_all add: dec_entry_def enc_entry_def dec_enc_account)

lemma struct_roundtrips:
  "dec_tx (enc_tx t) = Some t" "dec_header (enc_header h) = Some h" "dec_tip (enc_tip c) = Some c"
  "dec_pending (enc_pending p) = Some p"
  by (simp_all add: enc_tx_def enc_header_def enc_tip_def enc_pending_def)

lemma dec_enc_block: "dec_block (enc_block b) = Some b"
  by (simp add: enc_block_def struct_roundtrips)

lemma dec_enc_snapshot: "dec_snapshot (enc_snapshot s) = Some s"
proof -
  have "map (dec_entry \<circ> enc_entry) (snap_accounts s) = snap_accounts s"
    by (rule map_idI) (simp add: dec_enc_entry)
  then show ?thesis by (simp add: enc_snapshot_def)
qed

section \<open>Trees in memory\<close>

type_synonym mem_tree = "(bytes \<times> bytes) list"

definition mem_keys :: "mem_tree \<Rightarrow> bytes list" where
  "mem_keys t = sort (remdups (map fst t))"

definition mem_entries :: "(bytes \<Rightarrow> bool) \<Rightarrow> mem_tree \<Rightarrow> (string + bytes \<times> bytes) list" where
  "mem_entries P t = map (\<lambda>k. Inr (k, the (map_of t k))) (filter P (mem_keys t))"

definition mem_backend :: "mem_tree backend" where
  "mem_backend =
     \<lparr>sled_open = (\<lambda>_. Inr []), sled_open_temp = Inr [], sled_open_tree = (\<lambda>_ _. Inr []),
      sled_flush = (\<lambda>_. Inr 0),
      sled_insert = (\<lambda>t k v. (Inr (map_of t k), (k, v) # t)),
      sled_get = (\<lambda>t k. Inr (map_of t k)),
      sled_remove = (\<lambda>t k. (Inr (map_of t k), filter (\<lambda>p. fst p \<noteq> k) t)),
      sled_contains_key = (\<lambda>t k. Inr (map_of t k \<noteq> None)),
      sled_len = (\<lambda>t. length (mem_keys t)),
      sled_iter = mem_entries (\<lambda>_. True),
      sled_scan_prefix = (\<lambda>t p. mem_entries (starts_with p) t),
      tree_contents = map_of,
      account_json = field_codec enc_account dec_account,
      block_json = field_codec enc_block dec_block,
      tx_json = field_codec enc_tx dec_tx,
      tip_json = field_codec enc_tip dec_tip,
      snapshot_json = field_codec enc_snapshot dec_snapshot,
      pending_json = field_codec enc_pending dec_pending\<rparr>"

lemma set_mem_keys: "set (mem_keys t) = dom (map_of t)"
  by (simp add: mem_keys_def dom_map_of_conv_image_fst)

lemma sorted_mem_keys: "sorted_wrt (<) (mem_keys t)"
  by (simp add: mem_keys_def strict_sorted_iff)

lemma map_of_keys: "map_of (map (\<lambda>k. (k, f k)) ks) k = (if k \<in> set ks then Some (f k) else None)"
  by (induction ks) auto

lemma mem_entries_lists:
  "lists_map (map (\<lambda>k. (k, the (map_of t k))) (filter P (mem_keys t))) (map_of t |` {k. P k})"
proof -
  have "sorted_wrt (<) (filter P (mem_keys t))" by (rule sorted_wrt_filter [OF sorted_mem_keys])
  moreover have "map_of (map (\<lambda>k. (k, the (map_of t k))) (filter P (mem_keys t))) = map_of t |` {k. P k}"
    by (rule ext) (auto simp: map_of_keys set_mem_keys restrict_map_def)
  ultimately show ?thesis by (simp add: lists_map_def comp_def)
qed

lemma mem_entries_Inr:
  assumes "mem_entries P t = map Inr kvs"
  shows "lists_map kvs (map_of t |` {k. P k})"
proof -
  have "map Inr (map (\<lambda>k. (k, the (map_of t k))) (filter P (mem_keys t))) = (map Inr kvs :: (string + bytes \<times> bytes) list)"
    using assms by (simp add: mem_entries_def comp_def)
  then have "map (\<lambda>k. (k, the (map_of t k))) (filter P (mem_keys t)) = kvs"
    by (simp only: inj_map_eq_map [OF inj_Inr])
  then show ?thesis using mem_entries_lists [of t P] by simp
qed

lemma map_of_remove: "map_of (filter (\<lambda>p. fst p \<noteq> k) t) = (map_of t)(k := None)"
  by (rule ext) (induction t, auto)

lemma mem_sled_ok: "sled_ok mem_backend"
proof -
  have len: "length (mem_keys t) = card (dom (map_of t))" for t :: mem_tree
    by (simp add: mem_keys_def length_remdups_card_conv dom_map_of_conv_image_fst)
  have univ: "m |` UNIV = m" for m :: "bytes \<Rightarrow> bytes option" by (rule ext) (simp add: restrict_map_def)
  show ?thesis
    using mem_entries_Inr [of "\<lambda>_. True"] mem_entries_Inr [where P = "starts_with _"]
    by (simp add: sled_ok_def mem_backend_def finite_dom_map_of len map_of_remove univ)
qed

lemma mem_codecs:
  "codec_ok (account_json mem_backend)" "codec_total (account_json mem_backend)"
  "codec_ok (block_json mem_backend)" "codec_total (block_json mem_backend)"
  "codec_ok (tx_json mem_backend)" "codec_total (tx_json mem_backend)"
  "codec_ok (tip_json mem_backend)" "codec_total (tip_json mem_backend)"
  "codec_ok (snapshot_json mem_backend)" "codec_total (snapshot_json mem_backend)"
  "codec_ok (pending_json mem_backend)" "codec_total (pending_json mem_backend)"
  unfolding mem_backend_def backend.simps
  by (rule field_codec_ok; simp add: dec_enc_account dec_enc_block struct_roundtrips dec_enc_snapshot)+

lemma mem_entries_total: "\<exists>kvs. mem_entries P t = map Inr kvs"
  by (rule exI [of _ "map (\<lambda>k. (k, the (map_of t k))) (filter P (mem_keys t))"])
    (simp add: mem_entries_def comp_def)

lemma mem_backend_total: "backend_total mem_backend"
proof -
  have "backend_ok mem_backend" by (simp add: backend_ok_def mem_sled_ok mem_codecs)
  moreover have "sled_iter mem_backend = mem_entries (\<lambda>_. True)"
    "sled_scan_prefix mem_backend = (\<lambda>t p. mem_entries (starts_with p) t)"
    "sled_insert mem_backend = (\<lambda>t k v. (Inr (map_of t k), (k, v) # t))"
    "sled_get mem_backend = (\<lambda>t k. Inr (map_of t k))"
    "sled_remove mem_backend = (\<lambda>t k. (Inr (map_of t k), filter (\<lambda>p. fst p \<noteq> k) t))"
    by (simp_all add: mem_backend_def)
  ultimately show ?thesis by (simp add: backend_total_def mem_codecs mem_entries_total)
qed

lemma mem_backend_ok: "backend_ok mem_backend"
  by (rule backend_total_ok [OF mem_backend_total])

end
