(* ===== verification/Demo.thy ===== *)
theory Demo
  imports Progress Reference
begin

text \<open>
  Concrete databases over the in-memory backend of \<open>Reference\<close>, for the witnesses: a database
  that holds a list of accounts and nothing else, and the accounts the witnesses use.
\<close>

definition demo_db :: "account list \<Rightarrow> mem_tree kyvera_db" where
  "demo_db accs = \<lparr>db_handle = [], db_blocks_by_hash = [], db_blocks_by_height = [],
     db_accounts = map (\<lambda>a. (acc_address a, enc_list (enc_account a))) accs, db_transactions = [],
     db_metadata = []\<rparr>"

lemma demo_tree: "tree_contents mem_backend = map_of"
  by (simp add: mem_backend_def)

lemma demo_decode: "decode_entry (account_json mem_backend) (enc_list (enc_account a)) = Some a"
  by (simp add: mem_backend_def decode_entry_def field_codec_def dec_enc_account)

lemma demo_ledger: "ledger mem_backend (demo_db accs) = map_of (map (\<lambda>a. (acc_address a, a)) accs)"
proof
  fix k
  show "ledger mem_backend (demo_db accs) k = map_of (map (\<lambda>a. (acc_address a, a)) accs) k"
    by (induction accs) (simp_all add: ledger_def demo_db_def demo_tree demo_decode)
qed

lemma demo_accounts_dom: "dom (tree_contents mem_backend (db_accounts (demo_db accs))) = acc_address ` set accs"
  by (simp add: demo_db_def demo_tree dom_map_of_conv_image_fst image_image)

lemma demo_ledger_dom: "dom (ledger mem_backend (demo_db accs)) = acc_address ` set accs"
  by (simp add: demo_ledger dom_map_of_conv_image_fst image_image)

lemma demo_ready:
  assumes "\<forall>a \<in> set accs. acc_tier a = from_staked_balance (acc_staked a)"
  shows "store_ready mem_backend (demo_db accs)"
proof -
  have "account_ok k a" if "map_of (map (\<lambda>a. (acc_address a, a)) accs) k = Some a" for k a
    using map_of_SomeD [OF that] assms by (auto simp: account_ok_def)
  then show ?thesis
    by (simp add: store_ready_def mem_backend_total db_ok_def ledger_ok_def accounts_readable_def
        demo_accounts_dom demo_ledger_dom) (simp add: demo_ledger)
qed

lemma demo_metadata: "metadata mem_backend (demo_db accs) = (\<lambda>_. None)"
  by (simp add: metadata_def demo_db_def demo_tree fun_eq_iff)

lemma demo_queue: "queue mem_backend (demo_db accs) = (\<lambda>_. None)"
  by (simp add: queue_def demo_metadata fun_eq_iff)

lemma demo_queue_readable: "queue_readable mem_backend (demo_db accs)"
  by (simp add: queue_readable_def demo_metadata)

lemma demo_queue_funds: "queue_funds mem_backend (demo_db accs) = 0"
  by (simp add: queue_funds_def demo_queue map_total_def)

lemma demo_funds:
  assumes "distinct (map acc_address accs)"
  shows "ledger_funds (ledger mem_backend (demo_db accs)) = (\<Sum>a\<leftarrow>accs. account_funds a)"
proof -
  have "distinct (map fst (map (\<lambda>a. (acc_address a, a)) accs))" using assms by (simp add: comp_def)
  from map_total_list [OF this, of account_funds] show ?thesis
    by (simp add: ledger_funds_def demo_ledger comp_def)
qed

text \<open>Two accounts, one of them a validator of the first tier.\<close>

definition alice :: account where
  "alice = \<lparr>acc_address = ''alice'', acc_balance = 1000, acc_staked = 500000000000, acc_nonce = 7,
     acc_tier = Some Igniter, acc_is_contract = False, acc_last_reward_epoch = 0\<rparr>"

definition bob :: account where
  "bob = \<lparr>acc_address = ''bob'', acc_balance = 20, acc_staked = 0, acc_nonce = 0,
     acc_tier = None, acc_is_contract = False, acc_last_reward_epoch = 0\<rparr>"

definition two_db :: "mem_tree kyvera_db" where
  "two_db = demo_db [alice, bob]"

definition alice_pays_bob :: transaction where
  "alice_pays_bob = \<lparr>tx_hash = ''h1'', tx_sender = ''alice'', tx_receiver = ''bob'', tx_amount = 100,
     tx_fee = 50, tx_nonce = 7, tx_signature = ''sig'', tx_timestamp = 0, tx_type = Transfer, tx_data = []\<rparr>"

lemma two_ready: "store_ready mem_backend two_db"
  unfolding two_db_def
  by (rule demo_ready) (simp add: alice_def bob_def from_staked_balance_def)

lemma two_ledger: "ledger mem_backend two_db = [''bob'' \<mapsto> bob, ''alice'' \<mapsto> alice]"
  by (simp add: two_db_def demo_ledger alice_def bob_def fun_eq_iff)

lemma two_funds: "ledger_funds (ledger mem_backend two_db) = 500000001020"
proof -
  have "distinct (map acc_address [alice, bob])" by (simp add: alice_def bob_def)
  from demo_funds [OF this] show ?thesis
    by (simp add: two_db_def account_funds_def alice_def bob_def)
qed

lemma two_queue: "queue mem_backend two_db = (\<lambda>_. None)" "queue_readable mem_backend two_db"
  "all_funds mem_backend two_db = 500000001020"
  by (simp_all add: two_db_def demo_queue demo_queue_readable)
    (simp add: all_funds_def two_funds [unfolded two_db_def] demo_queue_funds)

lemma two_account: "account_at (ledger mem_backend two_db) ''alice'' = alice"
  "account_at (ledger mem_backend two_db) ''bob'' = bob" "ledger mem_backend two_db ''alice'' = Some alice"
  by (simp_all add: two_ledger account_at_def)

lemma alice_charge: "charge alice alice_pays_bob = Some (alice\<lparr>acc_balance := 850\<rparr>)"
  by (simp add: charge_def alice_def alice_pays_bob_def)

lemma two_apply:
  obtains L' where "ledger_apply (ledger mem_backend two_db) alice_pays_bob = Some L'"
proof -
  have "\<exists>L'. ledger_apply (ledger mem_backend two_db) alice_pays_bob = Some L'"
    using ledger_apply_Some_iff [OF finite_ledger [OF mem_backend_ok], of two_db alice_pays_bob]
      alice_charge two_funds
    by (simp add: two_account alice_pays_bob_def alice_def)
  then show thesis using that by blast
qed

lemma empty_ready: "store_ready mem_backend (demo_db [])"
  by (rule demo_ready) simp

text \<open>Every digest of the reference hash starts with a zero digit, so mining at difficulty 1 ends.\<close>

lemma ref_hash_zero: "meets_difficulty (sha3_256_hex ref_hashing b) 1"
  by (simp add: meets_difficulty_def sha3_256_hex_def ref_hashing_def ref_hex_encode_def ref_digest_def hex_char_def)

lemma ref_mines:
  assumes "hdr_difficulty hdr = 1" "0 < m"
  obtains b where "mined_into ref_hashing hdr m hashes miner reward = Inr b"
proof -
  have "solves ref_hashing hdr 0"
    using ref_hash_zero by (simp add: solves_def header_hash_with_def hash_block_header_def assms(1))
  then have "mined_into ref_hashing hdr m hashes miner reward \<noteq> Inl e" for e
    using assms(2) mined_into_Inl [of ref_hashing hdr m hashes miner reward e] by auto
  then show thesis using that by (cases "mined_into ref_hashing hdr m hashes miner reward") auto
qed

lemma ref_genesis:
  obtains g where "produce_genesis_block ref_hashing now miner = Inr g"
  unfolding produce_genesis_block_def
  by (rule ref_mines [where hdr = "block_header_new now 0 zero_hash (compute_merkle_root ref_hashing []) 1 True 0"])
    (auto simp: block_header_new_def word_gt_0)

section \<open>The example transaction and the pool\<close>

lemma two_backend_readable: "backend_total mem_backend" "accounts_readable mem_backend two_db"
  using two_ready by (simp_all add: store_ready_def)

lemma new_pool [simp]: "pool_txs mempool_new = {}" "pool_len mempool_new = 0"
  by (simp_all add: pool_txs_def mempool_new_def pool_len_def)

lemma alice_admissible: "admissible mem_backend two_db mempool_new alice_pays_bob"
  by (simp add: admissible_def admitted_fields_def required_balance_def sender_account_def two_account
      max_mempool_size_def saturating_add_def alice_pays_bob_def alice_def)

lemma alice_not_coinbase: "tx_sender alice_pays_bob \<noteq> coinbase_sender"
  by (simp add: alice_pays_bob_def coinbase_sender_def)

lemma alice_payable: "payable (ledger mem_backend two_db) alice_pays_bob"
  by (simp add: payable_def two_ledger alice_pays_bob_def required_balance_def alice_def saturating_add_def)

text \<open>A pool that holds the example transaction only.\<close>

lemma alice_pooled:
  obtains m where "add_transaction mem_backend two_db mempool_new alice_pays_bob = (Inr (), m)"
    "pool_txs m = {alice_pays_bob}" "set (top_by_fee m 5) = {alice_pays_bob}" "pool_run mem_backend m"
proof -
  obtain m where a: "add_transaction mem_backend two_db mempool_new alice_pays_bob = (Inr (), m)"
    by (rule add_transaction_accepts [OF two_backend_readable mempool_new_ok alice_admissible])
  note ad = add_transaction_admits [OF mem_backend_ok mempool_new_ok a]
  have txs: "pool_txs m = {alice_pays_bob}" using ad(3) by simp
  have "indexes_ok m" using ad(1) by (simp add: mempool_ok_def)
  then have "pool_len m = 1" "set (top_by_fee m 5) \<subseteq> {alice_pays_bob}"
    using card_pool_txs [of m] txs top_by_fee_keys(2) [of m 5] by simp_all
  moreover from this have "top_by_fee m 5 \<noteq> []" using top_by_fee_best(1) [OF ad(1), of 5] by auto
  ultimately have "set (top_by_fee m 5) = {alice_pays_bob}" by (metis set_empty2 subset_singletonD)
  then show thesis
    using a txs pool_run.submit [OF pool_run.start, of mem_backend two_db alice_pays_bob] by (intro that) simp_all
qed

end
