(* ===== verification/Tx_Store.thy ===== *)
theory Tx_Store
  imports Db
begin

text \<open>
  Transaction persistence, \<open>src/src/storage/tx_store.rs\<close>: transactions by hash and, in the same
  tree, the index \<open>sender:<address>:<nonce>\<close> of hashes by sender and nonce. The store interprets
  \<open>typed_store\<close> on the keys outside the index. The zero-padded nonce makes the index list a
  sender's transactions in nonce order; the prefix that is scanned has no colon after the
  address, so it takes in every sender whose address extends it.
\<close>

definition sender_prefix :: string where "sender_prefix = ''sender:''"

definition sender_key :: "string \<Rightarrow> u64 \<Rightarrow> string" where
  "sender_key sndr nonce = sender_prefix @ sndr @ '':'' @ pad20 nonce"

definition save_transaction ::
  "'t backend \<Rightarrow> 't kyvera_db \<Rightarrow> transaction \<Rightarrow> (string + unit) \<times> 't kyvera_db" where
  "save_transaction B db tx =
     (if tx_hash tx = [] then (Inl ''Cannot save transaction with empty hash'', db) else
      read_bind db (map_err (\<lambda>e. ''Failed to serialize transaction: '' @ e) (to_vec (tx_json B) tx)) (\<lambda>bs.
      st_bind (on_transactions db (db_write B (db_transactions db) (tx_hash tx) bs)) (\<lambda>_ db.
      let key = sender_key (tx_sender tx) (tx_nonce tx) in
      st_bind (on_transactions db (db_write B (db_transactions db) key (tx_hash tx))) (\<lambda>_ db.
      (Inr (), db)))))"

definition get_transaction :: "'t backend \<Rightarrow> 't kyvera_db \<Rightarrow> string \<Rightarrow> string + transaction option" where
  "get_transaction B db h =
     res_bind (db_read B (db_transactions db) h) (\<lambda>d.
     case d of
       None \<Rightarrow> Inr None
     | Some bs \<Rightarrow>
         res_bind (map_err (\<lambda>e. ''Failed to deserialize transaction: '' @ e) (from_slice (tx_json B) bs))
           (\<lambda>t. Inr (Some t)))"

definition transaction_exists :: "'t backend \<Rightarrow> 't kyvera_db \<Rightarrow> string \<Rightarrow> string + bool" where
  "transaction_exists B db h = db_exists B (db_transactions db) h"

fun collect_hashes :: "(string + bytes \<times> bytes) list \<Rightarrow> string + string list" where
  "collect_hashes [] = Inr []"
| "collect_hashes (r # rs) =
     res_bind (map_err (\<lambda>e. ''Scan error: '' @ e) r) (\<lambda>(_, v).
     res_bind (map_err (\<lambda>e. ''Invalid hash bytes: '' @ e) (from_utf8 v)) (\<lambda>h.
     res_bind (collect_hashes rs) (\<lambda>hs. Inr (h # hs))))"

definition get_transactions_by_sender :: "'t backend \<Rightarrow> 't kyvera_db \<Rightarrow> string \<Rightarrow> string + string list" where
  "get_transactions_by_sender B db address =
     collect_hashes (sled_scan_prefix B (db_transactions db) (sender_prefix @ address))"

fun load_transactions :: "'t backend \<Rightarrow> 't kyvera_db \<Rightarrow> string list \<Rightarrow> string + transaction list" where
  "load_transactions B db [] = Inr []"
| "load_transactions B db (h # hs) =
     res_bind (get_transaction B db h) (\<lambda>r.
     res_bind (load_transactions B db hs) (\<lambda>txs.
     Inr (case r of Some tx \<Rightarrow> tx # txs | None \<Rightarrow> txs)))"

definition get_recent_transactions_by_sender ::
  "'t backend \<Rightarrow> 't kyvera_db \<Rightarrow> string \<Rightarrow> nat \<Rightarrow> string + transaction list" where
  "get_recent_transactions_by_sender B db address limit =
     res_bind (get_transactions_by_sender B db address) (\<lambda>hashes.
     load_transactions B db (take limit (rev hashes)))"

text \<open>The lossy conversion of a key to text changes invalid bytes only, so the text starts with
  the ASCII prefix exactly when the key does. Entries that are errors are not counted.\<close>

definition transaction_count :: "'t backend \<Rightarrow> 't kyvera_db \<Rightarrow> nat" where
  "transaction_count B db =
     length (filter (\<lambda>r. case r of Inr (k, _) \<Rightarrow> \<not> starts_with sender_prefix k | Inl _ \<Rightarrow> False)
       (sled_scan_prefix B (db_transactions db) []))"

definition save_block_transactions ::
  "'t backend \<Rightarrow> 't kyvera_db \<Rightarrow> transaction list \<Rightarrow> (string + unit) \<times> 't kyvera_db" where
  "save_block_transactions B = run_all (save_transaction B)"

section \<open>Transactions by hash\<close>

definition hash_key :: "string \<Rightarrow> bool" where
  "hash_key k \<longleftrightarrow> k \<noteq> [] \<and> \<not> starts_with sender_prefix k"

definition tx_at :: "'t backend \<Rightarrow> 't kyvera_db \<Rightarrow> string \<Rightarrow> transaction option" where
  "tx_at B db h = Option.bind (tree_contents B (db_transactions db) h) (decode_entry (tx_json B))"

definition hash_sent :: "'t backend \<Rightarrow> 't kyvera_db \<Rightarrow> string \<Rightarrow> u64 \<Rightarrow> string option" where
  "hash_sent B db sndr n = tree_contents B (db_transactions db) (sender_key sndr n)"

lemma sender_key_prefix [simp]: "starts_with sender_prefix (sender_key s n)"
  by (simp add: sender_key_def)

lemma save_transaction_contents:
  assumes "sled_ok B" "save_transaction B db tx = (r, db')"
  obtains "tree_contents B (db_transactions db') = tree_contents B (db_transactions db)" "r \<noteq> Inr ()"
  | bs where "to_vec (tx_json B) tx = Inr bs" "r \<noteq> Inr ()" "tx_hash tx \<noteq> []"
      "tree_contents B (db_transactions db') = (tree_contents B (db_transactions db))(tx_hash tx \<mapsto> bs)"
  | bs where "to_vec (tx_json B) tx = Inr bs" "tx_hash tx \<noteq> []"
      "tree_contents B (db_transactions db')
        = (tree_contents B (db_transactions db))(tx_hash tx \<mapsto> bs, sender_key (tx_sender tx) (tx_nonce tx) \<mapsto> tx_hash tx)"
proof (cases "tx_hash tx = [] \<or> (\<exists>e. to_vec (tx_json B) tx = Inl e)")
  case True
  then have "db' = db" "r \<noteq> Inr ()"
    using assms(2) by (cases "tx_hash tx = []"; auto simp: save_transaction_def)+
  then show thesis by (intro that(1)) simp_all
next
  case False
  then obtain bs where bs: "to_vec (tx_json B) tx = Inr bs" and ne: "tx_hash tx \<noteq> []"
    by (cases "to_vec (tx_json B) tx") auto
  obtain r1 t1 where w1: "db_write B (db_transactions db) (tx_hash tx) bs = (r1, t1)" by fastforce
  let ?m = "tree_contents B (db_transactions db)" and ?k = "sender_key (tx_sender tx) (tx_nonce tx)"
  show thesis
  proof (cases r1)
    case (Inl e)
    then have "db_transactions db' = t1" "r \<noteq> Inr ()"
      using assms(2) by (auto simp: save_transaction_def bs ne w1)
    then show thesis
      using db_write_atomic [OF assms(1), of "db_transactions db" "tx_hash tx" bs] w1 bs ne that(1,2)
      by (metis snd_conv)
  next
    case (Inr u)
    then have m1: "tree_contents B t1 = ?m(tx_hash tx \<mapsto> bs)"
      using db_write_ok [OF assms(1)] w1 by blast
    obtain r2 t2 where w2: "db_write B t1 ?k (tx_hash tx) = (r2, t2)" by fastforce
    have res: "db_transactions db' = t2" "r = r2"
      using assms(2) Inr by (cases r2; auto simp: save_transaction_def bs ne w1 w2 Let_def)+
    have "tree_contents B t2 = tree_contents B t1 \<and> r2 \<noteq> Inr () \<or> tree_contents B t2 = (tree_contents B t1)(?k \<mapsto> tx_hash tx)"
      using db_write_atomic [OF assms(1), of t1 ?k "tx_hash tx"] db_write_ok [OF assms(1), of t1 ?k "tx_hash tx"] w2
      by (metis snd_conv)
    then show thesis using res m1 bs ne that(2,3) by (elim disjE) auto
  qed
qed

lemma get_transaction_view: "backend_ok B \<Longrightarrow> get_transaction B db h = Inr r \<Longrightarrow> r = tx_at B db h"
  unfolding get_transaction_def tx_at_def by (rule typed_read [OF backend_okD(1)])

lemma hash_key_ne: "hash_key h \<Longrightarrow> h \<noteq> sender_key s n"
  by (auto simp: hash_key_def)

definition at_hash_keys :: "'t backend \<Rightarrow> 't kyvera_db \<Rightarrow> string \<Rightarrow> transaction option" where
  "at_hash_keys B db = tx_at B db |` {k. hash_key k}"

lemma at_hash_keys_upd:
  assumes "backend_ok B" "to_vec (tx_json B) tx = Inr bs" "hash_key (tx_hash tx)"
    and "tree_contents B (db_transactions db') = (tree_contents B (db_transactions db))(tx_hash tx \<mapsto> bs)
      \<or> tree_contents B (db_transactions db') = (tree_contents B (db_transactions db))
          (tx_hash tx \<mapsto> bs, sender_key (tx_sender tx) (tx_nonce tx) \<mapsto> tx_hash tx)"
  shows "at_hash_keys B db' = (at_hash_keys B db)(tx_hash tx \<mapsto> tx)"
proof
  fix k
  show "at_hash_keys B db' k = ((at_hash_keys B db)(tx_hash tx \<mapsto> tx)) k"
  proof (cases "hash_key k")
    case True
    then show ?thesis
      using assms(4) hash_key_ne [OF True] to_vec_decode [OF backend_okD(4) [OF assms(1)] assms(2)]
      by (elim disjE) (auto simp: at_hash_keys_def tx_at_def)
  next
    case False
    with assms(3) show ?thesis by (auto simp: at_hash_keys_def)
  qed
qed

interpretation transactions: typed_store backend_ok at_hash_keys tx_hash hash_key save_transaction get_transaction
proof unfold_locales
  fix B :: "'t backend" and s s' :: "'t kyvera_db" and v :: transaction and k r w
  assume ok: "backend_ok B"
  note sok = backend_okD(1) [OF ok]
  show "at_hash_keys B s' = (at_hash_keys B s)(tx_hash v \<mapsto> v)"
    if "hash_key (tx_hash v)" "save_transaction B s v = (Inr (), s')"
    using that(2) by (rule save_transaction_contents [OF sok]) (auto intro!: at_hash_keys_upd [OF ok _ that(1)])
  show "at_hash_keys B s' = at_hash_keys B s \<or> at_hash_keys B s' = (at_hash_keys B s)(tx_hash v \<mapsto> v)"
    if h: "hash_key (tx_hash v)" and s: "save_transaction B s v = (r, s')"
  proof (rule save_transaction_contents [OF sok s])
    assume "tree_contents B (db_transactions s') = tree_contents B (db_transactions s)"
    then show ?thesis by (simp add: at_hash_keys_def tx_at_def restrict_map_def fun_eq_iff)
  next
    fix bs assume "to_vec (tx_json B) v = Inr bs"
      "tree_contents B (db_transactions s') = (tree_contents B (db_transactions s))(tx_hash v \<mapsto> bs)"
    then show ?thesis using at_hash_keys_upd [OF ok _ h] by blast
  next
    fix bs assume "to_vec (tx_json B) v = Inr bs"
      "tree_contents B (db_transactions s') = (tree_contents B (db_transactions s))
        (tx_hash v \<mapsto> bs, sender_key (tx_sender v) (tx_nonce v) \<mapsto> tx_hash v)"
    then show ?thesis using at_hash_keys_upd [OF ok _ h] by blast
  qed
  show "hash_key k \<Longrightarrow> get_transaction B s k = Inr w \<Longrightarrow> w = at_hash_keys B s k"
    using get_transaction_view [OF ok, of s k w] by (simp add: at_hash_keys_def)
qed

section \<open>The sender index\<close>

lemma append_less_iff: "p @ a < p @ b \<longleftrightarrow> a < (b :: string)"
  by (induction p) simp_all

lemma sender_key_less_iff: "sender_key s n < sender_key s m \<longleftrightarrow> n < m"
  by (simp add: sender_key_def append_less_iff pad20_less_iff)

lemma sender_key_inj [simp]: "sender_key s n = sender_key s m \<longleftrightarrow> n = m"
  by (simp add: sender_key_def)

lemma collect_hashes_Inr: "collect_hashes rs = Inr hs \<Longrightarrow> \<exists>kvs. rs = map Inr kvs \<and> hs = map snd kvs"
proof (induction rs arbitrary: hs)
  case Nil
  then show ?case by simp
next
  case (Cons r rs)
  from Cons.prems obtain k v hs' where "r = Inr (k, v)" "hs = v # hs'" "collect_hashes rs = Inr hs'"
    by (auto simp: res_bind_eq_Inr from_utf8_Inr)
  with Cons.IH [of hs'] show ?case by (auto intro: exI [of _ "(k, v) # _"])
qed

text \<open>No other sender's address extends this one.\<close>

definition sole_prefix :: "'t backend \<Rightarrow> 't kyvera_db \<Rightarrow> string \<Rightarrow> bool" where
  "sole_prefix B db address \<longleftrightarrow>
     (\<forall>k \<in> dom (tree_contents B (db_transactions db)). starts_with (sender_prefix @ address) k \<longrightarrow>
        k \<in> range (sender_key address))"

lemma get_transactions_by_sender_sorted:
  assumes "backend_ok B" "sole_prefix B db address" "get_transactions_by_sender B db address = Inr hs"
  shows "hs = map (\<lambda>n. the (hash_sent B db address n)) (sorted_list_of_set {n. hash_sent B db address n \<noteq> None})"
proof -
  let ?m = "tree_contents B (db_transactions db)" and ?p = "sender_prefix @ address"
  obtain kvs where scan: "sled_scan_prefix B (db_transactions db) ?p = map Inr kvs" and hs: "hs = map snd kvs"
    using collect_hashes_Inr [OF assms(3) [unfolded get_transactions_by_sender_def]] by blast
  have lm: "lists_map kvs (?m |` {k. starts_with ?p k})"
    by (rule sled_scan_contents [OF backend_okD(1) [OF assms(1)] scan])
  have pre: "starts_with ?p (sender_key address n)" for n
    by (simp add: sender_key_def starts_with_iff)
  have keys: "set (map fst kvs) = sender_key address ` {n. hash_sent B db address n \<noteq> None}"
  proof
    show "set (map fst kvs) \<subseteq> sender_key address ` {n. hash_sent B db address n \<noteq> None}"
    proof
      fix k assume "k \<in> set (map fst kvs)"
      then obtain v where v: "?m k = Some v" and p: "starts_with ?p k"
        unfolding lists_map_keys [OF lm] by (auto simp: restrict_map_def split: if_splits)
      then obtain n where "k = sender_key address n" using assms(2) unfolding sole_prefix_def by blast
      with v show "k \<in> sender_key address ` {n. hash_sent B db address n \<noteq> None}"
        by (auto simp: hash_sent_def)
    qed
    show "sender_key address ` {n. hash_sent B db address n \<noteq> None} \<subseteq> set (map fst kvs)"
      unfolding lists_map_keys [OF lm] using pre by (auto simp: hash_sent_def restrict_map_def)
  qed
  have inj: "inj_on (sender_key address) A" for A by (auto simp: inj_on_def)
  obtain ns where ns: "map fst kvs = map (sender_key address) ns"
    using keys by (metis (mono_tags, lifting) ex_map_conv imageE)
  have set_ns: "set ns = {n. hash_sent B db address n \<noteq> None}"
    using keys inj_image_eq_iff [OF inj, of "set ns" "{n. hash_sent B db address n \<noteq> None}"]
    by (metis inj list.set_map ns)
  have "sorted_wrt (<) (map (sender_key address) ns)"
    using lm by (simp add: lists_map_def flip: ns)
  then have "sorted_wrt (<) ns" by (simp add: sorted_wrt_map sender_key_less_iff)
  then have sorted: "sorted_list_of_set (set ns) = ns"
    by (intro sorted_list_of_set.idem_if_sorted_distinct) (simp_all add: strict_sorted_iff)
  have "map snd kvs = map (\<lambda>n. the (hash_sent B db address n)) ns"
  proof (rule nth_equalityI)
    show "length (map snd kvs) = length (map (\<lambda>n. the (hash_sent B db address n)) ns)"
      using arg_cong [OF ns, of length] by simp
    fix i assume i: "i < length (map snd kvs)"
    then have "fst (kvs ! i) = sender_key address (ns ! i)"
      using arg_cong [OF ns, of "\<lambda>xs. xs ! i"] arg_cong [OF ns, of length] by simp
    moreover have "?m (fst (kvs ! i)) = Some (snd (kvs ! i))"
      using i lists_map_set [OF lm, of "fst (kvs ! i)" "snd (kvs ! i)"]
      by (auto simp: restrict_map_def split: if_splits)
    ultimately show "map snd kvs ! i = map (\<lambda>n. the (hash_sent B db address n)) ns ! i"
      using i arg_cong [OF ns, of length] by (simp add: hash_sent_def)
  qed
  then show ?thesis using sorted set_ns by (simp add: hs)
qed

lemma collect_hashes_total: "\<forall>v \<in> set (map snd kvs). utf8_valid v \<Longrightarrow> collect_hashes (map Inr kvs) = Inr (map snd kvs)"
  by (induction kvs) (auto simp: from_utf8_valid)

lemma get_transactions_by_sender_total:
  assumes "backend_total B" "sole_prefix B db address"
    and "\<And>n h. hash_sent B db address n = Some h \<Longrightarrow> utf8_valid h"
  shows "get_transactions_by_sender B db address
    = Inr (map (\<lambda>n. the (hash_sent B db address n)) (sorted_list_of_set {n. hash_sent B db address n \<noteq> None}))"
proof -
  let ?m = "tree_contents B (db_transactions db)" and ?p = "sender_prefix @ address"
  note ok = backend_total_ok [OF assms(1)]
  obtain kvs where scan: "sled_scan_prefix B (db_transactions db) ?p = map Inr kvs"
    using total_scan [OF assms(1)] by blast
  have lm: "lists_map kvs (?m |` {k. starts_with ?p k})"
    by (rule sled_scan_contents [OF backend_okD(1) [OF ok] scan])
  have "utf8_valid v" if "v \<in> set (map snd kvs)" for v
  proof -
    from that obtain k where "(k, v) \<in> set kvs" by auto
    then have k: "?m k = Some v" "starts_with ?p k"
      by (auto simp: lists_map_set [OF lm] restrict_map_def split: if_splits)
    then obtain n where "k = sender_key address n" using assms(2) unfolding sole_prefix_def by blast
    with k show ?thesis using assms(3) [of n v] by (simp add: hash_sent_def)
  qed
  then have run: "get_transactions_by_sender B db address = Inr (map snd kvs)"
    unfolding get_transactions_by_sender_def scan by (intro collect_hashes_total) blast
  from get_transactions_by_sender_sorted [OF ok assms(2) run] run show ?thesis by simp
qed

text \<open>Saving a transaction under a hash that is not an index key adds it to its sender's history and to
  no other, and leaves the other transactions.\<close>

lemma save_transaction_total:
  assumes "backend_total B" "hash_key (tx_hash tx)"
  obtains db' where "save_transaction B db tx = (Inr (), db')"
    "tree_contents B (db_transactions db') = (tree_contents B (db_transactions db))
       (tx_hash tx \<mapsto> (case to_vec (tx_json B) tx of Inr bs \<Rightarrow> bs),
        sender_key (tx_sender tx) (tx_nonce tx) \<mapsto> tx_hash tx)"
proof -
  note ok = backend_okD(1) [OF backend_total_ok [OF assms(1)]]
  have ne: "tx_hash tx \<noteq> []" using assms(2) by (simp add: hash_key_def)
  obtain bs where bs: "to_vec (tx_json B) tx = Inr bs" using total_to_vec(3) [OF assms(1)] by blast
  obtain t where t: "db_write B (db_transactions db) (tx_hash tx) bs = (Inr (), t)"
    using db_write_total [OF assms(1)] by blast
  obtain t' where t': "db_write B t (sender_key (tx_sender tx) (tx_nonce tx)) (tx_hash tx) = (Inr (), t')"
    using db_write_total [OF assms(1)] by blast
  have "tree_contents B t' = (tree_contents B (db_transactions db))
      (tx_hash tx \<mapsto> bs, sender_key (tx_sender tx) (tx_nonce tx) \<mapsto> tx_hash tx)"
    using db_write_ok [OF ok t] db_write_ok [OF ok t'] by simp
  then show thesis
    by (intro that [of "db\<lparr>db_transactions := t'\<rparr>"])
      (simp_all add: save_transaction_def ne bs t t' on_transactions_def Let_def)
qed

text \<open>An address that extends another appears in the other's history.\<close>

lemma sender_prefix_overlap: "starts_with (sender_prefix @ ''ab'') (sender_key ''abc'' n)"
  by (simp add: sender_key_def starts_with_iff)

text \<open>The count is of the entries that are not in the index.\<close>

lemma transaction_count_hashes:
  assumes "backend_total B"
  shows "transaction_count B db = card {k \<in> dom (tree_contents B (db_transactions db)). \<not> starts_with sender_prefix k}"
proof -
  let ?m = "tree_contents B (db_transactions db)"
  obtain kvs where scan: "sled_scan_prefix B (db_transactions db) [] = map Inr kvs"
    using total_scan [OF assms] by blast
  have "lists_map kvs (?m |` {k. starts_with [] k})"
    by (rule sled_scan_contents [OF backend_okD(1) [OF backend_total_ok [OF assms]] scan])
  then have lm: "lists_map kvs ?m" by (simp add: starts_with_def restrict_map_def)
  let ?f = "filter (\<lambda>k. \<not> starts_with sender_prefix k) (map fst kvs)"
  have "transaction_count B db = length ?f"
    by (simp add: transaction_count_def scan filter_map comp_def case_prod_beta)
  also have "\<dots> = card (set ?f)"
    using lists_map_distinct [OF lm] by (intro distinct_card [symmetric]) simp
  also have "set ?f = {k \<in> dom ?m. \<not> starts_with sender_prefix k}"
    using lists_map_keys [OF lm] by auto
  finally show ?thesis .
qed

end
