(* ===== verification/Node_Session.thy ===== *)
theory Node_Session
  imports Node Block_Store Tx_Store
begin

text \<open>
  Sessions: sequences of calls to everything that writes to the database, whatever each call
  returns. A call that fails keeps the writes it had made, as the code does, and the session goes
  on; snapshots taken on the way may be stored or rolled back to at any later time. The relation
  \<open>node_step\<close> of \<open>Node\<close> is the part of this in which calls succeed.

  The lemmas show that the accounts stay well-formed through every session: each lies under its own
  address with the tier of its stake, so that the validator set is at all times the accounts with
  the minimum stake.
\<close>

record 't session =
  ses_db :: "'t kyvera_db"
  ses_snapshots :: "state_snapshot list"

datatype call =
    Operate node_op
  | Initialize i64
  | Store_Block block
  | Store_Tip chain_tip
  | Store_Transactions "transaction list"
  | Store_Root string
  | Take_Snapshot u64 "string list"
  | Store_Snapshot nat
  | Roll_Back nat

fun operate :: "'t backend \<Rightarrow> 't kyvera_db \<Rightarrow> node_op \<Rightarrow> 't kyvera_db" where
  "operate B db (Apply tx) = snd (apply_transaction B db tx)"
| "operate B db (Rewards cb fees) = snd (apply_epoch_rewards B db cb fees)"
| "operate B db (Unstake k amt e) = snd (request_unstake B db k amt e)"
| "operate B db (Mature now) = snd (process_matured_unstakes B db now)"
| "operate B db (Slash k bps) = snd (slash_validator B db k bps)"

text \<open>A snapshot is named by its place in the list of those taken.\<close>

definition with_snapshot :: "'t session \<Rightarrow> nat \<Rightarrow> (state_snapshot \<Rightarrow> 't kyvera_db) \<Rightarrow> 't session" where
  "with_snapshot s i f = (if i < length (ses_snapshots s) then s\<lparr>ses_db := f (ses_snapshots s ! i)\<rparr> else s)"

fun perform :: "hashing \<Rightarrow> 't backend \<Rightarrow> 't session \<Rightarrow> call \<Rightarrow> 't session" where
  "perform H B s (Operate op) = s\<lparr>ses_db := operate B (ses_db s) op\<rparr>"
| "perform H B s (Initialize now) = s\<lparr>ses_db := snd (initialize_chain H B now (ses_db s))\<rparr>"
| "perform H B s (Store_Block b) = s\<lparr>ses_db := snd (save_block B (ses_db s) b)\<rparr>"
| "perform H B s (Store_Tip tip) = s\<lparr>ses_db := snd (save_chain_tip B (ses_db s) tip)\<rparr>"
| "perform H B s (Store_Transactions txs) = s\<lparr>ses_db := snd (save_block_transactions B (ses_db s) txs)\<rparr>"
| "perform H B s (Store_Root r) = s\<lparr>ses_db := snd (save_state_root B (ses_db s) r)\<rparr>"
| "perform H B s (Take_Snapshot h addrs) =
     (case take_snapshot H B (ses_db s) h addrs of
        Inl _ \<Rightarrow> s | Inr snap \<Rightarrow> s\<lparr>ses_snapshots := ses_snapshots s @ [snap]\<rparr>)"
| "perform H B s (Store_Snapshot i) = with_snapshot s i (\<lambda>snap. snd (save_snapshot B (ses_db s) snap))"
| "perform H B s (Roll_Back i) = with_snapshot s i (\<lambda>snap. snd (rollback_to_snapshot B (ses_db s) snap))"

definition session :: "hashing \<Rightarrow> 't backend \<Rightarrow> 't kyvera_db \<Rightarrow> call list \<Rightarrow> 't session" where
  "session H B db calls = foldl (perform H B) \<lparr>ses_db = db, ses_snapshots = []\<rparr> calls"

section \<open>Every call keeps the accounts well-formed\<close>

lemma db_ok_cong: "db_accounts db' = db_accounts db \<Longrightarrow> db_ok B db' = db_ok B db"
  using ledger_cong [of db' db B] by (simp add: db_ok_def)

lemma other_trees:
  assumes "db_ok B db"
  shows "db_ok B (snd (on_blocks_by_hash db p))" "db_ok B (snd (on_blocks_by_height db p))"
    "db_ok B (snd (on_transactions db p))" "db_ok B (snd (on_metadata db p))" "db_ok B (snd (set_metadata B db k v))"
  by (simp_all add: on_blocks_by_hash_def on_blocks_by_height_def on_transactions_def on_metadata_def set_metadata_def
      db_ok_cong [THEN iffD2, OF _ assms])

lemma run_all_keeps: "(\<And>db x. P db \<Longrightarrow> x \<in> set xs \<Longrightarrow> P (snd (f db x))) \<Longrightarrow> P db \<Longrightarrow> P (snd (run_all f db xs))"
  by (induction xs arbitrary: db) (auto intro!: st_bind_closed [where P = P])

lemma keep_db_ok:
  assumes "db_ok B db"
  shows "db_ok B (snd (save_block B db b))" "db_ok B (snd (save_chain_tip B db tip))"
    "db_ok B (snd (save_state_root B db r))" "db_ok B (snd (save_snapshot B db snap))"
    "db_ok B (snd (save_pending_unstake B db p))" "db_ok B (snd (remove_pending B db k))"
    "db_ok B (snd (save_transaction B db tx))"
  unfolding save_block_def save_chain_tip_def save_state_root_def save_snapshot_def save_pending_unstake_def
    remove_pending_def save_transaction_def Let_def
  using assms by (auto intro!: read_bind_state [where P = "db_ok B"] st_bind_closed [where P = "db_ok B"] other_trees)

lemma credit_closed_db_ok: "backend_ok B \<Longrightarrow> credit_closed B (db_ok B)"
  by (rule credit_closed_write) (simp_all add: write_closed_db_ok)

lemma request_unstake_keeps:
  assumes "backend_ok B" "db_ok B db"
  shows "db_ok B (snd (request_unstake B db k amt e))"
proof -
  have "db_ok B (snd (save_account B db (update_validator_tier (a\<lparr>acc_staked := x\<rparr>))))"
    if "get_account B db k = Inr (Some a)" for a x
  proof -
    have "ledger B db k = Some a" using get_account_ledger [OF assms(1) that] by simp
    then have "acc_address a = k" using assms(2) by (simp add: db_ok_def ledger_ok_def account_ok_def)
    then show ?thesis by (intro save_account_db_ok assms) (simp add: account_ok_def)
  qed
  then show ?thesis
    unfolding request_unstake_def Let_def
    using assms(2) keep_db_ok(5) [of B]
    by (auto intro!: read_bind_state [where P = "db_ok B"] st_bind_closed [where P = "db_ok B"] split: option.splits)
qed

lemma process_matured_keeps:
  assumes "backend_ok B" "db_ok B db"
  shows "db_ok B (snd (process_matured_unstakes B db now))"
proof -
  have "db_ok B (snd (run_all (remove_pending B) db' ks))" if "db_ok B db'" for db' ks
    by (rule run_all_keeps [where P = "db_ok B", OF _ that]) (rule keep_db_ok(6))
  then show ?thesis
    unfolding process_matured_unstakes_def
    using release_loop_closed [OF credit_closed_db_ok [OF assms(1)] assms(2)]
    by (auto intro!: st_bind_closed [where P = "db_ok B"] split: prod.splits)
qed

lemma operate_keeps:
  assumes "backend_ok B" "db_ok B db"
  shows "db_ok B (operate B db op)"
proof (cases op)
  case (Apply tx)
  then show ?thesis using apply_frame [OF assms, of tx] by (metis operate.simps(1) prod.collapse)
next
  case (Rewards cb fees)
  then show ?thesis using rewards_frame [OF assms, of cb fees] by (metis operate.simps(2) prod.collapse)
next
  case (Slash k bps)
  then show ?thesis using slash_frame [OF assms, of k bps] by (metis operate.simps(5) prod.collapse)
qed (use request_unstake_keeps [OF assms] process_matured_keeps [OF assms] in simp_all)

lemma initialize_keeps:
  assumes "backend_ok B" "db_ok B db"
  shows "db_ok B (snd (initialize_chain H B now db))"
proof -
  note credit = credit_closedD [OF credit_closed_db_ok [OF assms(1)]]
  have alloc: "db_ok B (snd (apply_genesis_allocations B db'))" if "db_ok B db'" for db'
    unfolding apply_genesis_allocations_def Let_def
    using that credit by (auto intro!: st_bind_closed [where P = "db_ok B"])
  show ?thesis
    unfolding initialize_chain_def Let_def
    using assms(2) alloc credit keep_db_ok
    by (auto intro!: read_bind_state [where P = "db_ok B"] st_bind_closed [where P = "db_ok B"] split: option.splits)
qed

section \<open>Snapshots\<close>

definition snapshot_ok :: "state_snapshot \<Rightarrow> bool" where
  "snapshot_ok snap \<longleftrightarrow> (\<forall>k a. (k, Some a) \<in> set (snap_accounts snap) \<longrightarrow> account_ok k a)"

lemma taken_snapshot_ok:
  assumes "backend_ok B" "db_ok B db" "take_snapshot H B db h addrs = Inr snap"
  shows "snapshot_ok snap"
proof -
  have "snapshot_accounts B db addrs = Inr (snap_accounts snap)"
    using assms(3) unfolding take_snapshot_def by (auto simp: Let_def elim!: res_bind_InrE)
  then have "snap_accounts snap = map (\<lambda>k. (k, ledger B db k)) addrs" by (rule snapshot_accounts_ledger [OF assms(1)])
  then show ?thesis using assms(2) by (auto simp: snapshot_ok_def db_ok_def ledger_ok_def)
qed

lemma delete_keeps:
  assumes "backend_ok B" "db_ok B db"
  shows "db_ok B (snd (on_accounts db (db_delete B (db_accounts db) k)))"
proof -
  have "tree_contents B (snd (db_delete B (db_accounts db) k)) \<subseteq>\<^sub>m tree_contents B (db_accounts db)"
    using sled_remove_contents [OF backend_okD(1) [OF assms(1)], of "db_accounts db" k]
      sled_remove_atomic [OF backend_okD(1) [OF assms(1)], of "db_accounts db" k]
    by (cases "sled_remove B (db_accounts db) k"; cases "fst (sled_remove B (db_accounts db) k)")
      (auto simp: db_delete_def map_le_def split: if_splits)
  then show ?thesis
    using assms(2) by (fastforce simp: db_ok_def ledger_ok_def ledger_def on_accounts_def bind_eq_Some_conv map_le_def dom_def)
qed

lemma rollback_keeps:
  assumes "backend_ok B" "db_ok B db" "snapshot_ok snap"
  shows "db_ok B (snd (rollback_to_snapshot B db snap))"
proof -
  have "db_ok B (snd (restore_account B db' e))" if "db_ok B db'" "e \<in> set (snap_accounts snap)" for db' e
  proof (cases e)
    case (Pair k r)
    then show ?thesis
      using that assms(3) delete_keeps [OF assms(1) that(1)] save_account_db_ok [OF assms(1) that(1)]
      by (cases r) (auto simp: restore_account_def snapshot_ok_def account_ok_def)
  qed
  then have "db_ok B (snd (run_all (restore_account B) db (snap_accounts snap)))"
    by (intro run_all_keeps [where P = "db_ok B"] assms(2))
  then show ?thesis
    unfolding rollback_to_snapshot_def
    using keep_db_ok(3) [of B] by (auto intro!: st_bind_closed [where P = "db_ok B"])
qed

section \<open>Sessions\<close>

definition session_ok :: "'t backend \<Rightarrow> 't session \<Rightarrow> bool" where
  "session_ok B s \<longleftrightarrow> db_ok B (ses_db s) \<and> (\<forall>snap \<in> set (ses_snapshots s). snapshot_ok snap)"

lemma perform_keeps:
  assumes "backend_ok B" "session_ok B s"
  shows "session_ok B (perform H B s c)"
proof (cases c)
  case (Store_Transactions txs)
  have "db_ok B (snd (save_block_transactions B (ses_db s) txs))"
    unfolding save_block_transactions_def
    by (rule run_all_keeps [where P = "db_ok B"]) (use assms(2) keep_db_ok(7) in \<open>auto simp: session_ok_def\<close>)
  with Store_Transactions assms(2) show ?thesis by (simp add: session_ok_def)
next
  case (Take_Snapshot h addrs)
  then show ?thesis
    using assms taken_snapshot_ok [OF assms(1), of "ses_db s" H h addrs] by (auto simp: session_ok_def split: sum.splits)
qed (use assms operate_keeps [OF assms(1)] initialize_keeps [OF assms(1)] keep_db_ok [of B] rollback_keeps [OF assms(1)]
    in \<open>auto simp: session_ok_def with_snapshot_def\<close>)

lemma session_keeps:
  assumes "backend_ok B" "db_ok B db"
  shows "session_ok B (session H B db calls)"
proof -
  have "session_ok B s \<Longrightarrow> session_ok B (foldl (perform H B) s calls)" for s
    by (induction calls arbitrary: s) (simp_all add: perform_keeps [OF assms(1)])
  moreover have "session_ok B \<lparr>ses_db = db, ses_snapshots = []\<rparr>" using assms(2) by (simp add: session_ok_def)
  ultimately show ?thesis unfolding session_def by blast
qed

end
