(* ===== verification/Ledger_Properties.thy ===== *)
theory Ledger_Properties
  imports Demo Node_Session
begin

text \<open>
  The properties of the stored state: transactions, snapshots, genesis, rewards, slashing,
  unbonding, and the runs that combine them. Each is followed by its witness over the
  databases of \<open>Demo\<close>.
\<close>

section \<open>Transactions\<close>

text \<open>C1. Applying a transaction to the database refines the transition of the abstract ledger:
  on a readable store the code succeeds exactly when the ledger has a next state, and then the
  accounts it leaves are that state.\<close>

theorem apply_transaction_refines_ledger:
  assumes "store_ready B db"
  shows "ledger_apply (ledger B db) tx = Some L'
    \<longleftrightarrow> (\<exists>db'. apply_transaction B db tx = (Inr (), db') \<and> ledger B db' = L')"
proof
  assume l: "ledger_apply (ledger B db) tx = Some L'"
  obtain db' where "apply_transaction B db tx = (Inr (), db')" "ledger B db' = L'"
    by (rule ready_apply [OF assms l]) (rule that)
  then show "\<exists>db'. apply_transaction B db tx = (Inr (), db') \<and> ledger B db' = L'" by blast
next
  assume "\<exists>db'. apply_transaction B db tx = (Inr (), db') \<and> ledger B db' = L'"
  then show "ledger_apply (ledger B db) tx = Some L'"
    using apply_transaction_refines [OF store_readyD(2,3) [OF assms]] by blast
qed

theorem apply_transaction_refines_ledger_witness:
  "\<exists>L' db'. ledger_apply (ledger mem_backend two_db) alice_pays_bob = Some L'
     \<and> apply_transaction mem_backend two_db alice_pays_bob = (Inr (), db') \<and> ledger mem_backend db' = L'"
proof -
  obtain L' where l: "ledger_apply (ledger mem_backend two_db) alice_pays_bob = Some L'" by (rule two_apply)
  with apply_transaction_refines_ledger [OF two_ready, of alice_pays_bob L'] show ?thesis by blast
qed

text \<open>C2. With less than \<open>2 ^ 64\<close> units in the ledger a transaction is decided by the sender's
  account alone: it succeeds when the nonce matches and the balance or stake covers it, and
  otherwise fails before the first write, leaving the database as it was.\<close>

theorem apply_transaction_decides:
  assumes "store_ready B db" "ledger_funds (ledger B db) < 2 ^ 64"
  shows "if acc_nonce (account_at (ledger B db) (tx_sender tx)) = tx_nonce tx
      \<and> charge (account_at (ledger B db) (tx_sender tx)) tx \<noteq> None
    then \<exists>db'. apply_transaction B db tx = (Inr (), db') \<and> store_ready B db'
    else \<exists>e. apply_transaction B db tx = (Inl e, db)"
proof (cases "acc_nonce (account_at (ledger B db) (tx_sender tx)) = tx_nonce tx
    \<and> charge (account_at (ledger B db) (tx_sender tx)) tx \<noteq> None")
  case True
  then obtain L' where l: "ledger_apply (ledger B db) tx = Some L'"
    using ledger_apply_Some_iff [OF finite_ledger [OF store_readyD(2) [OF assms(1)]] assms(2)]
    by blast
  obtain db' where "apply_transaction B db tx = (Inr (), db')" "store_ready B db'"
    by (rule ready_apply [OF assms(1) l]) (rule that)
  with True show ?thesis by auto
next
  case False
  then show ?thesis using refused_no_write [OF assms(1), of tx] by auto
qed

theorem apply_transaction_decides_witness:
  "(\<exists>db'. apply_transaction mem_backend two_db alice_pays_bob = (Inr (), db') \<and> store_ready mem_backend db')
    \<and> (\<exists>e. apply_transaction mem_backend two_db (alice_pays_bob\<lparr>tx_nonce := 8\<rparr>) = (Inl e, two_db))"
  using apply_transaction_decides [OF two_ready, of alice_pays_bob]
    apply_transaction_decides [OF two_ready, of "alice_pays_bob\<lparr>tx_nonce := 8\<rparr>"] two_funds alice_charge
  by (simp add: two_account alice_pays_bob_def alice_def)

section \<open>Runs\<close>

text \<open>C3. Replay protection along any run of the operations: the nonces of a sender's applied
  transactions are consecutive from the nonce its account had at the start, so no nonce is
  taken twice, and the account's nonce ends past the last of them.\<close>

theorem runs_take_nonces_in_order:
  assumes "backend_ok B" "db_ok B db" "runs B db ops db'" "length (sent k ops) \<le> 2 ^ 64"
  shows "sent k ops = map (\<lambda>i. nonce_of B db k + of_nat i) [0..<length (sent k ops)]
    \<and> distinct (sent k ops)
    \<and> nonce_of B db' k = nonce_of B db k + of_nat (length (sent k ops))"
  using runs_nonces [OF assms(3,1,2), of k] distinct_counting [OF assms(4), of "nonce_of B db k"] by metis

text \<open>C4. Supply along a run of successful operations in which no slash is above 10000 basis points, no
  address asks twice in one epoch to withdraw stake, and no request has the key (address, request
  and unlock epoch) of a withdrawal that was already pending at the start (rewards are paid over fewer
  than \<open>2 ^ 64 - 1\<close> accounts, as every vector is shorter): what accounts and queue
  hold at the end, together with what fees took out of circulation, is what they held at the start
  together with the coinbases and validator shares paid; and the accounts stay well-formed. The
  code enforces none of the three conditions: a second request under one key overwrites the first
  entry (\<open>second_request_loses_first\<close>), and a larger slash underflows the stake
  (\<open>oversized_slash_creates_units\<close>).\<close>

theorem runs_conserve_supply:
  assumes "backend_ok B" "db_ok B db" "runs B db ops db'" "\<forall>op \<in> set ops. slash_in_range op"
    and "distinct (map (\<lambda>p. (pu_address p, pu_request_epoch p)) (List.map_filter request_of ops))"
    and "\<forall>p \<in> set (List.map_filter request_of ops). queue B db (pending_key p) = None"
  shows "all_funds B db' + (\<Sum>op\<leftarrow>ops. taken op) = all_funds B db + (\<Sum>op\<leftarrow>ops. minted op) \<and> db_ok B db'"
proof -
  have "dom (queue B db) \<inter> set (request_keys ops) = {}" using assms(6) by (auto simp: request_keys_def)
  from runs_funds [OF assms(3,1,2) request_keys_distinct [OF assms(5)] this assms(4)]
  show ?thesis using runs_db_ok [OF assms(3,1,2)] by simp
qed

text \<open>C5. The accounts are well-formed in every session: from a well-formed database, whatever calls are
  made, with failures, partial writes, initialization and rollbacks among them, every stored account
  lies under its own address and has the tier of its stake; so the validators are exactly the
  accounts with a stake of at least 500 KYV, each listed once, in address order.\<close>

theorem accounts_stay_well_formed:
  assumes "backend_ok B" "db_ok B db" "db' = ses_db (session H B db calls)"
  shows "(\<forall>k a. ledger B db' k = Some a \<longrightarrow> acc_address a = k \<and> acc_tier a = from_staked_balance (acc_staked a)
      \<and> (is_validator a \<longleftrightarrow> 500000000000 \<le> acc_staked a))
    \<and> (\<forall>vs. get_validators B db' = Inr vs \<longrightarrow> sorted_wrt (<) (map acc_address vs)
        \<and> set vs = {a. \<exists>k. ledger B db' k = Some a \<and> 500000000000 \<le> acc_staked a})"
proof -
  have ok: "db_ok B db'" using session_keeps [OF assms(1,2)] by (simp add: assms(3) session_ok_def)
  have acc: "acc_address a = k \<and> acc_tier a = from_staked_balance (acc_staked a)
      \<and> (is_validator a \<longleftrightarrow> 500000000000 \<le> acc_staked a)" if "ledger B db' k = Some a" for k a
    using ok that from_staked_balance_None_iff [of "acc_staked a"]
    by (auto simp: db_ok_def ledger_ok_def account_ok_def is_validator_def not_less)
  moreover have "set vs = {a. \<exists>k. ledger B db' k = Some a \<and> 500000000000 \<le> acc_staked a}"
    "sorted_wrt (<) (map acc_address vs)" if "get_validators B db' = Inr vs" for vs
    using get_validators_ledger [OF assms(1) ok that] acc by auto
  ultimately show ?thesis by blast
qed

lemma two_applied:
  assumes "ledger_apply (ledger mem_backend two_db) alice_pays_bob = Some L'"
  shows "L' ''alice'' = Some (alice\<lparr>acc_balance := 850, acc_nonce := 8\<rparr>)"
  using assms alice_charge
  by (auto simp: ledger_apply_def two_account ledger_credit_def ledger_fee_def Let_def bind_eq_Some_conv
      alice_pays_bob_def fee_treasury_address_def alice_def split: if_splits)

text \<open>The run of the witnesses: a transfer, a withdrawal, a slash.\<close>

lemma demo_run:
  obtains db' where "runs mem_backend two_db [Apply alice_pays_bob, Unstake ''alice'' 5 3, Slash ''alice'' 100] db'"
proof -
  note ok = mem_backend_ok
  obtain L' where l: "ledger_apply (ledger mem_backend two_db) alice_pays_bob = Some L'" by (rule two_apply)
  obtain db1 where a: "apply_transaction mem_backend two_db alice_pays_bob = (Inr (), db1)"
    "store_ready mem_backend db1" "ledger mem_backend db1 = L'"
    by (rule ready_apply [OF two_ready l]) (rule that)
  have f1: "ledger_funds (ledger mem_backend db1) < 2 ^ 64"
    using ledger_apply_funds [OF finite_ledger [OF ok] l] two_funds by (simp add: a(3) alice_pays_bob_def)
  obtain x1 where x1: "ledger mem_backend db1 ''alice'' = Some x1" "acc_staked x1 = 500000000000"
  proof -
    show thesis
      by (intro that [of "alice\<lparr>acc_balance := 850, acc_nonce := 8\<rparr>"]) (simp_all add: a(3) two_applied [OF l], simp add: alice_def)
  qed
  obtain p db2 where u: "request_unstake mem_backend db1 ''alice'' 5 3 = (Inr p, db2)" "store_ready mem_backend db2"
    by (rule ready_request [OF a(2) x1(1), of 5 3]) (use x1(2) that in simp_all)
  note r = request_unstake_ledger [OF ok store_readyD(3) [OF a(2)] u(1)]
  have q1: "queue mem_backend db1 = (\<lambda>_. None)"
    using apply_frame [OF ok store_readyD(3) [OF two_ready] a(1)] two_queue by simp
  have "all_funds mem_backend db2 = all_funds mem_backend db1"
    using request_unstake_funds [OF ok store_readyD(3) [OF a(2)] u(1)] by (simp add: q1)
  then have f2: "ledger_funds (ledger mem_backend db2) < 2 ^ 64"
    using f1 by (simp add: all_funds_def queue_funds_def q1 map_total_def)
  obtain x2 where x2: "ledger mem_backend db2 ''alice'' = Some x2" "acc_staked x2 \<noteq> 0"
    using r(4) x1 by (simp add: account_at_def)
  obtain s db3 where "slash_validator mem_backend db2 ''alice'' 100 = (Inr s, db3)"
    by (rule ready_slash [OF u(2) f2 _ x2, of 100]) (use that in simp_all)
  then have "node_step mem_backend db2 (Slash ''alice'' 100) db3" by (rule step_slash)
  moreover have "runs mem_backend two_db ([] @ [Apply alice_pays_bob]) db1"
    by (rule runs_snoc [OF runs_Nil step_apply [OF a(1)]])
  then have "runs mem_backend two_db (([] @ [Apply alice_pays_bob]) @ [Unstake ''alice'' 5 3]) db2"
    by (rule runs_snoc) (rule step_unstake [OF u(1)])
  ultimately have "runs mem_backend two_db ((([] @ [Apply alice_pays_bob]) @ [Unstake ''alice'' 5 3]) @ [Slash ''alice'' 100]) db3"
    by (rule runs_snoc [rotated])
  then show thesis by (intro that) simp
qed

theorem accounts_stay_well_formed_witness:
  "\<exists>a. ledger mem_backend (ses_db (session ref_hashing mem_backend two_db [Operate (Apply alice_pays_bob)])) ''alice'' = Some a
     \<and> is_validator a"
proof -
  let ?s = "session ref_hashing mem_backend two_db [Operate (Apply alice_pays_bob)]"
  obtain L' where l: "ledger_apply (ledger mem_backend two_db) alice_pays_bob = Some L'" by (rule two_apply)
  obtain db1 where a: "apply_transaction mem_backend two_db alice_pays_bob = (Inr (), db1)" "ledger mem_backend db1 = L'"
    by (rule ready_apply [OF two_ready l]) (rule that)
  have "ledger mem_backend (ses_db ?s) ''alice'' = Some (alice\<lparr>acc_balance := 850, acc_nonce := 8\<rparr>)"
    by (simp add: session_def a two_applied [OF l])
  moreover have "500000000000 \<le> acc_staked (alice\<lparr>acc_balance := 850, acc_nonce := 8\<rparr>)" by (simp add: alice_def)
  ultimately show ?thesis
    using accounts_stay_well_formed [OF mem_backend_ok store_readyD(3) [OF two_ready] refl,
        of ref_hashing "[Operate (Apply alice_pays_bob)]"] by blast
qed

theorem runs_take_nonces_in_order_witness:
  "\<exists>db'. runs mem_backend two_db [Apply alice_pays_bob, Unstake ''alice'' 5 3, Slash ''alice'' 100] db'
     \<and> nonce_of mem_backend db' ''alice'' = 8"
proof -
  let ?ops = "[Apply alice_pays_bob, Unstake ''alice'' 5 3, Slash ''alice'' 100]"
  obtain db' where r: "runs mem_backend two_db ?ops db'" by (rule demo_run)
  have s: "sent ''alice'' ?ops = [7]" by (simp add: sent_def alice_pays_bob_def)
  from runs_take_nonces_in_order [OF mem_backend_ok store_readyD(3) [OF two_ready] r, of "''alice''"] r
  show ?thesis by (auto simp: s nonce_of_def two_account alice_def)
qed

theorem runs_conserve_supply_witness:
  "\<exists>db'. runs mem_backend two_db [Apply alice_pays_bob, Unstake ''alice'' 5 3, Slash ''alice'' 100] db'
     \<and> all_funds mem_backend db' + 45 = 500000001020"
proof -
  let ?ops = "[Apply alice_pays_bob, Unstake ''alice'' 5 3, Slash ''alice'' 100]"
  obtain db' where r: "runs mem_backend two_db ?ops db'" by (rule demo_run)
  have "\<forall>op \<in> set ?ops. slash_in_range op"
    "distinct (map (\<lambda>p. (pu_address p, pu_request_epoch p)) (List.map_filter request_of ?ops))"
    "\<forall>p \<in> set (List.map_filter request_of ?ops). queue mem_backend two_db (pending_key p) = None"
    by (simp_all add: List.map_filter_def two_queue(1))
  from runs_conserve_supply [OF mem_backend_ok store_readyD(3) [OF two_ready] r this] r
  show ?thesis by (auto simp: two_queue(3) alice_pays_bob_def)
qed

section \<open>Genesis\<close>

lemma set_metadata_queue:
  assumes "backend_ok B" "set_metadata B db k v = (Inr u, db')" "\<not> starts_with pending_unstake_prefix k"
  shows "queue B db' = queue B db"
  using set_metadata_view [OF backend_okD(1) [OF assms(1)] assms(2)] assms(3)
  by (auto simp: queue_def fun_eq_iff)

lemma initialize_queue:
  assumes "backend_ok B" "db_ok B db" "initialize_chain H B now db = (Inr tip, db')"
  shows "queue B db' = queue B db"
proof -
  let ?credit = "\<lambda>db p. credit_account B db (fst p) (snd p)"
  obtain genesis db1 db2 db3 root where
    run: "run_all ?credit db (genesis_credits @ [(genesis_miner, genesis_block_reward)]) = (Inr (), db1)"
    and s: "save_block B db1 genesis = (Inr (), db2)" "save_state_root B db2 root = (Inr (), db3)"
      "save_chain_tip B db3 tip = (Inr (), db')"
    using assms(3) by (rule genesis_run)
  have "db_ok B (snd (run_all ?credit db (genesis_credits @ [(genesis_miner, genesis_block_reward)])))
    \<and> queue B (snd (run_all ?credit db (genesis_credits @ [(genesis_miner, genesis_block_reward)]))) = queue B db"
  proof (rule run_all_invariant [where P = "\<lambda>s. db_ok B s \<and> queue B s = queue B db"])
    fix s p assume s: "db_ok B s \<and> queue B s = queue B db"
    have "db_ok B (snd (?credit s p)) \<and> queue B (snd (?credit s p)) = queue B s"
      by (rule closed_frame [OF assms(1)]) (use s credit_account_closed [OF assms(1)] in blast)+
    with s show "db_ok B (snd (?credit s p)) \<and> queue B (snd (?credit s p)) = queue B db" by simp
  qed (use assms(2) in simp)
  then have "queue B db1 = queue B db" by (simp only: run snd_conv)
  moreover have "db_metadata (snd (save_block B db1 genesis)) = db_metadata db1"
    unfolding save_block_def Let_def
    by (intro read_bind_state [where P = "\<lambda>s. db_metadata s = db_metadata db1"]
        st_bind_closed [where P = "\<lambda>s. db_metadata s = db_metadata db1"])
      (simp_all add: on_blocks_by_hash_def on_blocks_by_height_def)
  then have "queue B db2 = queue B db1" by (intro queue_cong) (simp add: s(1))
  moreover have "queue B db3 = queue B db2"
    using s(2) unfolding save_state_root_def
    by (rule set_metadata_queue [OF assms(1)])
      (simp add: state_root_key_def pending_unstake_prefix_def starts_with_def)
  moreover obtain bs where "set_metadata B db3 chain_tip_key bs = (Inr (), db')"
    using s(3) unfolding save_chain_tip_def by (auto elim!: read_bind_InrE)
  then have "queue B db' = queue B db3"
    by (rule set_metadata_queue [OF assms(1)])
      (simp add: chain_tip_key_def pending_unstake_prefix_def starts_with_def)
  ultimately show ?thesis by simp
qed

text \<open>C6. The supply of a chain: after initialising a database without accounts and withdrawals, and any run of
  successful operations in which no slash is above 10000 basis points (rewards are paid over fewer than
  \<open>2 ^ 64 - 1\<close> accounts, as every vector is shorter), accounts and queue together
  hold at most the four allocations, the first reward and what the run's coinbases and validator
  shares paid. The code does not check the limit on slashes, and without it the bound fails
  (\<open>oversized_slash_creates_units\<close>).\<close>

theorem supply_from_genesis:
  assumes "backend_ok B" "ledger B db = (\<lambda>_. None)" "queue B db = (\<lambda>_. None)"
    and "initialize_chain H B now db = (Inr tip, db0)" "runs B db0 ops db'" "\<forall>op \<in> set ops. slash_in_range op"
  shows "all_funds B db' \<le> 600000050 * 1000000000 + (\<Sum>op\<leftarrow>ops. minted op)"
proof -
  have ok: "db_ok B db" by (simp add: db_ok_def assms(2))
  have "all_funds B db0 = 600000050 * 1000000000"
    using genesis_ledger(2) [OF assms(1) ok assms(4)] initialize_queue [OF assms(1) ok assms(4)]
    by (simp add: all_funds_def queue_funds_def assms(2,3) map_total_def)
  then show ?thesis
    using runs_funds_le [OF assms(5,1) genesis_ledger(1) [OF assms(1) ok assms(4)] assms(6)] by simp
qed

text \<open>C7. Initialisation: on a readable store without a chain, with room for the 600,000,050 KYV below
  \<open>2 ^ 64\<close> units and stored addresses that are valid UTF-8, it succeeds whenever the genesis block can be
  mined, credits each allocation to its address and the first reward to the founder, leaves a
  database on which the integrity check runs and returns true, and cannot be repeated.\<close>

theorem initialize_chain_correct:
  assumes "store_ready B db" "hashing_ok H" "load_chain_tip B db = Inr None"
    and "produce_genesis_block H now genesis_miner = Inr g"
    and "ledger_funds (ledger B db) + 600000050 * 1000000000 < 2 ^ 64" "\<forall>k \<in> dom (ledger B db). utf8_valid k"
  shows "\<exists>tip db'. initialize_chain H B now db = (Inr tip, db')
    \<and> (\<forall>k. unat (acc_balance (account_at (ledger B db') k)) = unat (acc_balance (account_at (ledger B db) k))
        + (\<Sum>p\<leftarrow>genesis_credits @ [(genesis_miner, genesis_block_reward)]. if k = fst p then unat (snd p) else 0))
    \<and> verify_genesis_integrity B db' = Inr True
    \<and> (\<exists>e. initialize_chain H B now db' = (Inl e, db'))"
proof -
  note rd = store_readyD [OF assms(1)]
  obtain tip db' where i: "initialize_chain H B now db = (Inr tip, db')"
    by (rule ready_initialize [OF assms(1,3-6)]) (rule that)
  show ?thesis
    using i genesis_ledger(3) [OF rd(2,3) i] initialized_passes_check [OF rd(1) assms(2) i]
      initialize_once [OF rd(2) i] by blast
qed

text \<open>The genesis block of the witnesses: every digest of the reference hash starts with a zero
  byte, so the first nonce solves it.\<close>

lemma empty_initialize_conditions:
  "load_chain_tip mem_backend (demo_db []) = Inr None"
  "ledger mem_backend (demo_db []) = (\<lambda>_. None)"
  by (simp_all add: load_chain_tip_def get_metadata_total [OF mem_backend_total] demo_metadata demo_ledger)

theorem initialize_chain_correct_witness:
  "\<exists>tip db'. initialize_chain ref_hashing mem_backend 0 (demo_db []) = (Inr tip, db')
     \<and> unat (acc_balance (account_at (ledger mem_backend db') founder_address)) = 150000050 * 1000000000"
proof -
  obtain g where g: "produce_genesis_block ref_hashing 0 genesis_miner = Inr g" by (rule ref_genesis)
  have "ledger_funds (ledger mem_backend (demo_db [])) + 600000050 * 1000000000 < 2 ^ 64"
    "\<forall>k \<in> dom (ledger mem_backend (demo_db [])). utf8_valid k"
    by (simp_all add: empty_initialize_conditions)
  from initialize_chain_correct [OF empty_ready ref_hashing_ok empty_initialize_conditions(1) g this]
  obtain tip db' where i: "initialize_chain ref_hashing mem_backend 0 (demo_db []) = (Inr tip, db')"
    and b: "unat (acc_balance (account_at (ledger mem_backend db') founder_address))
      = unat (acc_balance (account_at (ledger mem_backend (demo_db [])) founder_address))
        + (\<Sum>p\<leftarrow>genesis_credits @ [(genesis_miner, genesis_block_reward)]. if founder_address = fst p then unat (snd p) else 0)"
    by blast
  have "acc_balance (account_at (ledger mem_backend (demo_db [])) founder_address) = 0"
    by (simp add: empty_initialize_conditions account_at_def)
  then have "unat (acc_balance (account_at (ledger mem_backend db') founder_address)) = 150000050 * 1000000000"
    unfolding b
    by (simp add: genesis_credits_def genesis_miner_def founder_address_def ecosystem_address_def
        community_address_def treasury_address_def founder_allocation_def unat_reward_constants)
  with i show ?thesis by blast
qed

theorem supply_from_genesis_witness:
  "\<exists>tip db0. initialize_chain ref_hashing mem_backend 0 (demo_db []) = (Inr tip, db0)
     \<and> all_funds mem_backend db0 \<le> 600000050 * 1000000000"
proof -
  obtain g where g: "produce_genesis_block ref_hashing 0 genesis_miner = Inr g" by (rule ref_genesis)
  obtain tip db0 where i: "initialize_chain ref_hashing mem_backend 0 (demo_db []) = (Inr tip, db0)"
    by (rule ready_initialize [OF empty_ready empty_initialize_conditions(1) g])
      (use that in \<open>simp_all add: empty_initialize_conditions\<close>)
  from supply_from_genesis [OF mem_backend_ok empty_initialize_conditions(2) demo_queue i runs_Nil, simplified] i
  show ?thesis by auto
qed

section \<open>Snapshots and state roots\<close>

text \<open>C8. Rolling back: a snapshot of every account a list of transactions touches can be taken and
  restored, and undoes the list whatever prefix of it succeeded, the partial writes of a
  failing transaction included.\<close>

theorem snapshot_undoes_transactions:
  assumes "store_ready B db" "load_state_root B db = Inr r"
    and "\<forall>tx \<in> set txs. {tx_sender tx, tx_receiver tx, fee_treasury_address} \<subseteq> set addrs"
  shows "\<exists>snap db2. take_snapshot H B db h addrs = Inr snap
    \<and> rollback_to_snapshot B (snd (run_all (apply_transaction B) db txs)) snap = (Inr (), db2)
    \<and> ledger B db2 = ledger B db"
proof -
  note rd = store_readyD [OF assms(1)]
  obtain snap where s: "take_snapshot H B db h addrs = Inr snap" by (rule ready_snapshot [OF assms(1,2)])
  obtain db2 where r: "rollback_to_snapshot B (snd (run_all (apply_transaction B) db txs)) snap = (Inr (), db2)"
    by (rule rollback_total [OF rd(1)])
  show ?thesis using s r rollback_undoes [OF rd(2,3) s _ r] assms(3) by blast
qed

theorem snapshot_undoes_transactions_witness:
  "\<exists>snap db2. take_snapshot ref_hashing mem_backend two_db 9 [''alice'', ''bob'', fee_treasury_address] = Inr snap
     \<and> rollback_to_snapshot mem_backend
         (snd (run_all (apply_transaction mem_backend) two_db [alice_pays_bob, alice_pays_bob])) snap = (Inr (), db2)
     \<and> ledger mem_backend db2 = [''bob'' \<mapsto> bob, ''alice'' \<mapsto> alice]"
proof -
  have "load_state_root mem_backend two_db = Inr None"
    by (simp add: load_state_root_def get_metadata_total [OF mem_backend_total] two_db_def demo_metadata)
  from snapshot_undoes_transactions [OF two_ready this,
      of "[alice_pays_bob, alice_pays_bob]" "[''alice'', ''bob'', fee_treasury_address]" ref_hashing 9]
  show ?thesis by (simp add: alice_pays_bob_def two_ledger)
qed

text \<open>C9. The state root is a function of the ledger alone: it is the reference digest of the
  accounts in address order, so two databases with the same accounts have one root, whatever
  writes made them.\<close>

theorem state_root_is_ledger_root:
  assumes "backend_ok B" "compute_state_root H B db1 = Inr r1" "compute_state_root H B db2 = Inr r2"
    and "ledger B db1 = ledger B db2"
  shows "r1 = r2 \<and> r1 = ledger_root H B (ledger B db1)"
  using compute_state_root_ledger [OF assms(1,2)] compute_state_root_ledger [OF assms(1,3)] assms(4) by simp

theorem state_root_is_ledger_root_witness:
  "\<exists>r. compute_state_root ref_hashing mem_backend (demo_db [alice, bob]) = Inr r
     \<and> compute_state_root ref_hashing mem_backend (demo_db [bob, alice]) = Inr r
     \<and> r = ledger_root ref_hashing mem_backend [''bob'' \<mapsto> bob, ''alice'' \<mapsto> alice]"
proof -
  have r: "store_ready mem_backend (demo_db [bob, alice])"
    by (rule demo_ready) (simp add: alice_def bob_def from_staked_balance_def)
  have l: "ledger mem_backend (demo_db [alice, bob]) = [''bob'' \<mapsto> bob, ''alice'' \<mapsto> alice]"
    "ledger mem_backend (demo_db [alice, bob]) = ledger mem_backend (demo_db [bob, alice])"
    by (simp_all add: demo_ledger alice_def bob_def fun_eq_iff)
  have v: "\<forall>k \<in> dom (ledger mem_backend (demo_db [alice, bob])). utf8_valid k"
    by (auto simp: l(1) intro!: utf8_valid_ascii split: if_splits)
  obtain r1 where r1: "compute_state_root ref_hashing mem_backend (demo_db [alice, bob]) = Inr r1"
    by (rule ready_state_root [OF two_ready [unfolded two_db_def] v])
  obtain r2 where r2: "compute_state_root ref_hashing mem_backend (demo_db [bob, alice]) = Inr r2"
    by (rule ready_state_root [OF r v [unfolded l(2)]])
  from state_root_is_ledger_root [OF mem_backend_ok r1 r2 l(2), unfolded l(1)] r1 r2 show ?thesis by blast
qed

section \<open>Rewards and slashing\<close>

text \<open>C10. The rewards of an epoch: with a coinbase and room for the amounts they are always paid,
  and what enters the accounts is the coinbase and the validator share of the fees, to the
  unit, whatever the number of validators.\<close>

theorem epoch_rewards_paid:
  assumes "store_ready B db" "tx_sender cb = coinbase_sender"
    and "ledger_funds (ledger B db) + unat (tx_amount cb) + unat (calculate_validator_fee_share fees) < 2 ^ 64"
    and "card (dom (ledger B db)) + 2 < 2 ^ 64"
  shows "\<exists>db'. apply_epoch_rewards B db cb fees = (Inr (), db')
    \<and> ledger_funds (ledger B db') = ledger_funds (ledger B db) + unat (tx_amount cb)
        + unat (calculate_validator_fee_share fees)
    \<and> queue B db' = queue B db \<and> db_ok B db'"
proof -
  note rd = store_readyD [OF assms(1)]
  obtain db' where r: "apply_epoch_rewards B db cb fees = (Inr (), db')" by (rule ready_rewards [OF assms])
  have "card (dom (ledger B db)) + 1 < 2 ^ 64" using assms(4) by simp
  from apply_epoch_rewards_funds [OF rd(2,3) this r] rewards_frame [OF rd(2,3) r] r show ?thesis by blast
qed

definition demo_coinbase :: transaction where
  "demo_coinbase = build_coinbase ref_hashing 0 ''bob'' 4 ''block''"

theorem epoch_rewards_paid_witness:
  "\<exists>db'. apply_epoch_rewards mem_backend two_db demo_coinbase 1000 = (Inr (), db')
     \<and> ledger_funds (ledger mem_backend db') = 550000001420"
proof -
  have cb: "tx_sender demo_coinbase = coinbase_sender" "tx_amount demo_coinbase = calculate_block_reward 4"
    by (simp_all add: demo_coinbase_def build_coinbase_def transaction_new_def Let_def)
  have reward: "unat (calculate_block_reward 4) = 50000000000"
    using calculate_block_reward_halving [of 4] by simp
  have share: "unat (calculate_validator_fee_share 1000) = 400"
    using calculate_validator_fee_share_exact [of 1000] by simp
  have "card (dom (ledger mem_backend two_db)) + 2 < 2 ^ 64" by (simp add: two_ledger card_insert_if)
  from epoch_rewards_paid [OF two_ready cb(1) _ this, of 1000]
  show ?thesis by (auto simp: two_funds cb(2) reward share)
qed

lemma rewards_lookup:
  assumes "distinct (map fst ws)" "(k, w) \<in> set ws"
  shows "(\<Sum>p\<leftarrow>rewards T W ws. if k = fst p then unat (snd p) else 0) = unat (validator_share T W w)"
  using assms
proof (induction ws)
  case (Cons p ws)
  have none: "(\<Sum>p\<leftarrow>rewards T W vs. if j = fst p then unat (snd p) else 0) = 0"
    if "j \<notin> fst ` set vs" for j and vs :: "(string \<times> u64) list"
    using that by (induction vs) (auto simp: rewards_def)
  show ?case
  proof (cases "p = (k, w)")
    case True
    then show ?thesis using Cons.prems(1) none [of k ws] by (auto simp: rewards_def word_less_nat_alt)
  next
    case False
    then have "(k, w) \<in> set ws" using Cons.prems(2) by simp
    moreover have "fst p \<noteq> k"
      using imageI [OF calculation, of fst] Cons.prems(1) by auto
    ultimately show ?thesis using Cons by (simp add: rewards_def)
  qed
qed simp

text \<open>C11. Each validator's share: the distribution credits to every active validator exactly its
  proportion of the fees by weight, rounded down, hands out no more than there is, and leaves
  over less than one unit per validator.\<close>

theorem validators_paid_in_proportion:
  assumes "backend_ok B" "db_ok B db" "get_validators B db = Inr vs" "length vs < 2 ^ 64"
    and "0 < T" "0 < weight_sum (weights_of vs)"
    and "distribute_validator_rewards B db T = (Inr d, db')"
  shows "(\<forall>v \<in> set vs. unat (acc_balance (account_at (ledger B db') (acc_address v)))
      = unat (acc_balance v) + unat T * unat (calculate_validator_weight v) div weight_sum (weights_of vs))
    \<and> unat d \<le> unat T \<and> unat T < unat d + length vs
    \<and> ledger_funds (ledger B db') = ledger_funds (ledger B db) + unat d"
  using assms(3,4,7)
proof (rule distribute_runs)
  fix W assume W: "W = (\<Sum>p\<leftarrow>weights_of vs. u64_as_u128 (snd p))" "W \<noteq> 0"
    and run: "run_all (\<lambda>db p. credit_account B db (fst p) (snd p)) db (rewards T W (weights_of vs)) = (Inr (), db')"
    and d: "unat d = (\<Sum>p\<leftarrow>weights_of vs. unat (validator_share T W (snd p)))" "d \<le> T" "unat T < unat d + length vs"
  note cr = credits.credits_run [OF assms(1,2) run]
  note vals = get_validators_ledger [OF assms(1-3)]
  have dist: "distinct (map fst (weights_of vs))"
    using vals(2) by (simp add: weights_of_def comp_def strict_sorted_iff)
  have each: "unat (acc_balance (account_at (ledger B db') (acc_address v)))
      = unat (acc_balance v) + unat T * unat (calculate_validator_weight v) div weight_sum (weights_of vs)"
    if v: "v \<in> set vs" for v
  proof -
    let ?p = "(acc_address v, calculate_validator_weight v)"
    have p: "?p \<in> set (weights_of vs)" using v by (auto simp: weights_of_def)
    obtain k where k: "ledger B db k = Some v" using v vals(1) by blast
    have "k = acc_address v" using k assms(2) by (auto simp: db_ok_def ledger_ok_def account_ok_def)
    with k have "account_at (ledger B db) (acc_address v) = v" by (simp add: account_at_def)
    then show ?thesis
      using cr(3) [of "acc_address v"] rewards_lookup [OF dist p, of T W]
        sum_shares(2) [OF _ W p, of T] assms(4) by simp
  qed
  show ?thesis using each d cr(2) by (simp add: rewards_sum word_le_nat_alt)
qed (use assms(5,6) in auto)

lemma two_validators:
  "{a. \<exists>k. [''bob'' \<mapsto> bob, ''alice'' \<mapsto> alice] k = Some a \<and> is_validator a} = {alice}"
proof -
  have v: "is_validator alice" "\<not> is_validator bob"
    by (simp_all add: is_validator_def alice_def bob_def)
  have "(\<exists>k. [''bob'' \<mapsto> bob, ''alice'' \<mapsto> alice] k = Some a \<and> is_validator a) \<longleftrightarrow> a = alice" for a
  proof
    assume "\<exists>k. [''bob'' \<mapsto> bob, ''alice'' \<mapsto> alice] k = Some a \<and> is_validator a"
    then obtain k where "[''bob'' \<mapsto> bob, ''alice'' \<mapsto> alice] k = Some a" "is_validator a" by blast
    then show "a = alice" using v(2) by (cases "k = ''alice''"; cases "k = ''bob''") simp_all
  next
    assume "a = alice"
    then show "\<exists>k. [''bob'' \<mapsto> bob, ''alice'' \<mapsto> alice] k = Some a \<and> is_validator a"
      using v(1) by (intro exI [of _ "''alice''"]) simp
  qed
  then show ?thesis by simp
qed

theorem validators_paid_in_proportion_witness:
  "\<exists>d db'. distribute_validator_rewards mem_backend two_db 600 = (Inr d, db')
     \<and> unat (acc_balance (account_at (ledger mem_backend db') ''alice'')) = 1600"
proof -
  note rd = store_readyD [OF two_ready]
  have small: "card (dom (ledger mem_backend two_db)) < 2 ^ 64" by (simp add: two_ledger card_insert_if)
  obtain vs where vs: "get_validators mem_backend two_db = Inr vs" by (rule ready_validators [OF two_ready])
  have set: "set vs = {alice}"
    unfolding get_validators_ledger(1) [OF rd(2,3) vs] two_ledger
    by (rule two_validators)
  have "distinct vs"
    using get_validators_ledger(2) [OF rd(2,3) vs] by (simp add: strict_sorted_iff distinct_map)
  with set have one: "vs = [alice]"
    by (cases vs rule: remdups_adj.cases) auto
  have w: "unat (calculate_validator_weight alice) = 500000000000"
    using calculate_validator_weight_exact [of alice] by (simp add: alice_def bonus_of_def)
  obtain d db' where d: "distribute_validator_rewards mem_backend two_db 600 = (Inr d, db')"
    by (rule ready_distribute [OF two_ready _ small, of 600]) (use two_funds that in simp_all)
  have "\<forall>v \<in> set vs. unat (acc_balance (account_at (ledger mem_backend db') (acc_address v)))
      = unat (acc_balance v) + unat (600 :: u64) * unat (calculate_validator_weight v) div weight_sum (weights_of vs)"
    using validators_paid_in_proportion [OF rd(2,3) vs _ _ _ d] by (simp add: one weight_sum_def weights_of_def w)
  with d show ?thesis by (auto simp: one weight_sum_def weights_of_def w) (simp add: alice_def)
qed



text \<open>Above 10000 basis points the stake underflows: the call succeeds, the treasury is credited more
  than was staked, and the ledger holds \<open>2 ^ 64\<close> units more than before.\<close>

lemma oversized_slash_creates_units:
  assumes "backend_ok B" "db_ok B db" "slash_validator B db k bps = (Inr r, db')"
    and "acc_staked (account_at (ledger B db) k) < r"
  shows "ledger_funds (ledger B db') = ledger_funds (ledger B db) + 2 ^ 64"
  using slash_validator_ledger(5) [OF assms(1-3)] assms(4) by simp

lemma oversized_slash_creates_units_witness:
  "\<exists>db'. slash_validator mem_backend two_db ''alice'' 20000 = (Inr 1000000000000, db')
     \<and> ledger_funds (ledger mem_backend db') = 500000001020 + 2 ^ 64"
proof -
  note rd = store_readyD [OF two_ready]
  have x: "slash_amount_of (acc_staked alice) 20000 = 1000000000000"
    by (simp add: word_unat_eq_iff slash_amount_exact alice_def)
  let ?a = "update_validator_tier (alice\<lparr>acc_staked := acc_staked alice - 1000000000000\<rparr>)"
  have adr: "acc_address ?a = ''alice''" by (simp add: alice_def)
  then have "account_ok (acc_address ?a) ?a" by (simp add: account_ok_def)
  then obtain db1 where s: "save_account mem_backend two_db ?a = (Inr (), db1)" "store_ready mem_backend db1"
    "ledger mem_backend db1 = (ledger mem_backend two_db)(acc_address ?a \<mapsto> ?a)"
    by (rule ready_save [OF two_ready]) (rule that)
  have "account_at (ledger mem_backend db1) treasury_address = account_new treasury_address"
    unfolding s(3) adr by (simp add: two_ledger account_at_def treasury_address_def)
  then have "\<exists>L. ledger_credit (ledger mem_backend db1) treasury_address 1000000000000 = Some L"
    by (simp add: ledger_credit_def account_new_def)
  then obtain db2 where c: "credit_account mem_backend db1 treasury_address 1000000000000 = (Inr (), db2)"
    using ready_credit [OF s(2)] by blast
  have "acc_staked alice \<noteq> 0" by (simp add: alice_def)
  then have run: "slash_validator mem_backend two_db ''alice'' 20000 = (Inr 1000000000000, db2)"
    by (simp add: slash_validator_def ready_get_account [OF two_ready] two_account x Let_def s(1) c)
  have "acc_staked (account_at (ledger mem_backend two_db) ''alice'') < 1000000000000"
    by (simp add: two_account alice_def)
  from oversized_slash_creates_units [OF rd(2,3) run this] run show ?thesis by (simp add: two_funds)
qed

section \<open>Unbonding\<close>

text \<open>C13. Processing the matured withdrawals: with a readable queue and less than \<open>2 ^ 64\<close> units in accounts and
  queue together it always succeeds, removes exactly
  the matured entries, credits each owner the sum of their matured amounts, and what the ledger and
  the queue hold together stays the same.\<close>

theorem matured_withdrawals_paid:
  assumes "store_ready B db" "queue_readable B db" "all_funds B db < 2 ^ 64"
  shows "\<exists>n db'. process_matured_unstakes B db now = (Inr n, db')
    \<and> (\<forall>k. queue B db' k = (case queue B db k of
         Some p \<Rightarrow> if is_matured now p then None else Some p | None \<Rightarrow> None))
    \<and> (\<forall>j. unat (acc_balance (account_at (ledger B db') j)) = unat (acc_balance (account_at (ledger B db) j))
         + map_total (\<lambda>p. if is_matured now p \<and> pu_address p = j then unat (pu_amount p) else 0) (queue B db))
    \<and> all_funds B db' = all_funds B db"
proof -
  note rd = store_readyD [OF assms(1)]
  obtain n db' where m: "process_matured_unstakes B db now = (Inr n, db')" "store_ready B db'"
    by (rule ready_mature [OF assms])
  note r = process_matured_result [OF rd(2,3) m(1)]
  show ?thesis using m(1) r(1,2) process_matured_funds [OF rd(2,3) m(1)] by blast
qed

text \<open>A withdrawal of 400 units of alice that is due at epoch 12.\<close>

lemma requested:
  obtains p db where "request_unstake mem_backend two_db ''alice'' 400 2 = (Inr p, db)" "store_ready mem_backend db"
    "queue_readable mem_backend db" "all_funds mem_backend db = 500000001020"
proof -
  note rd = store_readyD [OF two_ready]
  have le: "400 \<le> acc_staked alice" by (simp add: alice_def)
  obtain p db where r: "request_unstake mem_backend two_db ''alice'' 400 2 = (Inr p, db)"
    "store_ready mem_backend db" "queue_readable mem_backend db"
    by (rule ready_request [where e = 2, OF two_ready two_account(3) le]) (use that two_queue(2) in blast)
  have "all_funds mem_backend db = 500000001020"
    using request_unstake_funds [OF rd(2,3) r(1)] by (simp add: two_queue)
  with r show thesis by (rule that)
qed

theorem matured_withdrawals_paid_witness:
  "\<exists>p db n db'. request_unstake mem_backend two_db ''alice'' 400 2 = (Inr p, db)
     \<and> process_matured_unstakes mem_backend db 12 = (Inr n, db') \<and> all_funds mem_backend db' = 500000001020"
proof -
  obtain p db where r: "request_unstake mem_backend two_db ''alice'' 400 2 = (Inr p, db)"
    "store_ready mem_backend db" "queue_readable mem_backend db" "all_funds mem_backend db = 500000001020"
    by (rule requested)
  from matured_withdrawals_paid [OF r(2,3), of 12] r(1,4) show ?thesis by auto
qed

text \<open>C14. Unstaking end to end, next to whatever else is queued: when accounts and queue hold less than
  \<open>2 ^ 64\<close> units, ten epochs can be added to the request epoch in 64 bits, and nothing is pending under
  the key of the request, a covered request always succeeds and takes the amount out of the stake.
  The next processing succeeds; it pays the owner what the earlier requests of the address have due,
  and the new amount exactly when ten epochs have passed; if they have not, the new request stays
  queued, and otherwise it is gone from the queue.\<close>

theorem unstaked_amount_returns:
  assumes "store_ready B db" "queue_readable B db" "all_funds B db < 2 ^ 64"
    and "ledger B db k = Some a" "amt \<le> acc_staked a" "unat e + 10 < 2 ^ 64"
    and "queue B db (pending_key \<lparr>pu_address = k, pu_amount = amt, pu_request_epoch = e, pu_unlock_epoch = e + 10\<rparr>) = None"
  shows "\<exists>p db1 n db2. request_unstake B db k amt e = (Inr p, db1)
    \<and> process_matured_unstakes B db1 now = (Inr n, db2)
    \<and> unat n = map_total (\<lambda>p. if is_matured now p then unat (pu_amount p) else 0) (queue B db)
        + (if unat e + 10 \<le> unat now then unat amt else 0)
    \<and> unat (acc_balance (account_at (ledger B db2) k)) = unat (acc_balance a)
        + map_total (\<lambda>p. if is_matured now p \<and> pu_address p = k then unat (pu_amount p) else 0) (queue B db)
        + (if unat e + 10 \<le> unat now then unat amt else 0)
    \<and> acc_staked (account_at (ledger B db2) k) = acc_staked a - amt
    \<and> queue B db2 (pending_key p) = (if unat e + 10 \<le> unat now then None else Some p)"
proof -
  note rd = store_readyD [OF assms(1)]
  have a: "account_at (ledger B db) k = a" by (simp add: account_at_def assms(4))
  obtain p db1 where r: "request_unstake B db k amt e = (Inr p, db1)" "store_ready B db1"
    "queue_readable B db1"
    by (rule ready_request [where e = e, OF assms(1,4,5)]) (use that assms(2) in blast)
  note rl = request_unstake_ledger [OF rd(2,3) r(1), unfolded a]
  have fresh: "queue B db (pending_key p) = None" using assms(7) by (simp only: rl(3))
  have funds: "all_funds B db1 < 2 ^ 64"
    using request_unstake_funds [OF rd(2,3) r(1)] assms(3) by (simp add: fresh)
  then obtain n db2 where m: "process_matured_unstakes B db1 now = (Inr n, db2)"
    by (rule ready_mature [OF r(2,3)])
  note ml = process_matured_result [OF rd(2) rl(6) m]
  have due: "is_matured now p \<longleftrightarrow> unat e + 10 \<le> unat now"
    using assms(6) by (simp add: is_matured_def rl(3) word_le_nat_alt unat_add_exact)
  have tot: "map_total f (queue B db1) = map_total f (queue B db) + f p" for f :: "pending_unstake \<Rightarrow> nat"
    using map_total_change [OF finite_queue [OF rd(2)], of f db "pending_key p" "Some p"] fresh by (simp add: rl(5))
  have pu: "pu_amount p = amt" "pu_address p = k" by (simp_all add: rl(3))
  have "map_total (\<lambda>p. if is_matured now p then unat (pu_amount p) else 0) (queue B db1) < 2 ^ 64"
    using process_matured_funds [OF rd(2) rl(6) m] ml(3) funds by (simp add: all_funds_def)
  then have n: "unat n = map_total (\<lambda>p. if is_matured now p then unat (pu_amount p) else 0) (queue B db)
      + (if unat e + 10 \<le> unat now then unat amt else 0)"
    using ml(4) by (simp add: tot due pu)
  have "unat (acc_balance (account_at (ledger B db2) k)) = unat (acc_balance a)
      + map_total (\<lambda>p. if is_matured now p \<and> pu_address p = k then unat (pu_amount p) else 0) (queue B db)
      + (if unat e + 10 \<le> unat now then unat amt else 0)"
    using ml(2) [of k] unfolding tot by (simp add: due pu rl(4))
  moreover have "acc_staked (account_at (ledger B db2) k) = acc_staked a - amt"
    using ml(5) [of k] by (simp add: rl(4))
  moreover have "queue B db2 (pending_key p) = (if unat e + 10 \<le> unat now then None else Some p)"
    using ml(1) [of "pending_key p"] by (simp add: rl(5) due)
  ultimately show ?thesis using r(1) m n by blast
qed

theorem unstaked_amount_returns_witness:
  "\<exists>p db p1 db1 n db2. request_unstake mem_backend two_db ''alice'' 400 2 = (Inr p, db)
     \<and> request_unstake mem_backend db ''alice'' 300 3 = (Inr p1, db1)
     \<and> process_matured_unstakes mem_backend db1 12 = (Inr n, db2) \<and> queue mem_backend db2 (pending_key p1) = Some p1
     \<and> unat (acc_balance (account_at (ledger mem_backend db2) ''alice'')) = 1400"
proof -
  note rd = store_readyD [OF two_ready]
  obtain p db where r: "request_unstake mem_backend two_db ''alice'' 400 2 = (Inr p, db)"
    "store_ready mem_backend db" "queue_readable mem_backend db" "all_funds mem_backend db = 500000001020"
    by (rule requested)
  note rl = request_unstake_ledger [OF rd(2,3) r(1), unfolded two_account(1)]
  let ?a = "update_validator_tier (alice\<lparr>acc_staked := acc_staked alice - 400\<rparr>)"
  have a: "ledger mem_backend db ''alice'' = Some ?a" by (simp add: rl(4))
  have bal: "unat (acc_balance ?a) = 1000" by (simp add: alice_def)
  have q: "queue mem_backend db = [pending_key p \<mapsto> p]" by (simp add: rl(5) two_queue(1))
  have paid: "map_total (\<lambda>p. if is_matured 12 p \<and> pu_address p = ''alice'' then unat (pu_amount p) else 0)
      (queue mem_backend db) = 400"
    using map_total_list [of "[(pending_key p, p)]"] by (simp add: q) (simp add: rl(3) is_matured_def)
  have "all_funds mem_backend db < 2 ^ 64" "300 \<le> acc_staked ?a" "unat (3 :: u64) + 10 < 2 ^ 64"
    by (simp_all add: r(4) alice_def)
  moreover have "queue mem_backend db (pending_key \<lparr>pu_address = ''alice'', pu_amount = 300, pu_request_epoch = 3,
      pu_unlock_epoch = 3 + 10\<rparr>) = None"
    by (simp add: q pending_key_eq rl(3))
  ultimately obtain p1 db1 n db2 where "request_unstake mem_backend db ''alice'' 300 3 = (Inr p1, db1)"
    "process_matured_unstakes mem_backend db1 12 = (Inr n, db2)" "queue mem_backend db2 (pending_key p1) = Some p1"
    "unat (acc_balance (account_at (ledger mem_backend db2) ''alice'')) = 1000 + 400 + 0"
    using unstaked_amount_returns [OF r(2,3) _ a, of 300 3 12] unfolding paid bal by auto
  with r(1) show ?thesis by auto
qed

text \<open>Two requests of one address in one epoch have one queue key: the second entry replaces the
  first, and the amount of the first is in no balance, no stake and no queue entry any more.\<close>

lemma second_request_loses_first:
  assumes "backend_ok B" "db_ok B db"
    and "request_unstake B db k amt1 e = (Inr p1, db1)" "request_unstake B db1 k amt2 e = (Inr p2, db2)"
  shows "queue B db2 = (queue B db)(pending_key p1 \<mapsto> p2) \<and> pu_amount p2 = amt2
    \<and> all_funds B db2 + unat amt1 = all_funds B db1"
  using second_request_overwrites [OF assms] by blast

lemma second_request_loses_first_witness:
  "\<exists>p1 db1 p2 db2. request_unstake mem_backend two_db ''alice'' 400 2 = (Inr p1, db1)
     \<and> request_unstake mem_backend db1 ''alice'' 300 2 = (Inr p2, db2)
     \<and> all_funds mem_backend db2 = 500000000620"
proof -
  note rd = store_readyD [OF two_ready]
  obtain p1 db1 where r1: "request_unstake mem_backend two_db ''alice'' 400 2 = (Inr p1, db1)"
    "store_ready mem_backend db1" "queue_readable mem_backend db1" "all_funds mem_backend db1 = 500000001020"
    by (rule requested)
  let ?a = "update_validator_tier (alice\<lparr>acc_staked := acc_staked alice - 400\<rparr>)"
  have a: "ledger mem_backend db1 ''alice'' = Some ?a"
    using request_unstake_ledger(4) [OF rd(2,3) r1(1)] by (simp add: two_account)
  have le: "300 \<le> acc_staked ?a" by (simp add: alice_def)
  obtain p2 db2 where r2: "request_unstake mem_backend db1 ''alice'' 300 2 = (Inr p2, db2)"
    by (rule ready_request [where e = 2, OF r1(2) a le]) (rule that)
  from second_request_loses_first [OF rd(2,3) r1(1) r2] r1 r2 show ?thesis by auto
qed

text \<open>A validator that has requested its whole stake cannot be slashed: whatever the penalty,
  slashing is refused and the database is left as it is, while the stake is still unbonding.\<close>

lemma unbonding_stake_escapes_slashing:
  assumes "backend_ok B" "db_ok B db"
    and "request_unstake B db k (acc_staked (account_at (ledger B db) k)) e = (Inr p, db')"
  shows "\<exists>err. slash_validator B db' k bps = (Inl err, db')
    \<and> queue B db' (pending_key p) = Some p \<and> pu_amount p = acc_staked (account_at (ledger B db) k)"
  using unbonding_escapes_slashing [OF assms, of bps] request_unstake_ledger(3,5) [OF assms] by auto

lemma unbonding_stake_escapes_slashing_witness:
  "\<exists>p db' err. request_unstake mem_backend two_db ''alice'' 500000000000 2 = (Inr p, db')
     \<and> slash_validator mem_backend db' ''alice'' major_slash_bps = (Inl err, db')"
proof -
  note rd = store_readyD [OF two_ready]
  have staked: "acc_staked (account_at (ledger mem_backend two_db) ''alice'') = 500000000000"
    by (simp add: two_account alice_def)
  have le: "500000000000 \<le> acc_staked alice" by (simp add: alice_def)
  obtain p db' where r: "request_unstake mem_backend two_db ''alice'' 500000000000 2 = (Inr p, db')"
    by (rule ready_request [where e = 2, OF two_ready two_account(3) le]) (rule that)
  from unbonding_stake_escapes_slashing [OF rd(2,3) r [folded staked], of major_slash_bps] r
  show ?thesis by blast
qed

end
