(* ===== verification/Tx_Effects.thy ===== *)
theory Tx_Effects
  imports State_Trie "HOL-Library.Multiset"
begin

text \<open>
  The effect of a transaction on the ledger, address by address. Where \<open>ledger_apply\<close> accepts a
  transaction, its result is \<open>enact\<close>: the sender's account is charged, the receiver of a transfer and
  the treasury are credited, and nothing else changes. Credits add, so the effects of transactions
  with different senders commute: the order of a block's transactions does not matter when each has
  its own sender.
\<close>

section \<open>Effects\<close>

definition charged :: "transaction \<Rightarrow> account \<Rightarrow> account" where
  "charged tx a = (let bal = acc_balance a; a = a\<lparr>acc_nonce := tx_nonce tx + 1\<rparr> in
     case tx_type tx of
       Transfer \<Rightarrow> a\<lparr>acc_balance := bal - (tx_amount tx + tx_fee tx)\<rparr>
     | StakeLock \<Rightarrow> update_validator_tier
         (a\<lparr>acc_balance := bal - (tx_amount tx + tx_fee tx), acc_staked := acc_staked a + tx_amount tx\<rparr>)
     | StakeUnlock \<Rightarrow> update_validator_tier
         (a\<lparr>acc_staked := acc_staked a - tx_amount tx, acc_balance := bal + tx_amount tx - tx_fee tx\<rparr>)
     | _ \<Rightarrow> a\<lparr>acc_balance := bal - tx_fee tx\<rparr>)"

definition receives :: "transaction \<Rightarrow> string \<Rightarrow> bool" where
  "receives tx k \<longleftrightarrow> tx_type tx = Transfer \<and> k = tx_receiver tx
     \<or> 0 < tx_fee tx div 10 \<and> k = fee_treasury_address"

definition income :: "transaction \<Rightarrow> string \<Rightarrow> u64" where
  "income tx k = (if tx_type tx = Transfer \<and> k = tx_receiver tx then tx_amount tx else 0)
     + (if k = fee_treasury_address then tx_fee tx div 10 else 0)"

definition effect :: "transaction \<Rightarrow> string \<Rightarrow> account \<Rightarrow> account" where
  "effect tx k a = with_credit (if k = tx_sender tx then charged tx a else a) (income tx k)"

definition touches :: "transaction \<Rightarrow> string \<Rightarrow> bool" where
  "touches tx k \<longleftrightarrow> k = tx_sender tx \<or> receives tx k"

definition enact :: "transaction \<Rightarrow> (string \<Rightarrow> account option) \<Rightarrow> (string \<Rightarrow> account option)" where
  "enact tx L = (\<lambda>k. if touches tx k then Some (effect tx k (account_at L k)) else L k)"

lemma with_credit_zero [simp]: "with_credit a 0 = a"
  by (simp add: with_credit_def)

lemma with_credit_add [simp]: "with_credit (with_credit a x) y = with_credit a (x + y)"
  by (simp add: with_credit_def algebra_simps)

lemma charge_charged: "charge a tx = Some c \<Longrightarrow> c\<lparr>acc_nonce := tx_nonce tx + 1\<rparr> = charged tx a"
  by (cases "tx_type tx")
    (auto simp: charge_def charged_def Let_def update_validator_tier_def split: if_splits)

lemma ledger_credit_enact:
  "ledger_credit L k amt = Some L' \<Longrightarrow> L' = L(k \<mapsto> with_credit (account_at L k) amt)"
  by (auto simp: ledger_credit_def split: if_splits)

lemma ledger_apply_enact:
  assumes "ledger_apply L tx = Some L'"
  shows "L' = enact tx L"
  using assms
proof (rule ledger_applyE)
  fix c L2
  let ?L1 = "L(tx_sender tx \<mapsto> c\<lparr>acc_nonce := tx_nonce tx + 1\<rparr>)"
  assume ch: "charge (account_at L (tx_sender tx)) tx = Some c"
    and cr: "(if tx_type tx = Transfer then ledger_credit ?L1 (tx_receiver tx) (tx_amount tx) else Some ?L1) = Some L2"
    and fee: "ledger_fee L2 (tx_fee tx) = Some L'"
  note L1 = charge_charged [OF ch]
  have L2: "L2 = (if tx_type tx = Transfer
      then ?L1(tx_receiver tx \<mapsto> with_credit (account_at ?L1 (tx_receiver tx)) (tx_amount tx)) else ?L1)"
    using cr ledger_credit_enact by (auto split: if_splits)
  have L': "L' = (if 0 < tx_fee tx div 10
      then L2(fee_treasury_address \<mapsto> with_credit (account_at L2 fee_treasury_address) (tx_fee tx div 10)) else L2)"
    using fee ledger_credit_enact by (auto simp: ledger_fee_def split: if_splits)
  have zero: "tx_fee tx div 10 = 0" if "\<not> 0 < tx_fee tx div 10" using that by (simp add: word_gt_0)
  show ?thesis
    unfolding L' L2 L1
    using zero
    by (auto simp: fun_eq_iff enact_def touches_def receives_def effect_def income_def account_at_upd add.commute)
qed

section \<open>Effects of different senders commute\<close>

lemma charged_credit: "charged tx (with_credit a x) = with_credit (charged tx a) x"
  by (cases "tx_type tx")
    (simp_all add: charged_def with_credit_def Let_def update_validator_tier_def algebra_simps)

lemma effect_commute:
  "tx_sender t \<noteq> tx_sender u \<Longrightarrow> effect t k (effect u k a) = effect u k (effect t k a)"
  by (auto simp: effect_def charged_credit add.commute)

lemma account_at_enact: "account_at (enact tx L) k = (if touches tx k then effect tx k (account_at L k) else account_at L k)"
  by (simp add: enact_def account_at_def)

lemma enact_commute:
  assumes "tx_sender t \<noteq> tx_sender u"
  shows "enact t (enact u L) = enact u (enact t L)"
proof
  fix k
  show "enact t (enact u L) k = enact u (enact t L) k"
    using effect_commute [OF assms, of k "account_at L k"]
    by (simp add: enact_def [of _ "enact _ _"] account_at_enact) (simp add: enact_def)
qed

lemma enact_all_permuted:
  assumes "distinct (map tx_sender txs)" "mset txs' = mset txs"
  shows "fold enact txs' L = fold enact txs L"
proof -
  have inj: "inj_on tx_sender (set txs)" using assms(1) by (simp add: distinct_map)
  have "fold enact txs = fold enact txs'"
  proof (rule fold_multiset_equiv)
    fix t u assume tu: "t \<in> set txs" "u \<in> set txs"
    show "enact t \<circ> enact u = enact u \<circ> enact t"
    proof (cases "t = u")
      case False
      with tu inj have "tx_sender t \<noteq> tx_sender u" by (auto dest: inj_onD)
      then show ?thesis by (simp add: fun_eq_iff [of "enact _ \<circ> _"] enact_commute)
    qed simp
  qed (rule assms(2) [symmetric])
  then show ?thesis by simp
qed

end
