(* ===== verification/Pipeline.thy ===== *)
theory Pipeline
  imports Progress Tx_Effects
begin

text \<open>
  From the mempool through a block into the ledger: the composition of \<open>mempool/pool.rs\<close>,
  \<open>chain/block_producer.rs\<close>, \<open>consensus/rules.rs\<close> and \<open>storage/state_trie.rs\<close>. A node selects
  transactions with \<open>top_by_fee\<close>, mines a micro block of them, every node checks it with the rules,
  applies its transactions in order and removes them from its pool.

  The lemmas show when the transactions of a block can all be applied, that their order does not
  matter then, and when the rules accept the block.
  The locale \<open>transaction_source\<close> is what the producer relies on, the pool is its interpretation
  \<open>selection\<close>. The last sections show that the pool admits transactions in the name of the coinbase
  sender, and that a block does not bind the bodies of its transactions.
\<close>

section \<open>Executing the transactions of a block\<close>

text \<open>What a transaction needs to be executed, apart from the order in the block: a known sender, its
  next nonce, the balance, and for an unlock the stake.\<close>

definition executable :: "(string \<Rightarrow> account option) \<Rightarrow> transaction \<Rightarrow> bool" where
  "executable L tx \<longleftrightarrow> (case L (tx_sender tx) of None \<Rightarrow> False
     | Some a \<Rightarrow> required_balance tx \<le> acc_balance a \<and> acc_nonce a = tx_nonce tx
         \<and> (tx_type tx = StakeUnlock \<longrightarrow> tx_amount tx \<le> acc_staked a))"

lemma executableE:
  assumes "executable L tx"
  obtains a where "L (tx_sender tx) = Some a" "required_balance tx \<le> acc_balance a" "acc_nonce a = tx_nonce tx"
    "tx_type tx = StakeUnlock \<Longrightarrow> tx_amount tx \<le> acc_staked a"
  using assms by (auto simp: executable_def split: option.splits)

lemma executable_payable: "executable L tx \<Longrightarrow> L (tx_sender tx) \<noteq> None \<and> payable L tx"
  by (auto elim!: executableE simp: payable_def)

text \<open>The saturating sum of the rules can fall short of the cost only at a balance of \<open>2 ^ 64 - 1\<close>.\<close>

lemma executable_charge:
  assumes "executable L tx" "finite (dom L)" "ledger_funds L + 1 < 2 ^ 64"
  shows "charge (account_at L (tx_sender tx)) tx \<noteq> None"
  using assms(1)
proof (rule executableE)
  fix a assume a: "L (tx_sender tx) = Some a" "required_balance tx \<le> acc_balance a"
    and unlock: "tx_type tx = StakeUnlock \<Longrightarrow> tx_amount tx \<le> acc_staked a"
  have "unat (acc_balance a) + unat (acc_staked a) + 1 < 2 ^ 64"
    using account_funds_le_ledger [OF assms(2), of "tx_sender tx"] assms(3) by (simp add: account_funds_def a(1))
  then show ?thesis
    using a unlock
    by (cases "tx_type tx")
      (auto simp: charge_def required_balance_def Let_def word_le_nat_alt unat_saturating_add min_def split: if_splits)
qed

lemma executable_applies:
  assumes "executable L tx" "finite (dom L)" "ledger_funds L + 1 < 2 ^ 64"
  obtains L' where "ledger_apply L tx = Some L'"
proof -
  have "acc_nonce (account_at L (tx_sender tx)) = tx_nonce tx" using assms(1) by (auto elim: executableE)
  then have "\<exists>L'. ledger_apply L tx = Some L'"
    using ledger_apply_Some_iff [OF assms(2), of tx] executable_charge [OF assms] assms(3) by simp
  then show thesis using that by blast
qed

text \<open>A transaction takes nothing from the other accounts.\<close>

lemma ledger_credit_others:
  assumes "ledger_credit L k amt = Some L'" "L j = Some a"
  obtains b where "L' j = Some (a\<lparr>acc_balance := b\<rparr>)" "acc_balance a \<le> b"
proof (cases "j = k")
  case True
  then show thesis
    using assms that [of "acc_balance a + amt"]
    by (auto simp: ledger_credit_def with_credit_def word_le_nat_alt unat_add_exact split: if_splits)
next
  case False
  then show thesis using assms that [of "acc_balance a"] by (auto simp: ledger_credit_def split: if_splits)
qed

lemma ledger_apply_others:
  assumes "ledger_apply L tx = Some L'" "j \<noteq> tx_sender tx" "L j = Some a"
  obtains b where "L' j = Some (a\<lparr>acc_balance := b\<rparr>)" "acc_balance a \<le> b"
  using assms(1)
proof (rule ledger_applyE)
  fix c L2
  let ?L1 = "L(tx_sender tx \<mapsto> c\<lparr>acc_nonce := tx_nonce tx + 1\<rparr>)"
  assume cr: "(if tx_type tx = Transfer then ledger_credit ?L1 (tx_receiver tx) (tx_amount tx) else Some ?L1) = Some L2"
    and fee: "ledger_fee L2 (tx_fee tx) = Some L'"
  have L1: "?L1 j = Some a" using assms(2,3) by simp
  obtain b where b: "L2 j = Some (a\<lparr>acc_balance := b\<rparr>)" "acc_balance a \<le> b"
  proof (cases "tx_type tx = Transfer")
    case True
    then have "ledger_credit ?L1 (tx_receiver tx) (tx_amount tx) = Some L2" using cr by simp
    then show thesis by (rule ledger_credit_others) (rule L1, rule that)
  next
    case False
    then show thesis using cr L1 that [of "acc_balance a"] by auto
  qed
  show thesis
  proof (cases "0 < tx_fee tx div 10")
    case True
    with fee have "ledger_credit L2 fee_treasury_address (tx_fee tx div 10) = Some L'" by (simp add: ledger_fee_def)
    then show thesis
    proof (rule ledger_credit_others)
      show "L2 j = Some (a\<lparr>acc_balance := b\<rparr>)" by (rule b(1))
    qed (use that b(2) in \<open>auto intro: order_trans\<close>)
  next
    case False
    with fee b show thesis by (auto simp: ledger_fee_def intro: that)
  qed
qed

lemma executable_stays:
  assumes "executable L t" "ledger_apply L tx = Some L'" "tx_sender t \<noteq> tx_sender tx"
  shows "executable L' t"
  using assms(1)
proof (rule executableE)
  fix a assume a: "L (tx_sender t) = Some a" "required_balance t \<le> acc_balance a" "acc_nonce a = tx_nonce t"
    "tx_type t = StakeUnlock \<Longrightarrow> tx_amount t \<le> acc_staked a"
  obtain b where "L' (tx_sender t) = Some (a\<lparr>acc_balance := b\<rparr>)" "acc_balance a \<le> b"
    by (rule ledger_apply_others [OF assms(2,3) a(1)])
  then show ?thesis using a(2-4) by (simp add: executable_def)
qed

text \<open>One transaction of each sender, each executable before the block: they are executed one after the
  other, and the ledger they leave does not depend on their order.\<close>

lemma block_runs:
  assumes "store_ready B db" "ledger_funds (ledger B db) + 1 < 2 ^ 64"
  shows "distinct (map tx_sender txs) \<Longrightarrow> \<forall>tx \<in> set txs. executable (ledger B db) tx \<Longrightarrow>
    \<exists>db'. runs B db (map Apply txs) db' \<and> store_ready B db' \<and> ledger_funds (ledger B db') \<le> ledger_funds (ledger B db)
      \<and> ledger B db' = fold enact txs (ledger B db)
      \<and> (\<forall>t. tx_sender t \<notin> tx_sender ` set txs \<and> executable (ledger B db) t \<longrightarrow> executable (ledger B db') t)"
proof (induction txs rule: rev_induct)
  case Nil
  then show ?case using assms(1) runs_Nil by auto
next
  case (snoc tx txs)
  obtain db1 where db1: "runs B db (map Apply txs) db1" "store_ready B db1"
      "ledger_funds (ledger B db1) \<le> ledger_funds (ledger B db)" "ledger B db1 = fold enact txs (ledger B db)"
    and keep: "\<And>t. tx_sender t \<notin> tx_sender ` set txs \<Longrightarrow> executable (ledger B db) t \<Longrightarrow> executable (ledger B db1) t"
    using snoc.IH snoc.prems by auto
  have fin: "finite (dom (ledger B db1))" by (rule finite_ledger [OF store_readyD(2) [OF db1(2)]])
  have "executable (ledger B db1) tx" using snoc.prems by (intro keep) auto
  then obtain L' where L': "ledger_apply (ledger B db1) tx = Some L'"
    by (rule executable_applies [OF _ fin]) (use db1(3) assms(2) in simp)
  obtain db' where db': "apply_transaction B db1 tx = (Inr (), db')" "store_ready B db'" "ledger B db' = L'"
    by (rule ready_apply [OF db1(2) L'])
  have "runs B db (map Apply (txs @ [tx])) db'" using runs_snoc [OF db1(1) step_apply [OF db'(1)]] by simp
  moreover have "ledger_funds (ledger B db') \<le> ledger_funds (ledger B db)"
    using ledger_apply_funds [OF fin L'] db1(3) by (simp add: db'(3))
  moreover have "ledger B db' = fold enact (txs @ [tx]) (ledger B db)"
    using ledger_apply_enact [OF L'] by (simp add: db'(3) db1(4))
  moreover have "executable (ledger B db') t"
    if "tx_sender t \<notin> tx_sender ` set (txs @ [tx])" "executable (ledger B db) t" for t
    using executable_stays [OF keep L', of t] that by (simp add: db'(3))
  ultimately show ?case using db'(2) by blast
qed

lemma block_runs_permuted:
  assumes "store_ready B db" "ledger_funds (ledger B db) + 1 < 2 ^ 64" "distinct (map tx_sender txs)"
    and "\<forall>tx \<in> set txs. executable (ledger B db) tx" "mset txs' = mset txs"
  obtains db' where "runs B db (map Apply txs') db'" "ledger B db' = fold enact txs (ledger B db)"
proof -
  have "distinct (map tx_sender txs')"
    using assms(3,5) by (metis mset_eq_imp_distinct_iff mset_map)
  moreover have "\<forall>tx \<in> set txs'. executable (ledger B db) tx" using assms(4) mset_eq_setD [OF assms(5)] by simp
  ultimately obtain db' where "runs B db (map Apply txs') db'" "ledger B db' = fold enact txs' (ledger B db)"
    using block_runs [OF assms(1,2)] by blast
  then show thesis using that enact_all_permuted [OF assms(3,5)] by simp
qed

section \<open>A micro block of any transactions\<close>

lemma produced_micro_fields:
  assumes "produce_micro_block H now txs tip miner k = Inr b"
  shows "hdr_index (blk_header b) = tip_height tip + 1" "hdr_timestamp (blk_header b) = now"
    "\<not> hdr_is_epoch (blk_header b)" "blk_tx_hashes b = map tx_hash txs"
  using assms unfolding produce_micro_block_def Let_def by (auto elim!: mined_into_Inr simp: block_header_new_def)

text \<open>With at most 1000 transactions of distinct hashes the rules accept it when each of them is payable
  and none is from the coinbase sender.\<close>

lemma micro_block_accepted_iff:
  assumes "backend_total B" "accounts_readable B db" "distinct (map tx_hash txs)" "length txs \<le> 1000"
    and "produce_micro_block H now txs tip miner k = Inr b" "tip_height tip + 1 \<noteq> 0"
    and "0 \<le> tip_timestamp tip" "tip_timestamp tip + 500 \<le> now" "now \<le> now' + 120000" "now' + 120000 < 2 ^ 63"
  shows "validate_block H now' b tip txs = Inr ()"
    and "validate_block_rules H B now' b txs tip db = Inr () \<longleftrightarrow>
      (\<forall>tx \<in> set txs. tx_sender tx \<noteq> coinbase_sender \<and> payable (ledger B db) tx)"
proof -
  note f = produced_micro_fields [OF assms(5)]
  have wrap: "i64_wrap (now' + 120000) = now' + 120000" "i64_wrap (now - tip_timestamp tip) = now - tip_timestamp tip"
    using assms(7-10) by (simp_all add: i64_wrap_def)
  show v: "validate_block H now' b tip txs = Inr ()"
    by (rule produced_micro_validates [OF assms(5)]) (use assms(8,9) wrap(1) in simp_all)
  have size: "size_ok b txs" using assms(4) by (simp add: size_ok_def f)
  have time: "time_ok now' b tip" using assms(7-9) by (simp add: time_ok_def f wrap)
  have distinct: "distinct (map tx_hash (ordinary txs))" using assms(3) by (simp add: ordinary_def distinct_map_filter)
  show "validate_block_rules H B now' b txs tip db = Inr () \<longleftrightarrow>
      (\<forall>tx \<in> set txs. tx_sender tx \<noteq> coinbase_sender \<and> payable (ledger B db) tx)"
    unfolding validate_block_rules_iff [OF assms(1,2)]
    using v [unfolded validate_block_iff] assms(6) f size time distinct by (auto simp: ordinary_def)
qed

section \<open>What a block producer relies on\<close>

text \<open>The interface between the pool and the producer: a selection is of held transactions with distinct
  hashes, no two held transactions have one sender and nonce, and removing drops what is named.\<close>

locale transaction_source =
  fixes ok :: "'p \<Rightarrow> bool" and held :: "'p \<Rightarrow> transaction set"
    and pick :: "'p \<Rightarrow> nat \<Rightarrow> transaction list" and discard :: "'p \<Rightarrow> string list \<Rightarrow> 'p"
  assumes pick_held: "ok p \<Longrightarrow> set (pick p n) \<subseteq> held p"
    and pick_hashes: "ok p \<Longrightarrow> distinct (map tx_hash (pick p n))"
    and pick_length: "ok p \<Longrightarrow> length (pick p n) \<le> n"
    and held_hashes: "ok p \<Longrightarrow> inj_on tx_hash (held p)"
    and held_nonces: "ok p \<Longrightarrow> t \<in> held p \<Longrightarrow> u \<in> held p \<Longrightarrow> tx_sender t = tx_sender u \<Longrightarrow>
      tx_nonce t = tx_nonce u \<Longrightarrow> t = u"
    and discard_held: "ok p \<Longrightarrow> held (discard p hs) = {t \<in> held p. tx_hash t \<notin> set hs}"
    and discard_ok: "ok p \<Longrightarrow> ok (discard p hs)"
begin

text \<open>When all are payable there is one of each known sender; when all are executable they are executed.\<close>

lemma one_per_sender:
  assumes "ok p" "t \<in> set (pick p n)" "u \<in> set (pick p n)" "tx_sender t = tx_sender u"
    and "L (tx_sender t) \<noteq> None" "payable L t" "payable L u"
  shows "t = u"
proof (rule held_nonces [OF assms(1)])
  show "t \<in> held p" "u \<in> held p" using pick_held [OF assms(1)] assms(2,3) by auto
  show "tx_nonce t = tx_nonce u" using assms(4-7) by (auto simp: payable_def)
qed (rule assms(4))

lemma chosen_executed:
  assumes "store_ready B db" "ledger_funds (ledger B db) + 1 < 2 ^ 64" "ok p"
    and "\<forall>tx \<in> set (pick p n). executable (ledger B db) tx"
  obtains L' where "\<forall>txs'. mset txs' = mset (pick p n) \<longrightarrow> (\<exists>db'. runs B db (map Apply txs') db' \<and> ledger B db' = L')"
proof -
  have "inj_on tx_sender (set (pick p n))"
  proof (rule inj_onI)
    fix t u assume tu: "t \<in> set (pick p n)" "u \<in> set (pick p n)" "tx_sender t = tx_sender u"
    then have "executable (ledger B db) t" "executable (ledger B db) u" using assms(4) by blast+
    then show "t = u" using one_per_sender [OF assms(3) tu] executable_payable by blast
  qed
  moreover have "distinct (pick p n)" using pick_hashes [OF assms(3)] by (simp add: distinct_map)
  ultimately have one: "distinct (map tx_sender (pick p n))" by (simp add: distinct_map)
  show thesis
  proof (rule that, intro allI impI)
    fix txs' assume perm: "mset txs' = mset (pick p n)"
    show "\<exists>db'. runs B db (map Apply txs') db' \<and> ledger B db' = fold enact (pick p n) (ledger B db)"
      by (rule block_runs_permuted [OF assms(1,2) one assms(4) perm]) blast
  qed
qed

lemma chosen_discarded:
  assumes "ok p"
  shows "held (discard p (map tx_hash (pick p n))) = held p - set (pick p n)"
proof -
  have "tx_hash t \<in> tx_hash ` set (pick p n) \<longleftrightarrow> t \<in> set (pick p n)" if "t \<in> held p" for t
    by (rule inj_on_image_mem_iff [OF held_hashes [OF assms] that pick_held [OF assms]])
  then show ?thesis by (auto simp: discard_held [OF assms])
qed

lemma block_of_choice:
  assumes "store_ready B db" "ledger_funds (ledger B db) + 1 < 2 ^ 64" "ok p" "n \<le> 1000" "txs = pick p n"
    and "produce_micro_block H now txs tip miner k = Inr b" "tip_height tip + 1 \<noteq> 0"
    and "0 \<le> tip_timestamp tip" "tip_timestamp tip + 500 \<le> now" "now \<le> now' + 120000" "now' + 120000 < 2 ^ 63"
  shows "validate_block H now' b tip txs = Inr ()"
    and "validate_block_rules H B now' b txs tip db = Inr () \<longleftrightarrow>
      (\<forall>tx \<in> set txs. tx_sender tx \<noteq> coinbase_sender \<and> payable (ledger B db) tx)"
    and "t \<in> set txs \<Longrightarrow> u \<in> set txs \<Longrightarrow> t \<noteq> u \<Longrightarrow> tx_sender t = tx_sender u \<Longrightarrow>
      ledger B db (tx_sender t) \<noteq> None \<Longrightarrow> validate_block_rules H B now' b txs tip db \<noteq> Inr ()"
    and "\<forall>tx \<in> set txs. tx_sender tx \<noteq> coinbase_sender \<and> executable (ledger B db) tx \<Longrightarrow>
      validate_block_rules H B now' b txs tip db = Inr ()
      \<and> (\<exists>L'. \<forall>txs'. mset txs' = mset txs \<longrightarrow> (\<exists>db'. runs B db (map Apply txs') db' \<and> ledger B db' = L'))"
    and "ok (discard p (blk_tx_hashes b))" "held (discard p (blk_tx_hashes b)) = held p - set txs"
proof -
  note rd = store_readyD [OF assms(1)]
  have txs: "distinct (map tx_hash txs)" "length txs \<le> 1000"
    using pick_hashes [OF assms(3)] pick_length [OF assms(3), of n] assms(4) by (simp_all add: assms(5))
  note acc = micro_block_accepted_iff [OF rd(1,4) txs assms(6-11)]
  show "validate_block H now' b tip txs = Inr ()"
    "validate_block_rules H B now' b txs tip db = Inr () \<longleftrightarrow>
      (\<forall>tx \<in> set txs. tx_sender tx \<noteq> coinbase_sender \<and> payable (ledger B db) tx)"
    by (rule acc)+
  show "validate_block_rules H B now' b txs tip db \<noteq> Inr ()"
    if "t \<in> set txs" "u \<in> set txs" "t \<noteq> u" "tx_sender t = tx_sender u" "ledger B db (tx_sender t) \<noteq> None"
    using one_per_sender [OF assms(3) that(1,2) [unfolded assms(5)] that(4), where L = "ledger B db"] that
    unfolding acc(2) by blast
  show "validate_block_rules H B now' b txs tip db = Inr ()
      \<and> (\<exists>L'. \<forall>txs'. mset txs' = mset txs \<longrightarrow> (\<exists>db'. runs B db (map Apply txs') db' \<and> ledger B db' = L'))"
    if ex: "\<forall>tx \<in> set txs. tx_sender tx \<noteq> coinbase_sender \<and> executable (ledger B db) tx"
  proof
    show "validate_block_rules H B now' b txs tip db = Inr ()" using ex executable_payable unfolding acc(2) by blast
    show "\<exists>L'. \<forall>txs'. mset txs' = mset txs \<longrightarrow> (\<exists>db'. runs B db (map Apply txs') db' \<and> ledger B db' = L')"
      unfolding assms(5) by (rule chosen_executed [OF assms(1-3)]) (use ex assms(5) in blast)+
  qed
  show "ok (discard p (blk_tx_hashes b))" by (rule discard_ok [OF assms(3)])
  show "held (discard p (blk_tx_hashes b)) = held p - set txs"
    using chosen_discarded [OF assms(3), of n] produced_micro_fields(4) [OF assms(6)] by (simp add: assms(5))
qed

end

section \<open>The pool is such a source\<close>

lemma top_by_fee_distinct:
  assumes "mempool_ok m"
  shows "distinct (map tx_hash (top_by_fee m n))"
proof -
  have ok: "indexes_ok m" using assms by (simp add: mempool_ok_def)
  have "distinct (rev (pool_fee_index m))"
    using indexes_okD(3) [OF ok] by (simp add: fee_order.index_of_def strict_sorted_iff)
  then have "distinct (map fee_key_of (top_by_fee m n))"
    unfolding top_by_fee_keys(1) [OF ok] by (rule distinct_take)
  then have "distinct (top_by_fee m n)" by (simp add: distinct_map)
  then show ?thesis
    using inj_on_subset [OF tx_hash_inj [OF ok] top_by_fee_keys(2) [OF ok]] by (simp add: distinct_map)
qed

interpretation selection: transaction_source mempool_ok pool_txs top_by_fee remove_batch
proof
  fix p :: mempool and n t u hs assume ok: "mempool_ok p"
  then have idx: "indexes_ok p" by (simp add: mempool_ok_def)
  show "set (top_by_fee p n) \<subseteq> pool_txs p" by (rule top_by_fee_keys(2) [OF idx])
  show "distinct (map tx_hash (top_by_fee p n))" by (rule top_by_fee_distinct [OF ok])
  show "length (top_by_fee p n) \<le> n" by (simp add: top_by_fee_best(1) [OF ok])
  show "inj_on tx_hash (pool_txs p)" by (rule tx_hash_inj [OF idx])
  show "t \<in> pool_txs p \<Longrightarrow> u \<in> pool_txs p \<Longrightarrow> tx_sender t = tx_sender u \<Longrightarrow> tx_nonce t = tx_nonce u \<Longrightarrow> t = u"
    by (rule pool_nonces_unique [OF ok])
  show "pool_txs (remove_batch p hs) = {t \<in> pool_txs p. tx_hash t \<notin> set hs}" by (rule remove_batch_txs [OF idx])
  show "mempool_ok (remove_batch p hs)" by (rule remove_batch_ok [OF ok])
qed

section \<open>What admission lets in\<close>

text \<open>The comment of \<open>add_transaction\<close> says that sentinel senders never go through the pool. A transaction
  in the name of the coinbase sender that moves nothing and pays nothing is admitted to a pool that
  has room.\<close>

lemma coinbase_sender_admitted:
  assumes "backend_total B" "accounts_readable B db" "mempool_ok m" "pool_len m < max_mempool_size"
    and "ledger B db coinbase_sender = None" "tx_sender tx = coinbase_sender" "tx_nonce tx = 0"
    and "tx_amount tx = 0" "tx_fee tx = 0" "tx_hash tx \<noteq> []" "tx_signature tx \<noteq> []" "tx_receiver tx \<noteq> []"
    and "coinbase_sender \<notin> tx_sender ` pool_txs m" "tx_hash tx \<notin> tx_hash ` pool_txs m"
  obtains m' where "add_transaction B db m tx = (Inr (), m')" "tx \<in> pool_txs m'"
proof -
  have "required_balance tx = 0"
    using assms(8,9) by (simp add: required_balance_def saturating_add_def split: transaction_type.split)
  then have "admissible B db m tx"
    using assms(4-14)
    by (auto simp: admissible_def admitted_fields_def sender_account_def nonce_key_def account_new_def coinbase_sender_def)
  then obtain m' where a: "add_transaction B db m tx = (Inr (), m')"
    by (rule add_transaction_accepts [OF assms(1-3)])
  with add_transaction_admits [OF backend_total_ok [OF assms(1)] assms(3) a] that show thesis by auto
qed

section \<open>What a block does not bind\<close>

text \<open>The Merkle root covers the hash fields of the transactions, and nothing recomputes a hash field from
  the other fields. So one block can be sent with different bodies: with another receiver it passes the
  same checks, and the two nodes that execute it hold different ledgers.\<close>

lemma ledger_transfer_at:
  assumes "ledger_apply L tx = Some L'" "tx_type tx = Transfer" "k \<noteq> tx_sender tx" "k \<noteq> fee_treasury_address"
  shows "acc_balance (account_at L' k)
    = acc_balance (account_at L k) + (if k = tx_receiver tx then tx_amount tx else 0)"
  using assms(1)
proof (rule ledger_applyE)
  fix c L2
  let ?L1 = "L(tx_sender tx \<mapsto> c\<lparr>acc_nonce := tx_nonce tx + 1\<rparr>)"
  assume "(if tx_type tx = Transfer then ledger_credit ?L1 (tx_receiver tx) (tx_amount tx) else Some ?L1) = Some L2"
    and fee: "ledger_fee L2 (tx_fee tx) = Some L'"
  then have cr: "ledger_credit ?L1 (tx_receiver tx) (tx_amount tx) = Some L2" using assms(2) by simp
  have "L' k = L2 k" using fee assms(4) by (auto simp: ledger_fee_def ledger_credit_def split: if_splits)
  then have "acc_balance (account_at L' k) = acc_balance (account_at L2 k)" by (simp add: account_at_def)
  also have "\<dots> = acc_balance (account_at L k) + (if k = tx_receiver tx then tx_amount tx else 0)"
    using cr assms(3) by (auto simp: ledger_credit_def with_credit_def account_at_upd split: if_splits)
  finally show ?thesis .
qed

lemma block_body_not_bound:
  assumes "store_ready B db" "ledger_funds (ledger B db) + 1 < 2 ^ 64"
    and "validate_block_rules H B now b [tx] tip db = Inr ()" "executable (ledger B db) tx"
    and "tx_type tx = Transfer" "tx_amount tx \<noteq> 0" "r \<noteq> tx_receiver tx" "r \<noteq> tx_sender tx" "r \<noteq> fee_treasury_address"
  obtains db1 db2 where "validate_block_rules H B now b [tx\<lparr>tx_receiver := r\<rparr>] tip db = Inr ()"
    "apply_transaction B db tx = (Inr (), db1)" "apply_transaction B db (tx\<lparr>tx_receiver := r\<rparr>) = (Inr (), db2)"
    "ledger B db1 \<noteq> ledger B db2"
proof -
  let ?tx = "tx\<lparr>tx_receiver := r\<rparr>"
  have fin: "finite (dom (ledger B db))" by (rule finite_ledger [OF store_readyD(2) [OF assms(1)]])
  have ex: "executable (ledger B db) ?tx"
    using assms(4,5) by (simp add: executable_def required_balance_def split: option.splits)
  obtain L1 where L1: "ledger_apply (ledger B db) tx = Some L1" by (rule executable_applies [OF assms(4) fin assms(2)])
  obtain L2 where L2: "ledger_apply (ledger B db) ?tx = Some L2" by (rule executable_applies [OF ex fin assms(2)])
  obtain db1 where db1: "apply_transaction B db tx = (Inr (), db1)" "ledger B db1 = L1" by (rule ready_apply [OF assms(1) L1])
  obtain db2 where db2: "apply_transaction B db ?tx = (Inr (), db2)" "ledger B db2 = L2" by (rule ready_apply [OF assms(1) L2])
  have "acc_balance (account_at L1 r) \<noteq> acc_balance (account_at L2 r)"
    using ledger_transfer_at [OF L1, of r] ledger_transfer_at [OF L2, of r] assms(5-9) by simp
  then have "ledger B db1 \<noteq> ledger B db2" by (auto simp: db1 db2)
  moreover have "list_all2 same_to_rules [tx] [?tx]" by (simp add: same_to_rules_def)
  from validate_block_rules_same [OF this, of H B now b tip db "blk_producer b" "blk_validator_signature b"]
  have "validate_block_rules H B now b [?tx] tip db = Inr ()" using assms(3) by simp
  ultimately show thesis using db1 db2 that by blast
qed

end
