(* ===== verification/Chain_Properties.thy ===== *)
theory Chain_Properties
  imports Demo Pipeline Block_Producer Rules Coinbase Block_Store Tx_Store
begin

text \<open>
  The properties of blocks, chains and their storage: Merkle trees, mining and difficulty, the
  emission schedule, block production and validation, the consensus rules, and the block and
  transaction stores. Witnesses use the reference hash of \<open>Reference\<close> and the databases of \<open>Demo\<close>.
\<close>

section \<open>A block for the witnesses\<close>

text \<open>A micro block on a tip of the year 2020.\<close>

definition demo_tip :: chain_tip where
  "demo_tip = tip_genesis\<lparr>tip_timestamp := 1600000000000\<rparr>"

lemma demo_tip_simps:
  "tip_timestamp demo_tip = 1600000000000" "tip_height demo_tip = 0" "tip_hash demo_tip = zero_hash"
  "tip_difficulty demo_tip = 1" "tip_epoch_index demo_tip = 0" "length (tip_hash demo_tip) = 64"
  by (simp_all add: demo_tip_def tip_genesis_def zero_hash_def)

lemma demo_block:
  obtains b where "produce_micro_block ref_hashing 1700000000000 txs demo_tip ''miner'' 1 = Inr b"
    "hdr_timestamp (blk_header b) = 1700000000000"
proof -
  let ?hdr = "block_header_new 1700000000000 1 zero_hash (compute_merkle_root ref_hashing (map tx_hash txs)) 1 False 0"
  have hdr: "hdr_difficulty ?hdr = 1" "hdr_timestamp ?hdr = 1700000000000" "(0 :: u64) < 1"
    by (simp_all add: block_header_new_def)
  obtain b where m: "mined_into ref_hashing ?hdr 1 (map tx_hash txs) ''miner'' 0 = Inr b"
    by (rule ref_mines [OF hdr(1,3)])
  obtain n where "blk_header b = ?hdr\<lparr>hdr_nonce := n\<rparr>" by (rule mined_into_Inr [OF m])
  then have "hdr_timestamp (blk_header b) = 1700000000000" by (simp add: hdr(2))
  then show thesis using m by (intro that [of b]) (simp_all add: produce_micro_block_def demo_tip_simps Let_def)
qed

lemma demo_validates:
  assumes "produce_micro_block ref_hashing 1700000000000 txs demo_tip ''miner'' 1 = Inr b"
  shows "validate_block ref_hashing 1700000000000 b demo_tip txs = Inr ()"
  by (rule produced_micro_validates [OF assms]) (simp_all add: demo_tip_simps i64_wrap_def)

lemma demo_extends:
  assumes "produce_micro_block ref_hashing 1700000000000 txs demo_tip ''miner'' 1 = Inr b"
  shows "extends ref_hashing demo_tip [b] (advance demo_tip b)"
  using extends.accept [OF extends.here demo_validates [OF assms]] by simp

section \<open>Merkle trees\<close>

text \<open>C15. A proof can be generated exactly for the transactions of the block; it verifies, it is about the
  requested hash and the root of the block, and its length is logarithmic in the number of
  transactions.\<close>

theorem merkle_proofs_complete:
  "((\<exists>p. generate_proof H xs t = Some p) \<longleftrightarrow> t \<in> set xs)
   \<and> (\<forall>p. generate_proof H xs t = Some p \<longrightarrow> verify_proof H p \<and> mp_leaf_hash p = t
        \<and> mp_root p = compute_merkle_root H xs \<and> 2 ^ length (mp_siblings p) < 2 * length xs)"
proof -
  have "2 ^ length (mp_siblings p) < 2 * length xs" if p: "generate_proof H xs t = Some p" for p
  proof -
    have ne: "xs \<noteq> []" using p by (cases xs) (simp_all add: generate_proof_def)
    obtain i where "mp_siblings p = proof_siblings H xs i"
      using p by (auto simp: generate_proof_def ne bind_eq_Some_conv)
    then show ?thesis using proof_siblings_length [OF ne] by simp
  qed
  then show ?thesis using generate_proof_iff generate_proof_verifies by blast
qed

theorem merkle_proofs_complete_witness:
  "\<exists>p. generate_proof ref_hashing [''t1'', ''t2'', ''t3''] ''t2'' = Some p \<and> verify_proof ref_hashing p
     \<and> 2 ^ length (mp_siblings p) < (6 :: nat)"
  using merkle_proofs_complete [of ref_hashing "[''t1'', ''t2'', ''t3'']" "''t2''"] by auto

text \<open>C16. The root determines the list of transaction hashes: two different lists of the same length, of
  hashes with the 64 characters of a SHA3-256 digest, have different roots, unless the hash collides
  on the inputs the two trees hash. The hash fields are not the transactions
  (\<open>block_body_not_bound\<close>), and nothing in the code checks that they have 64 characters: without
  that, different lists can share a root (\<open>merkle_root_ignores_boundaries\<close>), as can lists of
  different length (\<open>duplicated_last_transaction_accepted\<close>).\<close>

theorem merkle_root_binds:
  assumes "hashing_ok H" "length xs = length ys" "hash_texts xs" "hash_texts ys" "xs \<noteq> ys"
    and "collision_free H (set (merkle_inputs H xs) \<union> set (merkle_inputs H ys))"
  shows "compute_merkle_root H xs \<noteq> compute_merkle_root H ys"
  using compute_merkle_root_inj [OF assms(1-4) _ assms(6)] assms(5) by blast

theorem merkle_root_binds_witness:
  "compute_merkle_root ref_hashing [replicate 64 (CHR ''0''), replicate 64 (CHR ''1'')]
     \<noteq> compute_merkle_root ref_hashing [replicate 64 (CHR ''0''), replicate 64 (CHR ''2'')]"
proof -
  let ?x = "\<lambda>c. [replicate 64 (CHR ''0''), replicate 64 c]"
  have inputs: "merkle_inputs ref_hashing (?x c) = [replicate 64 (CHR ''0'') @ replicate 64 c]" for c
    by (simp add: merkle_inputs.simps)
  have "ref_digest (replicate 64 (CHR ''0'') @ replicate 64 (CHR ''1''))
      \<noteq> ref_digest (replicate 64 (CHR ''0'') @ replicate 64 (CHR ''2''))"
    by (simp add: ref_digest_def rev_replicate numeral_eq_Suc)
  then have "collision_free ref_hashing (set (merkle_inputs ref_hashing (?x (CHR ''1'')))
      \<union> set (merkle_inputs ref_hashing (?x (CHR ''2''))))"
    unfolding inputs by (auto simp: collision_free_def ref_hashing_def)
  moreover have "hash_texts (?x (CHR ''1''))" "hash_texts (?x (CHR ''2''))" "?x (CHR ''1'') \<noteq> ?x (CHR ''2'')"
    by (simp_all add: hash_texts_def numeral_eq_Suc)
  ultimately show ?thesis by (intro merkle_root_binds ref_hashing_ok) simp_all
qed

text \<open>The root does not determine the number of transactions: appending a copy of the last
  transaction to an odd list of at least three leaves the root as it is, so \<open>validate_block\<close>
  accepts both lists for one block.\<close>

lemma duplicated_last_transaction_accepted:
  assumes "even (length txs)" "txs \<noteq> []"
  shows "validate_block H now b tip (txs @ [t]) = validate_block H now b tip (txs @ [t, t])"
proof -
  have "compute_merkle_root H (map tx_hash (txs @ [t])) = compute_merkle_root H (map tx_hash (txs @ [t, t]))"
    using compute_merkle_root_dup [of "map tx_hash txs" H "tx_hash t"] assms by simp
  then show ?thesis unfolding validate_block_def by (rule arg_cong)
qed

lemma duplicated_last_transaction_accepted_witness:
  "\<exists>b. validate_block ref_hashing 1700000000000 b demo_tip [alice_pays_bob, alice_pays_bob, alice_pays_bob] = Inr ()
     \<and> validate_block ref_hashing 1700000000000 b demo_tip [alice_pays_bob, alice_pays_bob, alice_pays_bob, alice_pays_bob] = Inr ()"
proof -
  let ?t = alice_pays_bob
  obtain b where b: "produce_micro_block ref_hashing 1700000000000 [?t, ?t, ?t] demo_tip ''miner'' 1 = Inr b"
    by (rule demo_block)
  show ?thesis
    using demo_validates [OF b] duplicated_last_transaction_accepted [of "[?t, ?t]" ref_hashing 1700000000000 b demo_tip ?t]
    by auto
qed

section \<open>Mining\<close>

text \<open>C17. Mining returns the least nonce below the limit whose header hash meets the difficulty, with its
  hash and the number of attempts; it returns nothing exactly when no nonce below the limit does.\<close>

theorem mining_finds_least_nonce:
  "case mine_block H hdr m of
     Some r \<Rightarrow> mined_nonce r < m \<and> solves H hdr (mined_nonce r) \<and> (\<forall>k < mined_nonce r. \<not> solves H hdr k)
       \<and> mined_hash r = header_hash_with H hdr (mined_nonce r) \<and> mined_attempts r = mined_nonce r + 1
   | None \<Rightarrow> \<forall>k < m. \<not> solves H hdr k"
  using mine_block_Some [of H hdr m] mine_block_None [of H hdr m] by (simp split: option.split)

theorem mining_finds_least_nonce_witness:
  "\<exists>r. mine_block ref_hashing (block_header_new 0 1 zero_hash zero_hash 1 False 0) 5 = Some r \<and> mined_nonce r = 0"
proof -
  let ?hdr = "block_header_new 0 1 zero_hash zero_hash 1 False 0"
  have "solves ref_hashing ?hdr 0"
    using ref_hash_zero by (simp add: solves_def header_hash_with_def hash_block_header_def block_header_new_def)
  moreover have "(0 :: u64) < 5" by simp
  ultimately have "mine_block ref_hashing ?hdr 5 \<noteq> None" unfolding mine_block_None by blast
  then obtain r where r: "mine_block ref_hashing ?hdr 5 = Some r" by blast
  have "\<not> 0 < mined_nonce r"
    using mining_finds_least_nonce [where H = ref_hashing and hdr = ?hdr and m = 5] \<open>solves ref_hashing ?hdr 0\<close> unfolding r by auto
  with r show ?thesis by (simp add: word_gt_0)
qed

text \<open>C18. The emission schedule: the reward is 50 KYV halved every 290000 epoch blocks, the mined supply
  up to a height is returned and is exactly the sum of these rewards, and it stays below 29
  million KYV. The halving count is cut to 32 bits, so at height 290000 * 2^32 the reward is 50 KYV
  again, and for the largest height the loop never ends.\<close>

theorem emission_schedule:
  assumes "unat h < 290000 * 2 ^ 32"
  shows "unat (calculate_block_reward h) = 50000000000 div 2 ^ (unat h div 290000)
    \<and> (\<exists>r. calculate_mined_supply h = Some r
        \<and> unat r = (\<Sum>k = 0..unat h. 50000000000 div 2 ^ (k div 290000))
        \<and> unat r \<le> 29000000 * 1000000000)
    \<and> calculate_block_reward (290000 * 2 ^ 32) = genesis_block_reward
    \<and> calculate_mined_supply (- 1) = None"
proof -
  obtain r where "calculate_mined_supply h = Some r"
    "unat r = (\<Sum>k = 0..unat h. 50000000000 div 2 ^ (k div 290000))" "unat r \<le> max_mined_units"
    by (rule calculate_mined_supply_value [OF assms])
  moreover have "calculate_mined_supply (- 1) = None"
    by (simp add: calculate_mined_supply_def mined_supply_diverges)
  ultimately show ?thesis
    using calculate_block_reward_halving [OF assms] calculate_block_reward_wraps by (simp add: max_mined_units_def)
qed

theorem emission_schedule_witness:
  "unat (calculate_block_reward 600000) = 12500000000 \<and> (\<exists>r. calculate_mined_supply 1 = Some r \<and> unat r = 100000000000)"
proof -
  have "unat (calculate_block_reward 600000) = 12500000000"
    using emission_schedule [of 600000] by simp
  moreover have "\<exists>r. calculate_mined_supply 1 = Some r \<and> unat r = 100000000000"
  proof -
    have "{0..unat (1 :: u64)} = {0, 1}" by auto
    then have "(\<Sum>k = 0..unat (1 :: u64). 50000000000 div 2 ^ (k div 290000)) = (100000000000 :: nat)" by simp
    then show ?thesis using emission_schedule [of 1] by auto
  qed
  ultimately show ?thesis ..
qed

text \<open>C19. Retargeting, in the unit of the timestamps it is given: from at least two timestamps, with the
  span from the first to the last of the latest 144 (or of all, when there are fewer) in the range of
  64 bits, a difficulty from 1 to 64 goes up by one when the span is shorter than the number of gaps
  times the target (600 for epoch blocks, 3 for micro blocks), down by one when it is at least the
  number of gaps times one more than the target, and stays otherwise; it never leaves 1 to 64. The
  targets are seconds, and block timestamps are milliseconds: with those, blocks exactly on target
  lower the difficulty (\<open>blocks_on_target_lower_difficulty\<close>).\<close>

theorem difficulty_moves_one_step:
  assumes "2 \<le> length ts" "1 \<le> d" "d \<le> 64"
    and "gaps = min (length ts) 144 - 1" "span = last ts - ts ! (length ts - 1 - gaps)"
    and "- (2 ^ 63) \<le> span" "span < 2 ^ 63"
  shows "unat (calculate_next_difficulty d ts e) =
      (if span < (if e then 600 else 3) * int gaps then min (unat d + 1) 64
       else if (if e then 601 else 4) * int gaps \<le> span then max (unat d - 1) 1 else unat d)
    \<and> 1 \<le> calculate_next_difficulty d ts e \<and> calculate_next_difficulty d ts e \<le> 64"
  using next_difficulty_by_span [OF assms] calculate_next_difficulty_bounds [OF assms(1)] by blast

theorem difficulty_moves_one_step_witness:
  "unat (calculate_next_difficulty 10 [0, 1200] True) = 9 \<and> unat (calculate_next_difficulty 10 [0, 1, 2] False) = 11
     \<and> unat (calculate_next_difficulty 10 [0, 3, 7] False) = 10"
proof -
  have d: "1 \<le> (10 :: u32)" "(10 :: u32) \<le> 64" by (simp_all add: word_le_nat_alt)
  note step = difficulty_moves_one_step [OF _ d]
  show ?thesis
    using step [of "[0, 1200]" 1 1200 True] step [of "[0, 1, 2]" 2 2 False] step [of "[0, 3, 7]" 2 7 False]
    by simp
qed

text \<open>Timestamps in milliseconds with the blocks exactly on target.\<close>

lemma blocks_on_target_lower_difficulty:
  assumes "2 \<le> n" "2 \<le> d" "d \<le> 64" "step = (if e then 600000 else 3000)"
  shows "unat (calculate_next_difficulty d (map (\<lambda>i. t + step * int i) [0..<n]) e) = unat d - 1"
proof -
  let ?ts = "map (\<lambda>i. t + step * int i) [0..<n]"
  define gaps where "gaps = min n 144 - 1"
  have g: "1 \<le> gaps" "gaps < n" "gaps \<le> 143" using assms(1) by (auto simp: gaps_def)
  have "last ?ts = t + step * int (n - 1)" using assms(1) by (simp add: last_map)
  moreover have "?ts ! (length ?ts - 1 - gaps) = t + step * int (n - 1 - gaps)" using g by simp
  ultimately have span: "last ?ts - ?ts ! (length ?ts - 1 - gaps) = step * int gaps"
    using g by (simp add: of_nat_diff algebra_simps)
  have step: "(if e then 601 else 4) * int gaps \<le> step * int gaps" "\<not> step * int gaps < (if e then 600 else 3) * int gaps"
    "0 \<le> step * int gaps" "step * int gaps < 2 ^ 63"
    using g assms(4) by (cases e; simp)+
  have d: "1 \<le> d" "1 \<le> unat d - 1" using assms(2) by (auto simp: word_le_nat_alt)
  from next_difficulty_by_span [of ?ts d gaps "step * int gaps" e] assms(1,3) span step d gaps_def
  show ?thesis by simp
qed

section \<open>Blocks and chains\<close>

text \<open>C20. From the pool into the ledger, which holds less than \<open>2 ^ 64 - 1\<close> units: take any pool a node can have, select at most 1000 transactions by
  fee and mine a micro block of them, half a second or more after the tip. Then every node whose
  clock is at most two minutes behind accepts the block by \<open>validate_block\<close>, and by the rules exactly
  when each selected transaction is payable and none is in the name of the coinbase sender; with two
  transactions of one known sender, which the pool admits, it is refused. If each selected
  transaction has a known sender, its next nonce, the balance and, to unlock, the stake, the block is
  accepted, its transactions are applied one after the other in any order with one and the same
  resulting ledger, and removing them leaves a consistent pool of exactly the others.\<close>

theorem pool_block_reaches_ledger:
  assumes "store_ready B db" "ledger_funds (ledger B db) + 1 < 2 ^ 64" "pool_run B m" "n \<le> 1000" "txs = top_by_fee m n"
    and "produce_micro_block H now txs tip miner k = Inr b" "tip_height tip + 1 \<noteq> 0"
    and "0 \<le> tip_timestamp tip" "tip_timestamp tip + 500 \<le> now" "now \<le> now' + 120000" "now' + 120000 < 2 ^ 63"
  shows "validate_block H now' b tip txs = Inr ()
    \<and> (validate_block_rules H B now' b txs tip db = Inr () \<longleftrightarrow>
        (\<forall>tx \<in> set txs. tx_sender tx \<noteq> coinbase_sender \<and> payable (ledger B db) tx))
    \<and> (\<forall>t \<in> set txs. \<forall>u \<in> set txs. t \<noteq> u \<and> tx_sender t = tx_sender u \<and> ledger B db (tx_sender t) \<noteq> None \<longrightarrow>
        validate_block_rules H B now' b txs tip db \<noteq> Inr ())
    \<and> ((\<forall>tx \<in> set txs. tx_sender tx \<noteq> coinbase_sender \<and> executable (ledger B db) tx) \<longrightarrow>
        validate_block_rules H B now' b txs tip db = Inr ()
        \<and> (\<exists>L'. \<forall>txs'. mset txs' = mset txs \<longrightarrow> (\<exists>db'. runs B db (map Apply txs') db' \<and> ledger B db' = L'))
        \<and> mempool_ok (remove_batch m (blk_tx_hashes b))
        \<and> pool_txs (remove_batch m (blk_tx_hashes b)) = pool_txs m - set txs)"
proof -
  have "mempool_ok m" by (rule pool_run_ok [OF store_readyD(2) [OF assms(1)] assms(3)])
  from selection.block_of_choice [OF assms(1,2) this assms(4-11)] show ?thesis by blast
qed

theorem pool_block_reaches_ledger_witness:
  "\<exists>m b db'. add_transaction mem_backend two_db mempool_new alice_pays_bob = (Inr (), m)
     \<and> produce_micro_block ref_hashing 1700000000000 (top_by_fee m 5) demo_tip ''miner'' 1 = Inr b
     \<and> validate_block_rules ref_hashing mem_backend 1700000000000 b (top_by_fee m 5) demo_tip two_db = Inr ()
     \<and> runs mem_backend two_db (map Apply (top_by_fee m 5)) db' \<and> pool_txs (remove_batch m (blk_tx_hashes b)) = {}"
proof -
  obtain m where m: "add_transaction mem_backend two_db mempool_new alice_pays_bob = (Inr (), m)"
    "pool_txs m = {alice_pays_bob}" "set (top_by_fee m 5) = {alice_pays_bob}" "pool_run mem_backend m"
    by (rule alice_pooled)
  obtain b where b: "produce_micro_block ref_hashing 1700000000000 (top_by_fee m 5) demo_tip ''miner'' 1 = Inr b"
    by (rule demo_block)
  have ex: "executable (ledger mem_backend two_db) alice_pays_bob"
    using alice_payable by (simp add: executable_def payable_def two_ledger alice_pays_bob_def)
  have h: "ledger_funds (ledger mem_backend two_db) + 1 < 2 ^ 64" "tip_height demo_tip + 1 \<noteq> 0"
    "0 \<le> tip_timestamp demo_tip" "tip_timestamp demo_tip + 500 \<le> 1700000000000"
    "(1700000000000 :: int) \<le> 1700000000000 + 120000" "(1700000000000 :: int) + 120000 < 2 ^ 63"
    by (simp_all add: two_funds demo_tip_simps)
  have "(5 :: nat) \<le> 1000" by simp
  from pool_block_reaches_ledger [OF two_ready h(1) m(4) this refl b h(2-6)]
  show ?thesis using m b ex alice_not_coinbase by auto
qed

text \<open>C21. A chain of accepted blocks is linked: each block names the hash of the one before it, the
  heights count the blocks, the times never go back, each hash is the hash of its header and meets
  the difficulty the header claims, and the tip's work is the sum of the difficulties (at 64 bits).\<close>

theorem accepted_chain_is_linked:
  assumes "extends H t0 bs t"
  shows "map (hdr_previous_hash \<circ> blk_header) bs @ [tip_hash t] = tip_hash t0 # map blk_hash bs
    \<and> tip_height t = tip_height t0 + of_nat (length bs)
    \<and> sorted (map (hdr_timestamp \<circ> blk_header) bs)
    \<and> (\<forall>b \<in> set bs. blk_hash b = header_hash H (blk_header b)
         \<and> meets_difficulty (blk_hash b) (hdr_difficulty (blk_header b)))
    \<and> tip_total_work t = tip_total_work t0 + (\<Sum>b\<leftarrow>bs. u32_as_u64 (hdr_difficulty (blk_header b)))"
  using extends_links [OF assms] extends_height [OF assms] extends_times_sorted [OF assms]
    extends_work_done [OF assms] extends_work [OF assms] by blast

theorem accepted_chain_is_linked_witness:
  "\<exists>b. extends ref_hashing demo_tip [b] (advance demo_tip b) \<and> hdr_previous_hash (blk_header b) = zero_hash
     \<and> blk_hash b = header_hash ref_hashing (blk_header b)"
proof -
  obtain b where b: "produce_micro_block ref_hashing 1700000000000 [alice_pays_bob] demo_tip ''miner'' 1 = Inr b"
    by (rule demo_block)
  from accepted_chain_is_linked [OF demo_extends [OF b]] demo_extends [OF b]
  show ?thesis by (auto simp: demo_tip_simps)
qed

text \<open>C22. The tip fixes the history: two chains of accepted blocks of one length from one start that end
  in the same hash consist of blocks with the same hashes, unless the hash collides on their
  headers; the timestamps are written with the thirteen digits they have until the year 2286.\<close>

theorem tip_fixes_history:
  assumes "hashing_ok H" "length (tip_hash t0) = 64" "extends H t0 bs t" "extends H t0 cs u"
    and "length bs = length cs" "collision_free H ((header_input \<circ> blk_header) ` (set bs \<union> set cs))"
    and "\<forall>b \<in> set bs \<union> set cs. ts13 b" "tip_hash t = tip_hash u"
  shows "map blk_hash bs = map blk_hash cs"
  by (rule extends_immutable [OF assms])

theorem tip_fixes_history_witness:
  "\<exists>b c. extends ref_hashing demo_tip [b] (advance demo_tip b) \<and> extends ref_hashing demo_tip [c] (advance demo_tip c)
     \<and> map blk_hash [b] = map blk_hash [c]"
proof -
  obtain b where b: "produce_micro_block ref_hashing 1700000000000 [alice_pays_bob] demo_tip ''miner'' 1 = Inr b"
    and ts: "hdr_timestamp (blk_header b) = 1700000000000"
    by (rule demo_block)
  from ts have "ts13 b" by (simp add: ts13_def i64_to_string_def dec_string.simps)
  then show ?thesis
    using tip_fixes_history [OF ref_hashing_ok demo_tip_simps(6) demo_extends [OF b] demo_extends [OF b]]
      demo_extends [OF b] by (auto simp: collision_free_def)
qed

section \<open>The consensus rules\<close>

text \<open>C23. What the rules accept: with a readable database, a block passes exactly when its hash is the
  hash of its header and meets its difficulty, the Merkle root is the one of the transactions, and,
  except at index 0, it is the next block of the tip, within the size and time limits, pays exactly
  the scheduled reward to a coinbase at its head (epoch blocks) or has no transaction in the name of
  the coinbase sender (micro blocks), and its transactions of other senders have distinct hashes and
  are payable from the accounts as they are. In an epoch block further transactions in the name of
  the coinbase sender are not checked at all, although the comment asks for exactly one coinbase
  (\<open>further_coinbases_unchecked\<close>).\<close>

theorem rules_accept_iff:
  assumes "backend_total B" "accounts_readable B db"
  shows "validate_block_rules H B now b txs tip db = Inr () \<longleftrightarrow>
    meets_difficulty (blk_hash b) (hdr_difficulty (blk_header b))
    \<and> header_hash H (blk_header b) = blk_hash b
    \<and> hdr_merkle_root (blk_header b) = compute_merkle_root H (map tx_hash txs)
    \<and> (if hdr_index (blk_header b) = 0 then hdr_previous_hash (blk_header b) = zero_hash
       else hdr_index (blk_header b) = tip_height tip + 1
         \<and> hdr_previous_hash (blk_header b) = tip_hash tip \<and> size_ok b txs \<and> time_ok now b tip
         \<and> (if hdr_is_epoch (blk_header b)
            then hdr_epoch_index (blk_header b) = tip_epoch_index tip + 1
              \<and> blk_reward b = calculate_block_reward (hdr_epoch_index (blk_header b))
              \<and> txs \<noteq> [] \<and> verify_coinbase H (hd txs) (hdr_epoch_index (blk_header b)) (blk_hash b)
            else \<forall>tx \<in> set txs. tx_sender tx \<noteq> coinbase_sender)
         \<and> distinct (map tx_hash (ordinary txs)) \<and> (\<forall>tx \<in> set (ordinary txs). payable (ledger B db) tx))"
  by (rule validate_block_rules_iff [OF assms])

text \<open>The fields of the demonstration block.\<close>

lemma demo_block_fields:
  assumes "produce_micro_block ref_hashing 1700000000000 [alice_pays_bob] demo_tip ''miner'' 1 = Inr b"
  shows "hdr_index (blk_header b) = 1" "hdr_is_epoch (blk_header b) = False" "hdr_timestamp (blk_header b) = 1700000000000"
proof -
  let ?hdr = "block_header_new 1700000000000 1 zero_hash (compute_merkle_root ref_hashing [tx_hash alice_pays_bob]) 1 False 0"
  have m: "mined_into ref_hashing ?hdr 1 [tx_hash alice_pays_bob] ''miner'' 0 = Inr b"
    using assms by (simp add: produce_micro_block_def demo_tip_simps Let_def)
  obtain n where "blk_header b = ?hdr\<lparr>hdr_nonce := n\<rparr>" by (rule mined_into_Inr [OF m])
  then show "hdr_index (blk_header b) = 1" "hdr_is_epoch (blk_header b) = False"
    "hdr_timestamp (blk_header b) = 1700000000000" by (simp_all add: block_header_new_def)
qed

lemma demo_block_limits:
  assumes "produce_micro_block ref_hashing 1700000000000 [alice_pays_bob] demo_tip ''miner'' 1 = Inr b"
  shows "size_ok b [alice_pays_bob]" "time_ok 1700000000000 b demo_tip"
  by (simp_all add: size_ok_def time_ok_def demo_block_fields [OF assms] demo_tip_simps i64_wrap_def)

theorem rules_accept_iff_witness:
  "\<exists>b. produce_micro_block ref_hashing 1700000000000 [alice_pays_bob] demo_tip ''miner'' 1 = Inr b
     \<and> validate_block_rules ref_hashing mem_backend 1700000000000 b [alice_pays_bob] demo_tip two_db = Inr ()"
proof -
  obtain b where b: "produce_micro_block ref_hashing 1700000000000 [alice_pays_bob] demo_tip ''miner'' 1 = Inr b"
    by (rule demo_block)
  note f = demo_block_fields [OF b]
  have "validate_block_rules ref_hashing mem_backend 1700000000000 b [alice_pays_bob] demo_tip two_db = Inr ()"
    using demo_validates [OF b, unfolded validate_block_iff] f demo_block_limits [OF b]
    by (simp add: rules_accept_iff [OF two_backend_readable] alice_not_coinbase alice_payable)
  with b show ?thesis by blast
qed

text \<open>C24. The chain's check \<open>validate_block\<close> against the rules and against the producers: a block after
  the first that passes the rules on a tip with a timestamp passes it too; and when the clock has not
  gone back behind the tip and the validator's clock is at most two minutes behind the producer's,
  a micro block produced on a tip passes it with its transactions, and an epoch block produced on a
  tip from micro block hashes passes it, with whatever transactions it is given, exactly when their
  Merkle root is the one of the micro block hashes: the check knows no commitment to micro blocks.\<close>

theorem rules_refine_validate_block:
  shows "(hdr_index (blk_header b) \<noteq> 0 \<and> 0 < tip_timestamp tip \<and> validate_block_rules H B now b txs tip db = Inr () \<longrightarrow>
      validate_block H now b tip txs = Inr ())
    \<and> (tip_timestamp tip \<le> made \<and> made \<le> i64_wrap (now + 120000) \<longrightarrow>
        (produce_micro_block H made txs tip miner m = Inr b \<longrightarrow> validate_block H now b tip txs = Inr ())
        \<and> (produce_epoch_block H made hashes tip miner root m = Inr b \<longrightarrow>
            (validate_block H now b tip txs = Inr () \<longleftrightarrow> compute_merkle_root H (map tx_hash txs) = compute_merkle_root H hashes)))"
  using rules_imply_validate_block [of b tip H B now txs db] produced_micro_validates [of H made txs tip miner m b now]
    produced_epoch_validates_iff [of H made hashes tip miner root m b now txs]
  by blast

theorem rules_refine_validate_block_witness:
  "\<exists>b. validate_block_rules ref_hashing mem_backend 1700000000000 b [alice_pays_bob] demo_tip two_db = Inr ()
     \<and> validate_block ref_hashing 1700000000000 b demo_tip [alice_pays_bob] = Inr ()"
proof -
  obtain b where b: "produce_micro_block ref_hashing 1700000000000 [alice_pays_bob] demo_tip ''miner'' 1 = Inr b"
    by (rule demo_block)
  note f = demo_block_fields [OF b]
  have "validate_block_rules ref_hashing mem_backend 1700000000000 b [alice_pays_bob] demo_tip two_db = Inr ()"
    using demo_validates [OF b, unfolded validate_block_iff] f demo_block_limits [OF b]
    by (simp add: validate_block_rules_iff [OF two_backend_readable] alice_not_coinbase alice_payable)
  then show ?thesis
    using rules_refine_validate_block [where b = b and tip = demo_tip and H = ref_hashing and B = mem_backend and now = 1700000000000] f
    by (auto simp: demo_tip_simps)
qed

text \<open>Transactions are checked against the accounts before the block: two transactions of one sender
  with one nonce pass together, and an unknown sender passes with any amount, although after the
  first the second cannot be applied, and the unknown sender's transfer cannot be applied at all.\<close>

lemma rules_accept_unappliable:
  assumes "backend_total B" "accounts_readable B db"
    and "tx_sender t1 = tx_sender t2" "tx_nonce t1 = tx_nonce t2" "tx_hash t1 \<noteq> tx_hash t2"
    and "payable (ledger B db) t2" "ledger_apply (ledger B db) t1 = Some L1"
    and "ledger B db (tx_sender t3) = None" "tx_type t3 = Transfer" "0 < tx_amount t3"
  shows "check_transactions B db [t1, t2] = Inr () \<and> ledger_apply L1 t2 = None
    \<and> check_transactions B db [t3] = Inr () \<and> ledger_apply (ledger B db) t3 = None"
  using same_nonce_pair_accepted [OF assms(1-5) applicable_is_payable [OF assms(7)] assms(6,7)]
    unknown_sender_accepted [OF assms(1,2,8-10)] by blast

lemma rules_accept_unappliable_witness:
  "check_transactions mem_backend two_db [alice_pays_bob, alice_pays_bob\<lparr>tx_hash := ''h2''\<rparr>] = Inr ()
     \<and> check_transactions mem_backend two_db [alice_pays_bob\<lparr>tx_sender := ''carol''\<rparr>] = Inr ()"
proof -
  obtain L' where a: "ledger_apply (ledger mem_backend two_db) alice_pays_bob = Some L'" by (rule two_apply)
  let ?t2 = "alice_pays_bob\<lparr>tx_hash := ''h2''\<rparr>" and ?t3 = "alice_pays_bob\<lparr>tx_sender := ''carol''\<rparr>"
  have "tx_sender alice_pays_bob = tx_sender ?t2" "tx_nonce alice_pays_bob = tx_nonce ?t2"
    "tx_hash alice_pays_bob \<noteq> tx_hash ?t2" "payable (ledger mem_backend two_db) ?t2"
    using alice_payable by (simp_all add: payable_def required_balance_def alice_pays_bob_def split: option.splits)
  moreover have "ledger mem_backend two_db (tx_sender ?t3) = None" "tx_type ?t3 = Transfer" "0 < tx_amount ?t3"
    by (simp_all add: two_ledger alice_pays_bob_def)
  ultimately show ?thesis
    using rules_accept_unappliable [OF two_backend_readable, of alice_pays_bob ?t2 L' ?t3] a by blast
qed

text \<open>C25. An accepted epoch block pays the scheduled reward of the next epoch to a coinbase at its head.
  The coinbase's hash is made from the block's hash and the block's hash from the Merkle root over
  the coinbase, so the block's hash solves an equation over the hash function. If
  \<open>produce_epoch_block\<close> made the block, the micro block hashes it was given have the Merkle root of a
  list that starts with the coinbase hash of the finished block.\<close>

theorem epoch_block_is_fixed_point:
  assumes "hdr_index (blk_header b) \<noteq> 0" "hdr_is_epoch (blk_header b)"
    and "backend_total B" "accounts_readable B db" "validate_block_rules H B now b txs tip db = Inr ()"
  shows "txs \<noteq> [] \<and> tx_sender (hd txs) = coinbase_sender
    \<and> tx_amount (hd txs) = calculate_block_reward (tip_epoch_index tip + 1)
    \<and> blk_reward b = calculate_block_reward (tip_epoch_index tip + 1)
    \<and> blk_hash b = header_hash H ((blk_header b)\<lparr>hdr_merkle_root := compute_merkle_root H
         (coinbase_hash H (blk_hash b) (hdr_epoch_index (blk_header b)) # map tx_hash (tl txs))\<rparr>)
    \<and> (produce_epoch_block H made hashes tip miner root m = Inr b \<longrightarrow> compute_merkle_root H hashes
        = compute_merkle_root H (coinbase_hash H (blk_hash b) (hdr_epoch_index (blk_header b)) # map tx_hash (tl txs)))"
proof -
  note acc = assms(5) [unfolded validate_block_rules_iff [OF assms(3,4)]]
  have "map tx_hash txs = coinbase_hash H (blk_hash b) (hdr_epoch_index (blk_header b)) # map tx_hash (tl txs)"
    using acc assms(1,2) by (cases txs) (simp_all add: verify_coinbase_iff)
  then have "hdr_merkle_root (blk_header b)
      = compute_merkle_root H (coinbase_hash H (blk_hash b) (hdr_epoch_index (blk_header b)) # map tx_hash (tl txs))"
    using acc by simp
  then show ?thesis
    using acc assms(1,2) epoch_block_fixed_point [OF assms(1,2,5)] produced_epoch_root [of H made hashes tip miner root m b]
    by (auto simp: verify_coinbase_iff)
qed

text \<open>The reference hash reads the last 31 bytes only, so a header with a long state root is hashed
  without its Merkle root, and the equation has a solution.\<close>

lemma ref_hash_tail: "length s = 31 \<Longrightarrow> sha3_256_hex ref_hashing (p @ s) = sha3_256_hex ref_hashing s"
  by (simp add: sha3_256_hex_def ref_hashing_def ref_digest_def)

lemma ref_header_tail:
  assumes "length (hdr_state_root h) = 31"
  shows "header_hash ref_hashing h = sha3_256_hex ref_hashing (hdr_state_root h)"
proof -
  obtain p where "header_input h = p @ hdr_state_root h"
    unfolding header_input_def header_preimage_def by (metis append_assoc)
  then show ?thesis
    using ref_hash_tail [OF assms, of p]
    by (simp add: header_hash_def header_hash_with_def hash_block_header_def header_input_def)
qed

definition demo_epoch :: "string \<Rightarrow> block" where
  "demo_epoch root = \<lparr>blk_header = \<lparr>hdr_index = 1, hdr_timestamp = 1700000000000, hdr_previous_hash = zero_hash,
     hdr_merkle_root = root, hdr_nonce = 0, hdr_difficulty = 1, hdr_is_epoch = True, hdr_epoch_index = 1,
     hdr_state_root = replicate 31 (CHR ''5'')\<rparr>, blk_tx_hashes = [],
     blk_hash = sha3_256_hex ref_hashing (replicate 31 (CHR ''5'')), blk_validator_signature = [], blk_producer = ''miner'', blk_reward = calculate_block_reward 1\<rparr>"

theorem epoch_block_is_fixed_point_witness:
  "\<exists>b txs. validate_block_rules ref_hashing mem_backend 1700000000000 b txs demo_tip two_db = Inr ()
     \<and> blk_hash b = header_hash ref_hashing ((blk_header b)\<lparr>hdr_merkle_root := compute_merkle_root ref_hashing
         (coinbase_hash ref_hashing (blk_hash b) 1 # map tx_hash (tl txs))\<rparr>)"
proof -
  let ?h = "sha3_256_hex ref_hashing (replicate 31 (CHR ''5''))"
  let ?cb = "build_coinbase ref_hashing 1700000000000 ''miner'' 1 ?h"
  let ?b = "demo_epoch (compute_merkle_root ref_hashing (map tx_hash [?cb]))"
  have header: "header_hash ref_hashing (blk_header ?b) = ?h"
    by (subst ref_header_tail) (simp_all add: demo_epoch_def)
  have "verify_coinbase ref_hashing ?cb 1 ?h" by (rule build_coinbase_verifies)
  moreover from this have "tx_sender ?cb = coinbase_sender" by (simp add: verify_coinbase_iff)
  moreover have "time_ok 1700000000000 ?b demo_tip" "size_ok ?b [?cb]"
    by (simp_all add: time_ok_def size_ok_def demo_epoch_def demo_tip_simps i64_wrap_def)
  ultimately have ok: "validate_block_rules ref_hashing mem_backend 1700000000000 ?b [?cb] demo_tip two_db = Inr ()"
    using header ref_hash_zero unfolding validate_block_rules_iff [OF two_backend_readable]
    by (simp add: demo_epoch_def demo_tip_simps)
  have "hdr_index (blk_header ?b) \<noteq> 0" "hdr_is_epoch (blk_header ?b)" "hdr_epoch_index (blk_header ?b) = 1"
    by (simp_all add: demo_epoch_def)
  from epoch_block_is_fixed_point [OF this(1,2) two_backend_readable ok] this(3) ok show ?thesis by metis
qed

text \<open>Of an epoch block's transactions in the name of the coinbase sender only the first is looked at.
  The witness is an accepted block with a second one that claims a thousand KYV.\<close>

lemma further_coinbases_unchecked:
  "check_coinbase H b (cb # txs) = check_coinbase H b [cb]
    \<and> check_transactions B db txs = check_transactions B db (filter (\<lambda>tx. tx_sender tx \<noteq> coinbase_sender) txs)"
  using check_transactions_ordinary [of B db txs] by (simp add: check_coinbase_def ordinary_def)

lemma further_coinbases_unchecked_witness:
  "\<exists>b cb. validate_block_rules ref_hashing mem_backend 1700000000000 b
     [cb, alice_pays_bob\<lparr>tx_sender := coinbase_sender, tx_amount := 1000000000000\<rparr>] demo_tip two_db = Inr ()"
proof -
  let ?h = "sha3_256_hex ref_hashing (replicate 31 (CHR ''5''))"
  let ?cb = "build_coinbase ref_hashing 1700000000000 ''miner'' 1 ?h"
  let ?txs = "[?cb, alice_pays_bob\<lparr>tx_sender := coinbase_sender, tx_amount := 1000000000000\<rparr>]"
  let ?b = "demo_epoch (compute_merkle_root ref_hashing (map tx_hash ?txs))"
  have "header_hash ref_hashing (blk_header ?b) = ?h"
    by (subst ref_header_tail) (simp_all add: demo_epoch_def)
  moreover have "verify_coinbase ref_hashing ?cb 1 ?h" by (rule build_coinbase_verifies)
  moreover from this have "tx_sender ?cb = coinbase_sender" by (simp add: verify_coinbase_iff)
  moreover have "time_ok 1700000000000 ?b demo_tip" "size_ok ?b ?txs"
    by (simp_all add: time_ok_def size_ok_def demo_epoch_def demo_tip_simps i64_wrap_def)
  ultimately have "validate_block_rules ref_hashing mem_backend 1700000000000 ?b ?txs demo_tip two_db = Inr ()"
    using ref_hash_zero unfolding validate_block_rules_iff [OF two_backend_readable]
    by (simp add: demo_epoch_def demo_tip_simps)
  then show ?thesis by blast
qed

text \<open>C26. A coinbase belongs to one block: the transaction built for a block at an epoch height verifies
  for it, with the scheduled amount, the height as its nonce and the coinbase sentinel as sender,
  and for no other block or height, unless the hash collides on the two coinbase texts.\<close>

theorem coinbase_bound_to_block:
  assumes "hashing_ok H"
    and "collision_free H {''coinbase:'' @ h @ '':'' @ u64_to_string e, ''coinbase:'' @ h' @ '':'' @ u64_to_string e'}"
  shows "(verify_coinbase H (build_coinbase H now miner e h) e' h' \<longleftrightarrow> e' = e \<and> h' = h)
    \<and> tx_sender (build_coinbase H now miner e h) = coinbase_sender
    \<and> tx_receiver (build_coinbase H now miner e h) = miner
    \<and> tx_amount (build_coinbase H now miner e h) = calculate_block_reward e
    \<and> tx_nonce (build_coinbase H now miner e h) = e"
proof -
  let ?cb = "build_coinbase H now miner e h"
  have v: "verify_coinbase H ?cb e h" by (rule build_coinbase_verifies)
  then have f: "tx_sender ?cb = coinbase_sender" "tx_amount ?cb = calculate_block_reward e" "tx_nonce ?cb = e"
    "tx_hash ?cb = coinbase_hash H h e" by (simp_all add: verify_coinbase_iff)
  have r: "tx_receiver ?cb = miner" by (simp add: build_coinbase_def transaction_new_def Let_def)
  have "e' = e \<and> h' = h" if "verify_coinbase H ?cb e' h'"
    using coinbase_hash_binds [OF assms(1) _ assms(2)] that f(4) by (auto simp: verify_coinbase_iff)
  with v f r show ?thesis by blast
qed

theorem coinbase_bound_to_block_witness:
  "\<not> verify_coinbase ref_hashing (build_coinbase ref_hashing 0 ''miner'' 4 ''block'') 4 ''other''"
proof -
  have four: "u64_to_string 4 = ''4''" by (simp add: u64_to_string_def dec_string.simps digit_char_def char_of_def bit_0)
  have "ref_digest (''coinbase:'' @ ''block'' @ '':'' @ u64_to_string 4)
      \<noteq> ref_digest (''coinbase:'' @ ''other'' @ '':'' @ u64_to_string 4)"
    unfolding four ref_digest_def by (simp add: numeral_eq_Suc)
  then have "collision_free ref_hashing {''coinbase:'' @ ''block'' @ '':'' @ u64_to_string 4,
      ''coinbase:'' @ ''other'' @ '':'' @ u64_to_string 4}"
    unfolding collision_free_def inj_on_def ref_hashing_def by auto
  from coinbase_bound_to_block [OF ref_hashing_ok this, of 0 "''miner''"] show ?thesis by simp
qed

section \<open>Stores\<close>

text \<open>C27. The block store: with working trees, saving a block whose hash is text and in use for no other
  height succeeds, the block is then found by its hash and by its height, every other hash keeps
  its block, and the height index stays consistent with the blocks.\<close>

theorem saved_block_is_found:
  assumes "backend_total B" "block_index_ok B db" "utf8_valid (blk_hash b)"
    and "\<And>b'. block_at B db (blk_hash b) = Some b' \<Longrightarrow> block_height b' = block_height b"
  shows "\<exists>db'. save_block B db b = (Inr (), db') \<and> block_index_ok B db'
    \<and> get_block_by_hash B db' (blk_hash b) = Inr (Some b)
    \<and> get_block_by_height B db' (block_height b) = Inr (Some b)
    \<and> (\<forall>h. h \<noteq> blk_hash b \<longrightarrow> block_at B db' h = block_at B db h)"
proof -
  note ok = backend_total_ok [OF assms(1)]
  obtain db' where s: "save_block B db b = (Inr (), db')" by (rule save_block_total [OF assms(1)])
  have views: "block_at B db' = (block_at B db)(blk_hash b \<mapsto> b)"
    "hash_at B db' = (hash_at B db)(block_height b \<mapsto> blk_hash b)"
    using save_block_outcomes [OF ok s] by auto
  have "block_index_ok B db'" using save_block_index_ok [OF ok assms(2-4)] by (simp add: s)
  moreover have "get_block_by_hash B db' (blk_hash b) = Inr (Some b)"
    by (rule get_block_found [OF assms(1)]) (simp add: views)
  moreover have "get_block_by_height B db' (block_height b) = Inr (Some b)"
    by (rule get_height_found [OF assms(1) _ assms(3)]) (simp_all add: views)
  ultimately show ?thesis using s views by simp
qed

theorem saved_block_is_found_witness:
  "\<exists>db'. save_block mem_backend two_db (demo_epoch zero_hash) = (Inr (), db')
     \<and> get_block_by_height mem_backend db' 1 = Inr (Some (demo_epoch zero_hash))"
proof -
  have empty: "block_at mem_backend two_db h = None" "hash_at mem_backend two_db n = None" for h n
    by (simp_all add: block_at_def hash_at_def two_db_def demo_db_def mem_backend_def)
  have "block_index_ok mem_backend two_db" by (simp add: block_index_ok_def empty)
  moreover have "utf8_valid (blk_hash (demo_epoch zero_hash))"
    by (simp add: demo_epoch_def sha3_256_hex_valid [OF ref_hashing_ok])
  moreover have "block_height (demo_epoch zero_hash) = 1" by (simp add: block_height_def demo_epoch_def)
  ultimately show ?thesis
    using saved_block_is_found [OF two_backend_readable(1), of two_db "demo_epoch zero_hash"] by (auto simp: empty)
qed

text \<open>C28. A sender's history: with working trees, if no stored address extends the sender's and the
  transaction's hash is text that is not empty and no key of the sender index, the history
  is the list of the hashes stored for the sender, in the order of their nonces, and saving a
  transaction puts its hash at its nonce.\<close>

theorem sender_history_in_nonce_order:
  assumes "backend_total B" "sole_prefix B db a" "\<And>n h. hash_sent B db a n = Some h \<Longrightarrow> utf8_valid h"
    and "hash_key (tx_hash tx)" "utf8_valid (tx_hash tx)" "tx_sender tx = a"
  shows "\<exists>db'. save_transaction B db tx = (Inr (), db')
    \<and> (let sent = (hash_sent B db a)(tx_nonce tx \<mapsto> tx_hash tx) in
       get_transactions_by_sender B db' a
         = Inr (map (\<lambda>n. the (sent n)) (sorted_list_of_set {n. sent n \<noteq> None})))"
proof -
  obtain db' where s: "save_transaction B db tx = (Inr (), db')"
    and t: "tree_contents B (db_transactions db') = (tree_contents B (db_transactions db))
       (tx_hash tx \<mapsto> (case to_vec (tx_json B) tx of Inr bs \<Rightarrow> bs), sender_key (tx_sender tx) (tx_nonce tx) \<mapsto> tx_hash tx)"
    by (rule save_transaction_total [OF assms(1,4)])
  have sent: "hash_sent B db' a = (hash_sent B db a)(tx_nonce tx \<mapsto> tx_hash tx)"
    using hash_key_ne [OF assms(4), THEN not_sym] assms(6) by (auto simp: hash_sent_def t fun_eq_iff)
  have "\<not> starts_with (sender_prefix @ a) (tx_hash tx)"
    using assms(4) by (auto simp: hash_key_def starts_with_iff)
  then have "sole_prefix B db' a"
    using assms(2,6) by (auto simp: sole_prefix_def t)
  moreover have "utf8_valid h" if "hash_sent B db' a n = Some h" for n h
    using that assms(3,5) by (cases "n = tx_nonce tx") (simp_all add: sent)
  ultimately have "get_transactions_by_sender B db' a = Inr (map (\<lambda>n. the (hash_sent B db' a n))
      (sorted_list_of_set {n. hash_sent B db' a n \<noteq> None}))"
    by (rule get_transactions_by_sender_total [OF assms(1)])
  with s sent show ?thesis by (simp add: Let_def)
qed

theorem sender_history_in_nonce_order_witness:
  "\<exists>db'. save_transaction mem_backend two_db alice_pays_bob = (Inr (), db')
     \<and> get_transactions_by_sender mem_backend db' ''alice'' = Inr [''h1'']"
proof -
  have empty: "tree_contents mem_backend (db_transactions two_db) = Map.empty"
    by (simp add: two_db_def demo_db_def mem_backend_def fun_eq_iff)
  have none: "hash_sent mem_backend two_db ''alice'' = Map.empty" "sole_prefix mem_backend two_db ''alice''"
    by (simp_all add: hash_sent_def sole_prefix_def empty fun_eq_iff)
  have "hash_key (tx_hash alice_pays_bob)" "utf8_valid (tx_hash alice_pays_bob)" "tx_sender alice_pays_bob = ''alice''"
    by (auto simp: hash_key_def starts_with_iff sender_prefix_def alice_pays_bob_def intro!: utf8_valid_ascii)
  from sender_history_in_nonce_order [OF two_backend_readable(1) none(2) _ this] none(1)
  show ?thesis by (auto simp: alice_pays_bob_def Let_def)
qed

end
