(* ===== verification/Float64.thy ===== *)
theory Float64
  imports Prelude "HOL-Library.Log_Nat"
begin

text \<open>
  The binary64 arithmetic of Rust's \<open>f64\<close>, as far as the program uses it. A finite value is its
  sign and its magnitude as a rational number, so that both zeros are told apart; every operation
  computes the exact result and rounds it to the nearest magnitude with 53 significant bits and a
  unit of at least 2^-1074, ties to even, and to infinity from 2^1024 on. Payloads of NaN are not
  distinguished.
\<close>

datatype f64 = F64_NaN | F64_Inf bool | F64_Fin bool rat

section \<open>Rounding\<close>

text \<open>The exponent of the leading bit of a positive number.\<close>

definition flog2 :: "rat \<Rightarrow> int" where
  "flog2 q = (case quotient_of q of (n, d) \<Rightarrow>
     let k = bitlen n - bitlen d in if 2 powi k \<le> q then k else k - 1)"

definition unit_exp :: "rat \<Rightarrow> int" where
  "unit_exp q = max (- 1074) (flog2 q - 52)"

definition round_even :: "rat \<Rightarrow> int" where
  "round_even x = (let f = \<lfloor>x\<rfloor>; r = x - of_int f in
     if r < 1 / 2 then f else if 1 / 2 < r then f + 1 else if even f then f else f + 1)"

definition round_mag :: "rat \<Rightarrow> rat" where
  "round_mag q = (if q = 0 then 0 else of_int (round_even (q / 2 powi unit_exp q)) * 2 powi unit_exp q)"

definition to_f64 :: "bool \<Rightarrow> rat \<Rightarrow> f64" where
  "to_f64 s q = (let r = round_mag q in if r < 2 ^ 1024 then F64_Fin s r else F64_Inf s)"

text \<open>A literal.\<close>

abbreviation f64_lit :: "rat \<Rightarrow> f64" where
  "f64_lit q \<equiv> to_f64 False q"

section \<open>Operations\<close>

definition signed_val :: "bool \<Rightarrow> rat \<Rightarrow> rat" where
  "signed_val s q = (if s then - q else q)"

fun f64_neg :: "f64 \<Rightarrow> f64" where
  "f64_neg F64_NaN = F64_NaN"
| "f64_neg (F64_Inf s) = F64_Inf (\<not> s)"
| "f64_neg (F64_Fin s q) = F64_Fin (\<not> s) q"

fun f64_add :: "f64 \<Rightarrow> f64 \<Rightarrow> f64" where
  "f64_add (F64_Fin s a) (F64_Fin t b) =
     (let x = signed_val s a + signed_val t b in
      if x = 0 then F64_Fin (s \<and> t) 0 else to_f64 (x < 0) \<bar>x\<bar>)"
| "f64_add (F64_Inf s) (F64_Inf t) = (if s = t then F64_Inf s else F64_NaN)"
| "f64_add (F64_Inf s) (F64_Fin _ _) = F64_Inf s"
| "f64_add (F64_Fin _ _) (F64_Inf t) = F64_Inf t"
| "f64_add _ _ = F64_NaN"

definition f64_sub :: "f64 \<Rightarrow> f64 \<Rightarrow> f64" where
  "f64_sub a b = f64_add a (f64_neg b)"

fun f64_mul :: "f64 \<Rightarrow> f64 \<Rightarrow> f64" where
  "f64_mul (F64_Fin s a) (F64_Fin t b) = to_f64 (s \<noteq> t) (a * b)"
| "f64_mul (F64_Inf s) (F64_Inf t) = F64_Inf (s \<noteq> t)"
| "f64_mul (F64_Inf s) (F64_Fin t b) = (if b = 0 then F64_NaN else F64_Inf (s \<noteq> t))"
| "f64_mul (F64_Fin s a) (F64_Inf t) = (if a = 0 then F64_NaN else F64_Inf (s \<noteq> t))"
| "f64_mul _ _ = F64_NaN"

fun f64_div :: "f64 \<Rightarrow> f64 \<Rightarrow> f64" where
  "f64_div (F64_Fin s a) (F64_Fin t b) =
     (if b = 0 then (if a = 0 then F64_NaN else F64_Inf (s \<noteq> t)) else to_f64 (s \<noteq> t) (a / b))"
| "f64_div (F64_Inf s) (F64_Inf t) = F64_NaN"
| "f64_div (F64_Inf s) (F64_Fin t b) = F64_Inf (s \<noteq> t)"
| "f64_div (F64_Fin s a) (F64_Inf t) = F64_Fin (s \<noteq> t) 0"
| "f64_div _ _ = F64_NaN"

fun f64_less :: "f64 \<Rightarrow> f64 \<Rightarrow> bool" where
  "f64_less (F64_Fin s a) (F64_Fin t b) = (signed_val s a < signed_val t b)"
| "f64_less (F64_Inf s) (F64_Inf t) = (s \<and> \<not> t)"
| "f64_less (F64_Inf s) (F64_Fin _ _) = s"
| "f64_less (F64_Fin _ _) (F64_Inf t) = (\<not> t)"
| "f64_less _ _ = False"

text \<open>\<open>clamp\<close> for bounds that are numbers in order; it keeps NaN.\<close>

definition f64_clamp :: "f64 \<Rightarrow> f64 \<Rightarrow> f64 \<Rightarrow> f64" where
  "f64_clamp x lo hi = (let y = (if f64_less x lo then lo else x) in if f64_less hi y then hi else y)"

text \<open>The conversions \<open>as f64\<close> and \<open>as u64\<close>; the second truncates and saturates.\<close>

definition u64_to_f64 :: "u64 \<Rightarrow> f64" where
  "u64_to_f64 n = to_f64 False (of_nat (unat n))"

fun f64_to_u64 :: "f64 \<Rightarrow> u64" where
  "f64_to_u64 F64_NaN = 0"
| "f64_to_u64 (F64_Inf s) = (if s then 0 else - 1)"
| "f64_to_u64 (F64_Fin s q) = (if s then 0 else if 2 ^ 64 \<le> q then - 1 else of_int \<lfloor>q\<rfloor>)"

text \<open>\<open>powi\<close> by repeated squaring, as the runtime library computes it; the exponent is an \<open>i32\<close>.\<close>

function powi_loop :: "f64 \<Rightarrow> f64 \<Rightarrow> nat \<Rightarrow> f64" where
  "powi_loop r a b =
     (let r' = (if odd b then f64_mul r a else r) in
      if b div 2 = 0 then r' else powi_loop r' (f64_mul a a) (b div 2))"
  by pat_completeness auto
termination powi_loop by (relation "measure (\<lambda>(r, a, b). b)") auto

declare powi_loop.simps [simp del]

definition f64_powi :: "f64 \<Rightarrow> int \<Rightarrow> f64" where
  "f64_powi a n = (let r = powi_loop (f64_lit 1) a (nat \<bar>n\<bar>) in if n < 0 then f64_div (f64_lit 1) r else r)"

section \<open>Facts about rounding\<close>

lemma bitlen_rat:
  assumes "0 < n"
  shows "1 \<le> bitlen n" "2 powi (bitlen n - 1) \<le> (of_int n :: rat)" "of_int n < (2 powi bitlen n :: rat)"
proof -
  show one: "1 \<le> bitlen n" using assms bitlen_nonneg [of n] bitlen_eq_zero_iff [of n] by linarith
  have "(of_int (2 ^ nat (bitlen n - 1)) :: rat) \<le> of_int n" "of_int n < (of_int (2 ^ nat (bitlen n)) :: rat)"
    using bitlen_bounds [OF assms] by (simp_all only: of_int_le_iff of_int_less_iff)
  then show "2 powi (bitlen n - 1) \<le> (of_int n :: rat)" "of_int n < (2 powi bitlen n :: rat)"
    using one by (simp_all add: power_int_def)
qed

lemma flog2_bounds:
  assumes "0 < q"
  shows "2 powi flog2 q \<le> q" "q < 2 powi (flog2 q + 1)"
proof -
  obtain n d where nd: "quotient_of q = (n, d)" by fastforce
  have d: "0 < d" by (rule quotient_of_denom_pos [OF nd])
  have q: "q = of_int n / of_int d" by (rule quotient_of_div [OF nd])
  then have n: "0 < n" using assms d by (simp add: zero_less_divide_iff)
  let ?k = "bitlen n - bitlen d"
  note bn = bitlen_rat(2,3) [OF n] and bd = bitlen_rat(2,3) [OF d]
  have up: "q < 2 powi (?k + 1)"
  proof -
    have "q < 2 powi bitlen n / of_int d" using bn(2) d by (simp add: q divide_strict_right_mono)
    also have "\<dots> \<le> 2 powi bitlen n / 2 powi (bitlen d - 1)" using bd(1) by (intro divide_left_mono) (use d in auto)
    also have "\<dots> = 2 powi (?k + 1)" by (simp add: power_int_diff power_int_add)
    finally show ?thesis .
  qed
  have low: "2 powi (?k - 1) \<le> q"
  proof -
    have "2 powi (?k - 1) = 2 powi (bitlen n - 1) / (2 powi bitlen d :: rat)" by (simp add: power_int_diff)
    also have "\<dots> \<le> 2 powi (bitlen n - 1) / of_int d" using bd(2) d by (intro divide_left_mono) auto
    also have "\<dots> \<le> q" using bn(1) d by (simp add: q divide_right_mono)
    finally show ?thesis .
  qed
  show "2 powi flog2 q \<le> q" "q < 2 powi (flog2 q + 1)"
    using up low by (auto simp: flog2_def nd Let_def)
qed

lemma round_even_bounds:
  "of_int m \<le> x \<Longrightarrow> m \<le> round_even x" "x \<le> of_int m \<Longrightarrow> round_even x \<le> m"
proof -
  have up: "round_even x \<le> \<lfloor>x\<rfloor> + 1" and low: "\<lfloor>x\<rfloor> \<le> round_even x"
    by (simp_all add: round_even_def Let_def)
  show "m \<le> round_even x" if "of_int m \<le> x" using that low le_floor_iff [of m x] by linarith
  show "round_even x \<le> m" if le: "x \<le> of_int m"
  proof (cases "x = of_int m")
    case True
    then show ?thesis by (simp add: round_even_def)
  next
    case False
    with le have "\<lfloor>x\<rfloor> < m" by (simp add: floor_less_iff)
    with up show ?thesis by simp
  qed
qed

text \<open>The magnitudes that are finite or infinite values of the format: 53 bits times a power of two.\<close>

definition f64_mag :: "rat \<Rightarrow> bool" where
  "f64_mag r \<longleftrightarrow> (\<exists>m e. r = of_int m * 2 powi e \<and> 0 \<le> m \<and> m < 2 ^ 53 \<and> - 1074 \<le> e)"

lemma f64_mag_nat: "n < 2 ^ 53 \<Longrightarrow> f64_mag (of_nat n)"
  unfolding f64_mag_def by (rule exI [of _ "int n"], rule exI [of _ 0]) simp

lemma f64_mag_grid:
  assumes "f64_mag r" "- 1074 \<le> E"
  obtains k where "r = of_int k * 2 powi E" | "r < 2 powi (52 + E)" "- 1074 < E"
proof -
  obtain m e where r: "r = of_int m * 2 powi e" "0 \<le> m" "m < 2 ^ 53" "- 1074 \<le> e"
    using assms(1) by (auto simp: f64_mag_def)
  show thesis
  proof (cases "E \<le> e")
    case True
    have "(2 :: rat) powi e = 2 ^ nat (e - E) * 2 powi E"
    proof -
      have "(2 :: rat) powi e = 2 powi ((e - E) + E)" by simp
      also have "\<dots> = 2 powi (e - E) * 2 powi E" by (rule power_int_add) simp
      also have "2 powi (e - E) = (2 :: rat) ^ nat (e - E)" using True by (simp add: power_int_def)
      finally show ?thesis .
    qed
    then have "r = of_int (m * 2 ^ nat (e - E)) * 2 powi E" by (simp add: r(1))
    then show thesis by (rule that(1))
  next
    case False
    have "(of_int m :: rat) < of_int (2 ^ 53)" using r(3) by (simp only: of_int_less_iff)
    then have "r < 2 ^ 53 * 2 powi e" by (simp add: r(1))
    also have "\<dots> = 2 powi (53 + e)" by (simp add: power_int_add)
    also have "\<dots> \<le> 2 powi (52 + E)" using False by (intro power_int_increasing) simp_all
    finally show thesis by (rule that(2)) (use False r(4) in simp)
  qed
qed

text \<open>Rounding never crosses a value of the format.\<close>

lemma round_mag_bounds:
  assumes "0 < q" "f64_mag r"
  shows "r \<le> q \<Longrightarrow> r \<le> round_mag q" "q \<le> r \<Longrightarrow> round_mag q \<le> r"
proof -
  let ?E = "unit_exp q"
  have pos: "(0 :: rat) < 2 powi ?E" by simp
  have E: "- 1074 \<le> ?E" by (simp add: unit_exp_def)
  have rq: "round_mag q = of_int (round_even (q / 2 powi ?E)) * 2 powi ?E" using assms(1) by (simp add: round_mag_def)
  have scaled: "of_int k * 2 powi ?E \<le> q \<longleftrightarrow> of_int k \<le> q / 2 powi ?E"
    "q \<le> of_int k * 2 powi ?E \<longleftrightarrow> q / 2 powi ?E \<le> of_int k" for k
    using pos by (simp_all add: pos_le_divide_eq pos_divide_le_eq)
  have low: "of_int k * 2 powi ?E \<le> round_mag q" if "of_int k * 2 powi ?E \<le> q" for k
    unfolding rq using round_even_bounds(1) [of k] that pos by (simp add: scaled(1))
  have up: "round_mag q \<le> of_int k * 2 powi ?E" if "q \<le> of_int k * 2 powi ?E" for k
    unfolding rq using round_even_bounds(2) [of _ k] that pos by (simp add: scaled(2))
  have top: "2 powi (52 + ?E) \<le> q" if "- 1074 < ?E"
    using flog2_bounds(1) [OF assms(1)] that by (simp add: unit_exp_def max_def split: if_splits)
  show "r \<le> round_mag q" if "r \<le> q"
  proof (rule f64_mag_grid [OF assms(2) E])
    assume r: "r < 2 powi (52 + ?E)" "- 1074 < ?E"
    have "2 powi (52 + ?E) = of_int (2 ^ 52) * (2 :: rat) powi ?E" by (simp add: power_int_add)
    then show ?thesis using r(1) low [of "2 ^ 52"] top [OF r(2)] by simp
  qed (use low that in auto)
  show "round_mag q \<le> r" if "q \<le> r"
  proof (rule f64_mag_grid [OF assms(2) E])
    assume "r < 2 powi (52 + ?E)" "- 1074 < ?E"
    then show ?thesis using top that by simp
  qed (use up that in auto)
qed

lemma round_mag_exact: "f64_mag q \<Longrightarrow> 0 \<le> q \<Longrightarrow> round_mag q = q"
  using round_mag_bounds [of q q] by (cases "q = 0") (auto simp: round_mag_def)

lemma round_mag_nonneg: "0 \<le> q \<Longrightarrow> 0 \<le> round_mag q"
  using round_mag_bounds(1) [of q 0] f64_mag_nat [of 0] by (cases "q = 0") (auto simp: round_mag_def)

lemma to_f64_exact:
  assumes "f64_mag q" "0 \<le> q" "q < 2 ^ 1024"
  shows "to_f64 s q = F64_Fin s q"
  using assms by (simp add: to_f64_def round_mag_exact)

lemma to_f64_nat: "n < 2 ^ 53 \<Longrightarrow> to_f64 s (of_nat n) = F64_Fin s (of_nat n)"
proof -
  assume n: "n < 2 ^ 53"
  have "(of_nat n :: rat) < of_nat (2 ^ 53)" using n by (simp only: of_nat_less_iff)
  also have "\<dots> \<le> 2 ^ 1024" by simp
  finally show ?thesis using n by (intro to_f64_exact f64_mag_nat) simp_all
qed

lemma f64_mag_frac:
  assumes "m < 2 ^ 53" "k \<le> 1074"
  shows "f64_mag (of_nat m / 2 ^ k)"
proof -
  have "(2 :: rat) powi (- int k) = 1 / 2 ^ k" by (simp add: power_int_minus inverse_eq_divide)
  then have "(of_nat m :: rat) / 2 ^ k = of_int (int m) * 2 powi (- int k)" by simp
  then show ?thesis
    unfolding f64_mag_def using assms by (intro exI [of _ "int m"] exI [of _ "- int k"]) simp
qed

lemma to_f64_between:
  assumes "f64_mag l" "f64_mag u" "0 \<le> l" "l \<le> q" "q \<le> u" "u < 2 ^ 1024"
  obtains r where "to_f64 s q = F64_Fin s r" "l \<le> r" "r \<le> u"
proof (cases "q = 0")
  case True
  then show thesis using assms by (intro that [of 0]) (simp_all add: to_f64_def round_mag_def)
next
  case False
  then have "0 < q" using assms(3,4) by linarith
  then have "l \<le> round_mag q" "round_mag q \<le> u"
    using round_mag_bounds(1) [of q l] round_mag_bounds(2) [of q u] assms(1,2,4,5) by blast+
  then show thesis using assms(6) by (intro that [of "round_mag q"]) (simp_all add: to_f64_def)
qed

lemma unat_of_int_u64: "0 \<le> x \<Longrightarrow> x < 2 ^ 64 \<Longrightarrow> unat (of_int x :: u64) = nat x"
  by (simp add: unat_eq_nat_uint uint_word_of_int_eq take_bit_int_eq_self)

section \<open>The error of a rounding\<close>

lemma round_even_error: "\<bar>of_int (round_even x) - x\<bar> \<le> 1 / 2"
proof -
  have "of_int \<lfloor>x\<rfloor> \<le> x" "x < of_int \<lfloor>x\<rfloor> + 1" by linarith+
  then show ?thesis by (simp add: round_even_def Let_def abs_le_iff)
qed

text \<open>In the normal range the error is at most half a unit in the last of the 53 bits.\<close>

lemma round_mag_error:
  assumes "2 powi (- 1022) \<le> q"
  shows "\<bar>round_mag q - q\<bar> \<le> q / 2 ^ 53"
proof -
  have "(0 :: rat) < 2 powi (- 1022)" by simp
  then have pos: "0 < q" using assms by (rule order_less_le_trans)
  note fl = flog2_bounds [OF pos]
  have "- 1022 \<le> flog2 q"
  proof (rule ccontr)
    assume "\<not> - 1022 \<le> flog2 q"
    then have "(2 :: rat) powi (flog2 q + 1) \<le> 2 powi (- 1022)" by (intro power_int_increasing) simp_all
    with fl(2) assms show False by linarith
  qed
  then have E: "unit_exp q = flog2 q - 52" by (simp add: unit_exp_def)
  let ?u = "(2 :: rat) powi unit_exp q"
  have u: "0 < ?u" by simp
  have "round_mag q - q = (of_int (round_even (q / ?u)) - q / ?u) * ?u"
    using pos u by (simp add: round_mag_def left_diff_distrib)
  then have "\<bar>round_mag q - q\<bar> = \<bar>of_int (round_even (q / ?u)) - q / ?u\<bar> * ?u" using u by (simp add: abs_mult)
  also have "\<dots> \<le> 1 / 2 * ?u" using round_even_error u by (intro mult_right_mono) auto
  also have "\<dots> = 2 powi flog2 q / 2 ^ 53" by (simp add: E power_int_diff)
  also have "\<dots> \<le> q / 2 ^ 53" using fl(1) by (simp add: divide_right_mono)
  finally show ?thesis .
qed

text \<open>Evaluation of a rounding, given the exponent.\<close>

lemma flog2_eqI:
  assumes "2 powi k \<le> q" "q < 2 powi (k + 1)"
  shows "flog2 q = k"
proof -
  have "(0 :: rat) < 2 powi k" by simp
  then have "0 < q" using assms(1) by (rule order_less_le_trans)
  note fl = flog2_bounds [OF this]
  have mono: "(2 :: rat) powi i \<le> 2 powi j" if "i \<le> j" for i j using that by (intro power_int_increasing) simp_all
  have "\<not> flog2 q + 1 \<le> k" "\<not> k + 1 \<le> flog2 q" using mono fl assms by (meson not_le order_less_le_trans order_trans)+
  then show ?thesis by simp
qed

lemma floor_rat_numeral: "\<lfloor>numeral a / numeral b :: rat\<rfloor> = numeral a div numeral b"
  using floor_divide_of_int_eq [where 'a = rat, of "numeral a" "numeral b"] by simp

lemma to_f64_eval:
  assumes "2 powi k \<le> q" "q < 2 powi (k + 1)" "- 1022 \<le> k" "round_even (q / 2 powi (k - 52)) = m"
    and "of_int m * 2 powi (k - 52) < (2 ^ 1024 :: rat)"
  shows "to_f64 s q = F64_Fin s (of_int m * 2 powi (k - 52))"
proof -
  have "(0 :: rat) < 2 powi k" by simp
  then have "0 < q" using assms(1) by (rule order_less_le_trans)
  moreover have "unit_exp q = k - 52" using flog2_eqI [OF assms(1,2)] assms(3) by (simp add: unit_exp_def)
  ultimately show ?thesis using assms(4,5) by (simp add: to_f64_def round_mag_def)
qed

text \<open>What a rounding returns is a value of the format again.\<close>

lemma f64_mag_round:
  assumes "0 \<le> q"
  shows "f64_mag (round_mag q)"
proof (cases "q = 0")
  case True
  then show ?thesis using f64_mag_nat [of 0] by (simp add: round_mag_def)
next
  case False
  let ?E = "unit_exp q"
  let ?k = "round_even (q / 2 powi ?E)"
  have E: "- 1074 \<le> ?E" by (simp add: unit_exp_def)
  have rq: "round_mag q = of_int ?k * 2 powi ?E" using False by (simp add: round_mag_def)
  have k: "0 \<le> ?k" by (rule round_even_bounds(1)) (use assms in simp)
  have "q < 2 powi (flog2 q + 1)" using flog2_bounds(2) [of q] assms False by simp
  also have "\<dots> \<le> 2 powi (53 + ?E)" by (intro power_int_increasing) (simp_all add: unit_exp_def)
  also have "\<dots> = of_int (2 ^ 53) * (2 :: rat) powi ?E" by (simp add: power_int_add)
  finally have "q / 2 powi ?E \<le> of_int (2 ^ 53)" by (simp add: pos_divide_le_eq)
  then have top: "?k \<le> 2 ^ 53" by (rule round_even_bounds(2))
  show ?thesis
  proof (cases "?k = 2 ^ 53")
    case True
    then have "round_mag q = of_int (2 ^ 53) * 2 powi ?E" by (simp only: rq)
    also have "\<dots> = of_int (2 ^ 52) * 2 powi (?E + 1)" by (simp add: power_int_add)
    finally have eq: "round_mag q = of_int (2 ^ 52) * 2 powi (?E + 1)" .
    show ?thesis
      unfolding f64_mag_def
      by (rule exI [of _ "2 ^ 52"], rule exI [of _ "?E + 1"], intro conjI eq) (use E in simp_all)
  next
    case False
    then have "?k < 2 ^ 53" using top by linarith
    then show ?thesis unfolding f64_mag_def using E k rq by blast
  qed
qed

lemma to_f64_mag: "0 \<le> q \<Longrightarrow> to_f64 s q = F64_Fin t r \<Longrightarrow> f64_mag r"
  using f64_mag_round [of q] by (auto simp: to_f64_def Let_def split: if_splits)

end
