(* ===== verification/Dynamic_Fees.thy ===== *)
theory Dynamic_Fees
  imports Fees Float64
begin

text \<open>
  The fee multiplier of \<open>src/src/mempool/fees.rs\<close>, in the floating point of \<open>Float64\<close>. The lemmas
  show that it moves with the utilization and stays between 1 and 100 over any number of epochs,
  rounding included, and that the effective fee stays between the minimum and 100 times that.
\<close>

text \<open>The constants of \<open>adjust_base_fee_multiplier\<close> are 0.5, 0.125, 1 and 100, all exact.\<close>

definition adjust_base_fee_multiplier :: "f64 \<Rightarrow> f64 \<Rightarrow> f64" where
  "adjust_base_fee_multiplier avg_utilization current_multiplier =
     (let delta = f64_mul (f64_mul (f64_sub avg_utilization (f64_lit (1 / 2))) (f64_lit 2)) (f64_lit (1 / 8));
          new_multiplier = f64_mul current_multiplier (f64_add (f64_lit 1) delta)
      in f64_clamp new_multiplier (f64_lit 1) (f64_lit 100))"

definition effective_minimum_fee :: "transaction_type \<Rightarrow> f64 \<Rightarrow> u64" where
  "effective_minimum_fee ty multiplier =
     (let base = minimum_fee ty in f64_to_u64 (f64_mul (u64_to_f64 base) multiplier))"

section \<open>The dynamic multiplier\<close>

lemma fee_literals:
  "f64_lit 1 = F64_Fin False 1" "f64_lit 2 = F64_Fin False 2" "f64_lit 100 = F64_Fin False 100"
  "f64_lit (1 / 2) = F64_Fin False (1 / 2)" "f64_lit (1 / 8) = F64_Fin False (1 / 8)"
proof -
  show "f64_lit 1 = F64_Fin False 1" "f64_lit 2 = F64_Fin False 2" "f64_lit 100 = F64_Fin False 100"
    using to_f64_nat [of 1 False] to_f64_nat [of 2 False] to_f64_nat [of 100 False] by simp_all
  show "f64_lit (1 / 2) = F64_Fin False (1 / 2)" "f64_lit (1 / 8) = F64_Fin False (1 / 8)"
    using f64_mag_frac [of 1 1] f64_mag_frac [of 1 3] by (simp_all add: to_f64_exact)
qed

text \<open>The step of an epoch: between 7/8 and 9/8, at least 1 above the target, at most 1 below.\<close>

lemma adjustment_step:
  assumes "0 \<le> a" "a \<le> 1"
  obtains y where "f64_add (f64_lit 1) (f64_mul (f64_mul (f64_sub (F64_Fin False a) (f64_lit (1 / 2))) (f64_lit 2))
      (f64_lit (1 / 8))) = F64_Fin False y"
    "7 / 8 \<le> y" "y \<le> 9 / 8" "1 / 2 \<le> a \<longrightarrow> 1 \<le> y" "a \<le> 1 / 2 \<longrightarrow> y \<le> 1"
proof -
  note mags = f64_mag_nat [of 0] f64_mag_nat [of 1] f64_mag_frac [of 1 1] f64_mag_frac [of 1 3]
    f64_mag_frac [of 7 3] f64_mag_frac [of 9 3]
  obtain s r where r: "f64_sub (F64_Fin False a) (f64_lit (1 / 2)) = F64_Fin s r" "0 \<le> r" "r \<le> 1 / 2"
    "1 / 2 \<le> a \<Longrightarrow> s \<Longrightarrow> r = 0" "a \<le> 1 / 2 \<Longrightarrow> \<not> s \<Longrightarrow> r = 0"
  proof (cases "a = 1 / 2")
    case True
    then show thesis by (intro that [of False 0]) (simp_all add: f64_sub_def fee_literals signed_val_def)
  next
    case False
    have near: "\<bar>a - 1 / 2\<bar> \<le> 1 / 2" by (rule abs_leI) (use assms in linarith)+
    obtain r where "to_f64 (a < 1 / 2) \<bar>a - 1 / 2\<bar> = F64_Fin (a < 1 / 2) r" "0 \<le> r" "r \<le> 1 / 2"
      by (rule to_f64_between [of 0 "1 / 2" "\<bar>a - 1 / 2\<bar>"]) (use near mags in simp_all)
    with False show thesis
      by (intro that [of "a < 1 / 2" r]) (auto simp: f64_sub_def fee_literals signed_val_def Let_def)
  qed
  obtain r2 where r2: "to_f64 s (r * 2) = F64_Fin s r2" "0 \<le> r2" "r2 \<le> 1"
    by (rule to_f64_between [of 0 1 "r * 2"]) (use r mags in auto)
  obtain r8 where r8: "to_f64 s (r2 * (1 / 8)) = F64_Fin s r8" "0 \<le> r8" "r8 \<le> 1 / 8"
    by (rule to_f64_between [of 0 "1 / 8" "r2 * (1 / 8)"]) (use r2 mags in auto)
  have zero: "r = 0 \<Longrightarrow> r2 = 0" "r2 = 0 \<Longrightarrow> r8 = 0"
    using r2(1) r8(1) by (auto simp: to_f64_def round_mag_def)
  let ?x = "1 + signed_val s r8"
  have x: "7 / 8 \<le> ?x" "?x \<le> 9 / 8" using r8 by (auto simp: signed_val_def)
  have "\<exists>y. to_f64 False ?x = F64_Fin False y \<and> 7 / 8 \<le> y \<and> y \<le> 9 / 8 \<and> (1 \<le> ?x \<longrightarrow> 1 \<le> y) \<and> (?x \<le> 1 \<longrightarrow> y \<le> 1)"
  proof (cases "1 \<le> ?x")
    case True
    obtain y where "to_f64 False ?x = F64_Fin False y" "1 \<le> y" "y \<le> 9 / 8"
      by (rule to_f64_between [of 1 "9 / 8" ?x]) (use True x mags in auto)
    moreover have "?x \<le> 1 \<Longrightarrow> to_f64 False ?x = F64_Fin False 1" using True fee_literals(1) by simp
    ultimately show ?thesis by auto
  next
    case False
    obtain y where "to_f64 False ?x = F64_Fin False y" "7 / 8 \<le> y" "y \<le> 1"
      by (rule to_f64_between [of "7 / 8" 1 ?x]) (use False x mags in auto)
    with False show ?thesis by auto
  qed
  then obtain y where y: "to_f64 False ?x = F64_Fin False y" "7 / 8 \<le> y" "y \<le> 9 / 8" "1 \<le> ?x \<Longrightarrow> 1 \<le> y" "?x \<le> 1 \<Longrightarrow> y \<le> 1"
    by blast
  have "1 / 2 \<le> a \<Longrightarrow> 1 \<le> ?x" "a \<le> 1 / 2 \<Longrightarrow> ?x \<le> 1"
    using r(4,5) r8(2) zero by (auto simp: signed_val_def)
  moreover have "f64_add (f64_lit 1) (f64_mul (f64_mul (f64_sub (F64_Fin False a) (f64_lit (1 / 2))) (f64_lit 2))
      (f64_lit (1 / 8))) = F64_Fin False y"
    using x r(1) r2(1) r8(1) y(1) by (simp add: fee_literals signed_val_def [of False] Let_def)
  ultimately show thesis using y by (intro that [of y]) auto
qed

lemma adjust_base_fee_multiplier_bounds:
  assumes "0 \<le> a" "a \<le> 1" "f64_mag c" "1 \<le> c" "c \<le> 100"
  obtains m where "adjust_base_fee_multiplier (F64_Fin False a) (F64_Fin False c) = F64_Fin False m"
    "f64_mag m" "1 \<le> m" "m \<le> 100" "1 / 2 \<le> a \<longrightarrow> c \<le> m" "a \<le> 1 / 2 \<longrightarrow> m \<le> c"
proof -
  obtain y where y: "f64_add (f64_lit 1) (f64_mul (f64_mul (f64_sub (F64_Fin False a) (f64_lit (1 / 2))) (f64_lit 2))
      (f64_lit (1 / 8))) = F64_Fin False y"
    "7 / 8 \<le> y" "y \<le> 9 / 8" "1 / 2 \<le> a \<longrightarrow> 1 \<le> y" "a \<le> 1 / 2 \<longrightarrow> y \<le> 1"
    by (rule adjustment_step [OF assms(1,2)])
  note mags = f64_mag_nat [of 0] f64_mag_nat [of 128]
  have cy: "0 \<le> c * y" "c * y \<le> 128"
    using assms(4,5) y(2,3) mult_mono [of c 100 y "9 / 8"] by auto
  obtain n where n: "to_f64 False (c * y) = F64_Fin False n" "0 \<le> n" "n \<le> 128"
    by (rule to_f64_between [of 0 128 "c * y"]) (use cy mags in auto)
  have up: "c \<le> n" if "1 / 2 \<le> a"
  proof -
    have le: "c \<le> c * y" using assms(4) that y(4) by simp
    obtain r where "to_f64 False (c * y) = F64_Fin False r" "c \<le> r"
      by (rule to_f64_between [of c 128 "c * y" False, OF assms(3)]) (use le cy assms(4) mags in auto)
    with n(1) show ?thesis by simp
  qed
  have down: "n \<le> c" if "a \<le> 1 / 2"
  proof -
    have le: "c * y \<le> c" using assms(4) that y(5) by simp
    obtain r where "to_f64 False (c * y) = F64_Fin False r" "r \<le> c"
      by (rule to_f64_between [of 0 c "c * y" False, OF _ assms(3)]) (use le cy assms(5) mags in auto)
    with n(1) show ?thesis by simp
  qed
  let ?m = "if n < 1 then 1 else if 100 < n then 100 else n"
  have "adjust_base_fee_multiplier (F64_Fin False a) (F64_Fin False c) = F64_Fin False ?m"
    using y(1) n(1) by (simp add: adjust_base_fee_multiplier_def Let_def f64_clamp_def fee_literals signed_val_def)
  moreover have "f64_mag ?m" using f64_mag_nat [of 1] f64_mag_nat [of 100] to_f64_mag [OF cy(1) n(1)] by simp
  ultimately show thesis using up down assms(4,5) by (intro that [of ?m]) auto
qed

lemma effective_minimum_fee_bounds:
  assumes "1 \<le> m" "m \<le> 100"
  shows "minimum_fee ty \<le> effective_minimum_fee ty (F64_Fin False m)"
    "unat (effective_minimum_fee ty (F64_Fin False m)) \<le> 100 * unat (minimum_fee ty)"
proof -
  let ?b = "unat (minimum_fee ty)"
  have b: "?b \<le> 100000000"
    by (cases ty) (simp_all add: fee_transfer_def fee_contract_call_def fee_contract_deploy_def fee_stake_lock_def fee_stake_unlock_def)
  have base: "u64_to_f64 (minimum_fee ty) = F64_Fin False (of_nat ?b)"
    unfolding u64_to_f64_def by (rule to_f64_nat) (use b in simp)
  have mags: "f64_mag (of_nat ?b)" "f64_mag (of_nat (100 * ?b))" by (rule f64_mag_nat, use b in simp)+
  have "100 * ?b \<le> 2 ^ 63" using b by simp
  then have top: "(of_nat (100 * ?b) :: rat) \<le> of_nat (2 ^ 63)" by (simp only: of_nat_le_iff)
  have le: "(of_nat ?b :: rat) \<le> of_nat ?b * m" "of_nat ?b * m \<le> (of_nat (100 * ?b) :: rat)"
    using mult_left_mono [OF assms(1) of_nat_0_le_iff [of ?b]] mult_left_mono [OF assms(2) of_nat_0_le_iff [of ?b]]
    by (simp_all add: mult.commute)
  have big: "(of_nat (100 * ?b) :: rat) < 2 ^ 1024" using top by (rule order_le_less_trans) simp
  obtain r where r: "to_f64 False (of_nat ?b * m) = F64_Fin False r" "of_nat ?b \<le> r" "r \<le> of_nat (100 * ?b)"
    by (rule to_f64_between [OF mags of_nat_0_le_iff le big])
  have "r < 2 ^ 64" using r(3) top by simp
  then have eff: "effective_minimum_fee ty (F64_Fin False m) = of_int \<lfloor>r\<rfloor>"
    using r(1) by (simp add: effective_minimum_fee_def base)
  have fl: "int ?b \<le> \<lfloor>r\<rfloor>" "\<lfloor>r\<rfloor> \<le> int (100 * ?b)"
    using r(2,3) by (simp_all add: le_floor_iff floor_le_iff)
  then have "\<lfloor>r\<rfloor> \<le> 10000000000" using b by linarith
  then have "\<lfloor>r\<rfloor> < 2 ^ 64" by (rule order_le_less_trans) simp
  moreover have "0 \<le> \<lfloor>r\<rfloor>" using fl(1) by linarith
  ultimately have "unat (effective_minimum_fee ty (F64_Fin False m)) = nat \<lfloor>r\<rfloor>"
    unfolding eff by (intro unat_of_int_u64)
  with fl show "minimum_fee ty \<le> effective_minimum_fee ty (F64_Fin False m)"
    "unat (effective_minimum_fee ty (F64_Fin False m)) \<le> 100 * unat (minimum_fee ty)"
    by (simp_all only: word_le_nat_alt nat_le_iff le_nat_iff)
qed

text \<open>The multiplier over the epochs, from 1.\<close>

lemma fee_epochs_bounds:
  assumes "\<forall>u \<in> set us. 0 \<le> u \<and> u \<le> 1"
  obtains m where "foldl (\<lambda>x u. adjust_base_fee_multiplier (F64_Fin False u) x) (f64_lit 1) us = F64_Fin False m"
    "f64_mag m" "1 \<le> m" "m \<le> 100"
  using assms
proof (induction us arbitrary: thesis rule: rev_induct)
  case Nil
  show ?case by (rule Nil.prems(1) [of 1]) (use f64_mag_nat [of 1] in \<open>simp_all add: fee_literals\<close>)
next
  case (snoc u us)
  obtain m where m: "foldl (\<lambda>x u. adjust_base_fee_multiplier (F64_Fin False u) x) (f64_lit 1) us = F64_Fin False m"
    "f64_mag m" "1 \<le> m" "m \<le> 100"
    by (rule snoc.IH) (use snoc.prems(2) in auto)
  have "0 \<le> u" "u \<le> 1" using snoc.prems(2) by auto
  then obtain n where "adjust_base_fee_multiplier (F64_Fin False u) (F64_Fin False m) = F64_Fin False n"
    "f64_mag n" "1 \<le> n" "n \<le> 100"
    by (rule adjust_base_fee_multiplier_bounds [OF _ _ m(2-4)])
  with m(1) show ?case by (intro snoc.prems(1) [of n]) simp_all
qed

end
