(* ===== verification/Crypto.thy ===== *)
theory Crypto
  imports Crates
begin

text \<open>
  The crypto layer: \<open>src/src/crypto/dilithium.rs\<close>, \<open>sphincs.rs\<close>, \<open>kyber.rs\<close> and \<open>mod.rs\<close>.

  The primitives are the pqcrypto crates, so they are parameters: a record holds the calls of a
  signature scheme (used twice, for Dilithium3 and SPHINCS+) and of the key encapsulation
  (Kyber768), and \<open>sig_ok\<close>, \<open>kem_ok\<close> state their documented behaviour. A call that draws
  randomness takes it as an argument \<open>rnd\<close>; the pair a \<open>generate\<close> function stores is the
  one \<open>keypair()\<close> returned, again an argument. \<open>sig_matching\<close> and \<open>kem_matching\<close> are not
  operations: they name the pairs \<open>keypair()\<close> may return, for the laws to speak about.

  The modelled part is the code around the primitives: byte and hex encodings, error texts,
  the address, the nonce a signature is bound to, the session handshake.
\<close>

section \<open>The primitives\<close>

record ('pk, 'sk, 'sg) sig_scheme =
  sig_pk_as_bytes :: "'pk \<Rightarrow> bytes"
  sig_pk_from_bytes :: "bytes \<Rightarrow> string + 'pk"
  sig_sk_as_bytes :: "'sk \<Rightarrow> bytes"
  sig_sk_from_bytes :: "bytes \<Rightarrow> string + 'sk"
  sig_as_bytes :: "'sg \<Rightarrow> bytes"
  sig_from_bytes :: "bytes \<Rightarrow> string + 'sg"
  sig_detached_sign :: "bytes \<Rightarrow> bytes \<Rightarrow> 'sk \<Rightarrow> 'sg"
  sig_verify_detached :: "'sg \<Rightarrow> bytes \<Rightarrow> 'pk \<Rightarrow> bool"
  sig_matching :: "'pk \<Rightarrow> 'sk \<Rightarrow> bool"

definition sig_ok :: "('pk, 'sk, 'sg) sig_scheme \<Rightarrow> bool" where
  "sig_ok S \<longleftrightarrow>
     (\<forall>pk. sig_pk_from_bytes S (sig_pk_as_bytes S pk) = Inr pk)
     \<and> (\<forall>sk. sig_sk_from_bytes S (sig_sk_as_bytes S sk) = Inr sk)
     \<and> (\<forall>sg. sig_from_bytes S (sig_as_bytes S sg) = Inr sg)
     \<and> (\<forall>rnd msg pk sk. sig_matching S pk sk \<longrightarrow>
          sig_verify_detached S (sig_detached_sign S rnd msg sk) msg pk)"

record ('pk, 'sk, 'ct, 'ss) kem_scheme =
  kem_pk_as_bytes :: "'pk \<Rightarrow> bytes"
  kem_pk_from_bytes :: "bytes \<Rightarrow> string + 'pk"
  kem_sk_as_bytes :: "'sk \<Rightarrow> bytes"
  kem_sk_from_bytes :: "bytes \<Rightarrow> string + 'sk"
  kem_ct_as_bytes :: "'ct \<Rightarrow> bytes"
  kem_ct_from_bytes :: "bytes \<Rightarrow> string + 'ct"
  kem_ss_as_bytes :: "'ss \<Rightarrow> bytes"
  kem_encapsulate :: "bytes \<Rightarrow> 'pk \<Rightarrow> 'ss \<times> 'ct"
  kem_decapsulate :: "'ct \<Rightarrow> 'sk \<Rightarrow> 'ss"
  kem_matching :: "'pk \<Rightarrow> 'sk \<Rightarrow> bool"

definition kem_ok :: "('pk, 'sk, 'ct, 'ss) kem_scheme \<Rightarrow> bool" where
  "kem_ok K \<longleftrightarrow>
     (\<forall>pk. kem_pk_from_bytes K (kem_pk_as_bytes K pk) = Inr pk)
     \<and> (\<forall>sk. kem_sk_from_bytes K (kem_sk_as_bytes K sk) = Inr sk)
     \<and> (\<forall>ct. kem_ct_from_bytes K (kem_ct_as_bytes K ct) = Inr ct)
     \<and> (\<forall>rnd pk sk ss ct. kem_matching K pk sk \<and> kem_encapsulate K rnd pk = (ss, ct) \<longrightarrow>
          kem_decapsulate K ct sk = ss)"

section \<open>Dilithium3: signing keys and signatures\<close>

record kyvera_key_pair =
  kp_public_key :: bytes
  kp_secret_key :: bytes

record kyvera_signature =
  ks_signature_bytes :: bytes

definition kp_generate :: "('pk, 'sk, 'sg) sig_scheme \<Rightarrow> 'pk \<times> 'sk \<Rightarrow> kyvera_key_pair" where
  "kp_generate S pair =
     (let (pk, sk) = pair
      in \<lparr>kp_public_key = sig_pk_as_bytes S pk, kp_secret_key = sig_sk_as_bytes S sk\<rparr>)"

definition kp_address :: "hashing \<Rightarrow> kyvera_key_pair \<Rightarrow> string" where
  "kp_address H kp = ''kyv1'' @ hex_encode H (sha3_256_digest H (kp_public_key kp))"

definition kp_sign ::
  "('pk, 'sk, 'sg) sig_scheme \<Rightarrow> bytes \<Rightarrow> kyvera_key_pair \<Rightarrow> bytes \<Rightarrow> string + kyvera_signature" where
  "kp_sign S rnd kp message =
     res_bind (map_err (\<lambda>e. ''Failed to load secret key: '' @ e)
                 (sig_sk_from_bytes S (kp_secret_key kp))) (\<lambda>sk.
     let sg = sig_detached_sign S rnd message sk
     in Inr \<lparr>ks_signature_bytes = sig_as_bytes S sg\<rparr>)"

definition kp_public_key_hex :: "hashing \<Rightarrow> kyvera_key_pair \<Rightarrow> string" where
  "kp_public_key_hex H kp = hex_encode H (kp_public_key kp)"

definition ks_verify ::
  "hashing \<Rightarrow> ('pk, 'sk, 'sg) sig_scheme \<Rightarrow> kyvera_signature \<Rightarrow> bytes \<Rightarrow> string \<Rightarrow> bool" where
  "ks_verify H S sg message public_key_hex =
     (case hex_decode H public_key_hex of
        Inl _ \<Rightarrow> False
      | Inr pk_bytes \<Rightarrow>
          (case sig_pk_from_bytes S pk_bytes of
             Inl _ \<Rightarrow> False
           | Inr pk \<Rightarrow>
               (case sig_from_bytes S (ks_signature_bytes sg) of
                  Inl _ \<Rightarrow> False
                | Inr s \<Rightarrow> sig_verify_detached S s message pk)))"

definition ks_to_hex :: "hashing \<Rightarrow> kyvera_signature \<Rightarrow> string" where
  "ks_to_hex H sg = hex_encode H (ks_signature_bytes sg)"

definition ks_from_hex :: "hashing \<Rightarrow> string \<Rightarrow> string + kyvera_signature" where
  "ks_from_hex H hex_str =
     res_bind (map_err (\<lambda>e. ''Failed to decode signature hex: '' @ e) (hex_decode H hex_str))
       (\<lambda>bs. Inr \<lparr>ks_signature_bytes = bs\<rparr>)"

section \<open>SPHINCS+: epoch keys and signatures\<close>

record sphincs_key_pair =
  sp_public_key :: bytes
  sp_secret_key :: bytes

record sphincs_signature =
  ss_signature_bytes :: bytes

definition sp_generate :: "('pk, 'sk, 'sg) sig_scheme \<Rightarrow> 'pk \<times> 'sk \<Rightarrow> sphincs_key_pair" where
  "sp_generate S pair =
     (let (pk, sk) = pair
      in \<lparr>sp_public_key = sig_pk_as_bytes S pk, sp_secret_key = sig_sk_as_bytes S sk\<rparr>)"

definition sp_sign ::
  "('pk, 'sk, 'sg) sig_scheme \<Rightarrow> bytes \<Rightarrow> sphincs_key_pair \<Rightarrow> bytes \<Rightarrow> string + sphincs_signature" where
  "sp_sign S rnd kp message =
     res_bind (map_err (\<lambda>e. ''Failed to load SPHINCS+ secret key: '' @ e)
                 (sig_sk_from_bytes S (sp_secret_key kp))) (\<lambda>sk.
     let sg = sig_detached_sign S rnd message sk
     in Inr \<lparr>ss_signature_bytes = sig_as_bytes S sg\<rparr>)"

definition sp_public_key_hex :: "hashing \<Rightarrow> sphincs_key_pair \<Rightarrow> string" where
  "sp_public_key_hex H kp = hex_encode H (sp_public_key kp)"

definition ss_verify ::
  "hashing \<Rightarrow> ('pk, 'sk, 'sg) sig_scheme \<Rightarrow> sphincs_signature \<Rightarrow> bytes \<Rightarrow> string \<Rightarrow> bool" where
  "ss_verify H S sg message public_key_hex =
     (case hex_decode H public_key_hex of
        Inl _ \<Rightarrow> False
      | Inr pk_bytes \<Rightarrow>
          (case sig_pk_from_bytes S pk_bytes of
             Inl _ \<Rightarrow> False
           | Inr pk \<Rightarrow>
               (case sig_from_bytes S (ss_signature_bytes sg) of
                  Inl _ \<Rightarrow> False
                | Inr s \<Rightarrow> sig_verify_detached S s message pk)))"

definition ss_to_hex :: "hashing \<Rightarrow> sphincs_signature \<Rightarrow> string" where
  "ss_to_hex H sg = hex_encode H (ss_signature_bytes sg)"

definition ss_from_hex :: "hashing \<Rightarrow> string \<Rightarrow> string + sphincs_signature" where
  "ss_from_hex H hex_str =
     res_bind (map_err (\<lambda>e. ''Failed to decode SPHINCS+ signature hex: '' @ e) (hex_decode H hex_str))
       (\<lambda>bs. Inr \<lparr>ss_signature_bytes = bs\<rparr>)"

section \<open>Kyber768: session keys\<close>

record kyber_key_pair =
  kb_public_key :: bytes
  kb_secret_key :: bytes

record kyber_encapsulation =
  ke_ciphertext :: bytes
  ke_shared_secret :: bytes

definition kb_generate :: "('pk, 'sk, 'ct, 'ss) kem_scheme \<Rightarrow> 'pk \<times> 'sk \<Rightarrow> kyber_key_pair" where
  "kb_generate K pair =
     (let (pk, sk) = pair
      in \<lparr>kb_public_key = kem_pk_as_bytes K pk, kb_secret_key = kem_sk_as_bytes K sk\<rparr>)"

definition kb_encapsulate ::
  "hashing \<Rightarrow> ('pk, 'sk, 'ct, 'ss) kem_scheme \<Rightarrow> bytes \<Rightarrow> string \<Rightarrow> string + kyber_encapsulation" where
  "kb_encapsulate H K rnd public_key_hex =
     res_bind (map_err (\<lambda>e. ''Failed to decode public key: '' @ e) (hex_decode H public_key_hex)) (\<lambda>pk_bytes.
     res_bind (map_err (\<lambda>e. ''Invalid Kyber public key: '' @ e) (kem_pk_from_bytes K pk_bytes)) (\<lambda>pk.
     let (ss, ct) = kem_encapsulate K rnd pk
     in Inr \<lparr>ke_ciphertext = kem_ct_as_bytes K ct, ke_shared_secret = kem_ss_as_bytes K ss\<rparr>))"

definition kb_decapsulate ::
  "hashing \<Rightarrow> ('pk, 'sk, 'ct, 'ss) kem_scheme \<Rightarrow> kyber_key_pair \<Rightarrow> string \<Rightarrow> string + bytes" where
  "kb_decapsulate H K kp ciphertext_hex =
     res_bind (map_err (\<lambda>e. ''Failed to load secret key: '' @ e)
                 (kem_sk_from_bytes K (kb_secret_key kp))) (\<lambda>sk.
     res_bind (map_err (\<lambda>e. ''Failed to decode ciphertext: '' @ e) (hex_decode H ciphertext_hex)) (\<lambda>ct_bytes.
     res_bind (map_err (\<lambda>e. ''Invalid ciphertext: '' @ e) (kem_ct_from_bytes K ct_bytes)) (\<lambda>ct.
     Inr (kem_ss_as_bytes K (kem_decapsulate K ct sk)))))"

definition kb_public_key_hex :: "hashing \<Rightarrow> kyber_key_pair \<Rightarrow> string" where
  "kb_public_key_hex H kp = hex_encode H (kb_public_key kp)"

definition ke_ciphertext_hex :: "hashing \<Rightarrow> kyber_encapsulation \<Rightarrow> string" where
  "ke_ciphertext_hex H e = hex_encode H (ke_ciphertext e)"

definition ke_shared_secret_hex :: "hashing \<Rightarrow> kyber_encapsulation \<Rightarrow> string" where
  "ke_shared_secret_hex H e = hex_encode H (ke_shared_secret e)"

section \<open>Identities and nonces\<close>

record kyvera_identity =
  id_signing_keypair :: kyvera_key_pair
  id_network_keypair :: kyber_key_pair
  id_epoch_keypair :: sphincs_key_pair
  id_address :: string

record transaction_nonce =
  tn_account_nonce :: u64
  tn_timestamp_ms :: i64
  tn_chain_state_hash :: string

definition identity_generate ::
  "hashing \<Rightarrow> ('pk, 'sk, 'sg) sig_scheme \<Rightarrow> ('kpk, 'ksk, 'ct, 'ss) kem_scheme
     \<Rightarrow> ('spk, 'ssk, 'ssg) sig_scheme \<Rightarrow> 'pk \<times> 'sk \<Rightarrow> 'kpk \<times> 'ksk \<Rightarrow> 'spk \<times> 'ssk \<Rightarrow> kyvera_identity" where
  "identity_generate H D K S dpair kpair spair =
     (let signing = kp_generate D dpair;
          addr = kp_address H signing
      in \<lparr>id_signing_keypair = signing, id_network_keypair = kb_generate K kpair,
          id_epoch_keypair = sp_generate S spair, id_address = addr\<rparr>)"

definition nonce_new :: "i64 \<Rightarrow> u64 \<Rightarrow> string \<Rightarrow> transaction_nonce" where
  "nonce_new now account_nonce state_hash =
     \<lparr>tn_account_nonce = account_nonce, tn_timestamp_ms = now, tn_chain_state_hash = state_hash\<rparr>"

definition bind_message_to_nonce :: "hashing \<Rightarrow> bytes \<Rightarrow> transaction_nonce \<Rightarrow> bytes" where
  "bind_message_to_nonce H message nonce =
     sha3_256_digest H
       (message @ to_le_bytes (tn_account_nonce nonce) @ i64_to_le_bytes (tn_timestamp_ms nonce)
        @ tn_chain_state_hash nonce)"

definition sign_transaction ::
  "hashing \<Rightarrow> ('pk, 'sk, 'sg) sig_scheme \<Rightarrow> bytes \<Rightarrow> kyvera_identity \<Rightarrow> bytes \<Rightarrow> transaction_nonce
     \<Rightarrow> string + kyvera_signature" where
  "sign_transaction H D rnd ident transaction_bytes nonce =
     (let bound_message = bind_message_to_nonce H transaction_bytes nonce
      in kp_sign D rnd (id_signing_keypair ident) bound_message)"

definition sign_epoch_block ::
  "('pk, 'sk, 'sg) sig_scheme \<Rightarrow> bytes \<Rightarrow> kyvera_identity \<Rightarrow> bytes \<Rightarrow> string + sphincs_signature" where
  "sign_epoch_block S rnd ident header_bytes = sp_sign S rnd (id_epoch_keypair ident) header_bytes"

definition initiate_session ::
  "hashing \<Rightarrow> ('pk, 'sk, 'ct, 'ss) kem_scheme \<Rightarrow> bytes \<Rightarrow> string \<Rightarrow> string + kyber_encapsulation" where
  "initiate_session H K rnd peer_public_key_hex = kb_encapsulate H K rnd peer_public_key_hex"

definition accept_session ::
  "hashing \<Rightarrow> ('pk, 'sk, 'ct, 'ss) kem_scheme \<Rightarrow> kyvera_identity \<Rightarrow> string \<Rightarrow> string + bytes" where
  "accept_session H K ident ciphertext_hex = kb_decapsulate H K (id_network_keypair ident) ciphertext_hex"

definition verify_transaction_signature ::
  "hashing \<Rightarrow> ('pk, 'sk, 'sg) sig_scheme \<Rightarrow> bytes \<Rightarrow> transaction_nonce \<Rightarrow> string \<Rightarrow> string \<Rightarrow> bool" where
  "verify_transaction_signature H D transaction_bytes nonce signature_hex public_key_hex =
     (let bound_message = bind_message_to_nonce H transaction_bytes nonce in
      case ks_from_hex H signature_hex of
        Inl _ \<Rightarrow> False
      | Inr sg \<Rightarrow> ks_verify H D sg bound_message public_key_hex)"

definition verify_epoch_block_signature ::
  "hashing \<Rightarrow> ('pk, 'sk, 'sg) sig_scheme \<Rightarrow> bytes \<Rightarrow> string \<Rightarrow> string \<Rightarrow> bool" where
  "verify_epoch_block_signature H S header_bytes signature_hex public_key_hex =
     (case ss_from_hex H signature_hex of
        Inl _ \<Rightarrow> False
      | Inr sg \<Rightarrow> ss_verify H S sg header_bytes public_key_hex)"

definition sha3_256 :: "hashing \<Rightarrow> bytes \<Rightarrow> string" where
  "sha3_256 H input = hex_encode H (sha3_256_digest H input)"

section \<open>What a signature does\<close>

lemma sig_okD:
  assumes "sig_ok S"
  shows "sig_pk_from_bytes S (sig_pk_as_bytes S pk) = Inr pk"
    "sig_sk_from_bytes S (sig_sk_as_bytes S sk) = Inr sk"
    "sig_from_bytes S (sig_as_bytes S sg) = Inr sg"
    "sig_matching S pk sk \<Longrightarrow> sig_verify_detached S (sig_detached_sign S rnd msg sk) msg pk"
  using assms by (simp_all add: sig_ok_def)

text \<open>What the layers above ask of a signing key: signing succeeds, the signature survives its
  hexadecimal text, and verifies against the published key. Both schemes provide it, for the
  keys \<open>generate\<close> makes.\<close>

locale signing =
  fixes sign :: "bytes \<Rightarrow> 'k \<Rightarrow> bytes \<Rightarrow> string + 'g"
    and verify :: "'g \<Rightarrow> bytes \<Rightarrow> string \<Rightarrow> bool"
    and to_hex :: "'g \<Rightarrow> string"
    and from_hex :: "string \<Rightarrow> string + 'g"
    and public_hex :: "'k \<Rightarrow> string"
    and good :: "'k \<Rightarrow> bool"
  assumes sign_total: "good kp \<Longrightarrow> \<exists>g. sign rnd kp m = Inr g"
    and sign_verifies: "good kp \<Longrightarrow> sign rnd kp m = Inr g \<Longrightarrow> verify g m (public_hex kp)"
    and hex_roundtrip: "good kp \<Longrightarrow> from_hex (to_hex g) = Inr g"
begin

lemma signed_text_accepted:
  assumes "good kp"
  obtains g where "sign rnd kp m = Inr g" "from_hex (to_hex g) = Inr g" "verify g m (public_hex kp)"
  using assms sign_total [of kp rnd m] sign_verifies [of kp rnd m] hex_roundtrip [of kp] by blast

end

definition kp_good :: "hashing \<Rightarrow> ('pk, 'sk, 'sg) sig_scheme \<Rightarrow> kyvera_key_pair \<Rightarrow> bool" where
  "kp_good H S kp \<longleftrightarrow> hashing_ok H \<and> sig_ok S \<and> (\<exists>pk sk. sig_matching S pk sk \<and> kp = kp_generate S (pk, sk))"

definition sp_good :: "hashing \<Rightarrow> ('pk, 'sk, 'sg) sig_scheme \<Rightarrow> sphincs_key_pair \<Rightarrow> bool" where
  "sp_good H S kp \<longleftrightarrow> hashing_ok H \<and> sig_ok S \<and> (\<exists>pk sk. sig_matching S pk sk \<and> kp = sp_generate S (pk, sk))"

interpretation dilithium: signing "kp_sign S" "ks_verify H S" "ks_to_hex H" "ks_from_hex H"
  "kp_public_key_hex H" "kp_good H S"
  by unfold_locales
    (auto simp: kp_good_def kp_generate_def kp_sign_def ks_verify_def ks_to_hex_def ks_from_hex_def
      kp_public_key_hex_def sig_okD hex_decode_encode)

interpretation sphincs: signing "sp_sign S" "ss_verify H S" "ss_to_hex H" "ss_from_hex H"
  "sp_public_key_hex H" "sp_good H S"
  by unfold_locales
    (auto simp: sp_good_def sp_generate_def sp_sign_def ss_verify_def ss_to_hex_def ss_from_hex_def
      sp_public_key_hex_def sig_okD hex_decode_encode)

lemma signed_transaction_verifies:
  assumes "kp_good H D (id_signing_keypair ident)"
  obtains g where "sign_transaction H D rnd ident m n = Inr g"
    "verify_transaction_signature H D m n (ks_to_hex H g) (kp_public_key_hex H (id_signing_keypair ident))"
proof -
  obtain g where g: "kp_sign D rnd (id_signing_keypair ident) (bind_message_to_nonce H m n) = Inr g"
    "ks_from_hex H (ks_to_hex H g) = Inr g"
    "ks_verify H D g (bind_message_to_nonce H m n) (kp_public_key_hex H (id_signing_keypair ident))"
    by (rule dilithium.signed_text_accepted [OF assms])
  show thesis
    by (rule that [of g]) (simp_all add: sign_transaction_def verify_transaction_signature_def g)
qed

lemma signed_epoch_block_verifies:
  assumes "sp_good H S (id_epoch_keypair ident)"
  obtains g where "sign_epoch_block S rnd ident m = Inr g"
    "verify_epoch_block_signature H S m (ss_to_hex H g) (sp_public_key_hex H (id_epoch_keypair ident))"
proof -
  obtain g where g: "sp_sign S rnd (id_epoch_keypair ident) m = Inr g"
    "ss_from_hex H (ss_to_hex H g) = Inr g"
    "ss_verify H S g m (sp_public_key_hex H (id_epoch_keypair ident))"
    by (rule sphincs.signed_text_accepted [OF assms])
  show thesis
    by (rule that [of g]) (simp_all add: sign_epoch_block_def verify_epoch_block_signature_def g)
qed

text \<open>A verification is a success only through all four decoding steps.\<close>

lemma ks_verify_iff:
  "ks_verify H S sg m pkh \<longleftrightarrow>
     (\<exists>pkb pk s. hex_decode H pkh = Inr pkb \<and> sig_pk_from_bytes S pkb = Inr pk
        \<and> sig_from_bytes S (ks_signature_bytes sg) = Inr s \<and> sig_verify_detached S s m pk)"
  by (auto simp: ks_verify_def split: sum.splits)

lemma verify_transaction_signature_iff:
  "verify_transaction_signature H S m n sh pkh \<longleftrightarrow>
     (\<exists>sb pkb pk s. hex_decode H sh = Inr sb \<and> hex_decode H pkh = Inr pkb \<and> sig_pk_from_bytes S pkb = Inr pk
        \<and> sig_from_bytes S sb = Inr s \<and> sig_verify_detached S s (bind_message_to_nonce H m n) pk)"
  by (cases "hex_decode H sh")
    (simp_all add: verify_transaction_signature_def ks_from_hex_def ks_verify_iff)

section \<open>What a bound message binds\<close>

lemma kp_address_length: "hashing_ok H \<Longrightarrow> length (kp_address H kp) = 68"
  by (simp add: kp_address_def hex_encode_length digest_length)

lemma kp_address_binds:
  assumes "hashing_ok H" "kp_address H k1 = kp_address H k2"
    and "collision_free H {kp_public_key k1, kp_public_key k2}"
  shows "kp_public_key k1 = kp_public_key k2"
proof -
  have "hex_decode H (hex_encode H (sha3_256_digest H (kp_public_key k1)))
      = hex_decode H (hex_encode H (sha3_256_digest H (kp_public_key k2)))"
    using assms(2) by (simp add: kp_address_def)
  then have "sha3_256_digest H (kp_public_key k1) = sha3_256_digest H (kp_public_key k2)"
    by (simp add: hex_decode_encode [OF assms(1)])
  then show ?thesis by (rule collision_freeD [OF assms(3)]) simp_all
qed

definition nonce_input :: "bytes \<Rightarrow> transaction_nonce \<Rightarrow> bytes" where
  "nonce_input m n = m @ to_le_bytes (tn_account_nonce n) @ i64_to_le_bytes (tn_timestamp_ms n)
     @ tn_chain_state_hash n"

lemma i64_to_le_bytes_inj:
  assumes "i64_to_le_bytes a = i64_to_le_bytes b" "- (2 ^ 63) \<le> a" "a < 2 ^ 63" "- (2 ^ 63) \<le> b" "b < 2 ^ 63"
  shows "a = b"
proof -
  have w: "(word_of_int a :: u64) = word_of_int b" using assms(1) by (simp add: i64_to_le_bytes_def)
  have "sint (word_of_int x :: u64) = x" if "- (2 ^ 63) \<le> x" "x < 2 ^ 63" for x
    using that by (simp add: sint_sbintrunc' signed_take_bit_int_eq_self)
  with w assms(2-5) show ?thesis by metis
qed

definition i64_range :: "i64 \<Rightarrow> bool" where
  "i64_range x \<longleftrightarrow> - (2 ^ 63) \<le> x \<and> x < 2 ^ 63"

text \<open>For messages of one length the bound form fixes the message and every field of the nonce,
  up to a collision of the two inputs.\<close>

lemma bind_message_binds:
  assumes "bind_message_to_nonce H m n = bind_message_to_nonce H m' n'" "length m = length m'"
    and "i64_range (tn_timestamp_ms n)" "i64_range (tn_timestamp_ms n')"
    and "collision_free H {nonce_input m n, nonce_input m' n'}"
  shows "m = m' \<and> n = n'"
proof -
  have "nonce_input m n = nonce_input m' n'"
    by (rule collision_freeD [OF assms(5)])
      (use assms(1) in \<open>simp_all add: bind_message_to_nonce_def nonce_input_def\<close>)
  with assms(2) have "m = m'" "tn_account_nonce n = tn_account_nonce n'"
    "i64_to_le_bytes (tn_timestamp_ms n) = i64_to_le_bytes (tn_timestamp_ms n')"
    "tn_chain_state_hash n = tn_chain_state_hash n'"
    by (simp_all add: nonce_input_def)
  moreover from this(3) have "tn_timestamp_ms n = tn_timestamp_ms n'"
    using i64_to_le_bytes_inj assms(3,4) by (auto simp: i64_range_def)
  ultimately show ?thesis by (cases n; cases n') simp
qed

text \<open>Messages of different lengths can share their bound form: nothing marks where the message
  ends. Here the last byte of the longer message is the first byte of the other's account
  nonce.\<close>

lemma digits_fixed_8:
  "digits_fixed b 8 n = [n div b ^ 7 mod b, n div b ^ 6 mod b, n div b ^ 5 mod b, n div b ^ 4 mod b,
     n div b ^ 3 mod b, n div b ^ 2 mod b, n div b mod b, n mod b]"
  by (simp add: numeral_eq_Suc)

lemma small_le_bytes:
  "to_le_bytes 7 = [CHR 0x07, CHR 0x00, CHR 0x00, CHR 0x00, CHR 0x00, CHR 0x00, CHR 0x00, CHR 0x00]" "to_le_bytes 0 = [CHR 0x00, CHR 0x00, CHR 0x00, CHR 0x00, CHR 0x00, CHR 0x00, CHR 0x00, CHR 0x00]"
  by (simp_all add: to_le_bytes_def to_be_bytes_def digits_fixed_8 char_of_def bit_iff_odd)

lemma bind_message_ambiguous:
  "bind_message_to_nonce H m \<lparr>tn_account_nonce = 7, tn_timestamp_ms = 0, tn_chain_state_hash = CHR 0x00 # s\<rparr>
     = bind_message_to_nonce H (m @ [CHR 0x07]) \<lparr>tn_account_nonce = 0, tn_timestamp_ms = 0, tn_chain_state_hash = s\<rparr>"
  by (simp add: bind_message_to_nonce_def i64_to_le_bytes_def small_le_bytes)

section \<open>Sessions\<close>

lemma kem_okD:
  assumes "kem_ok K"
  shows "kem_pk_from_bytes K (kem_pk_as_bytes K pk) = Inr pk"
    "kem_sk_from_bytes K (kem_sk_as_bytes K sk) = Inr sk"
    "kem_ct_from_bytes K (kem_ct_as_bytes K ct) = Inr ct"
    "kem_matching K pk sk \<Longrightarrow> kem_encapsulate K rnd pk = (ss, ct) \<Longrightarrow> kem_decapsulate K ct sk = ss"
  using assms by (auto simp: kem_ok_def)

lemma session_agrees:
  assumes "hashing_ok H" "kem_ok K" "kem_matching K pk sk" "id_network_keypair ident = kb_generate K (pk, sk)"
  obtains e where "initiate_session H K rnd (kb_public_key_hex H (id_network_keypair ident)) = Inr e"
    "accept_session H K ident (ke_ciphertext_hex H e) = Inr (ke_shared_secret e)"
proof -
  obtain ss ct where enc: "kem_encapsulate K rnd pk = (ss, ct)" by fastforce
  note dec = hex_decode_encode [OF assms(1)] kem_okD [OF assms(2)]
  let ?e = "\<lparr>ke_ciphertext = kem_ct_as_bytes K ct, ke_shared_secret = kem_ss_as_bytes K ss\<rparr>"
  have "initiate_session H K rnd (kb_public_key_hex H (id_network_keypair ident)) = Inr ?e"
    by (simp add: initiate_session_def kb_encapsulate_def kb_public_key_hex_def kb_generate_def
      assms(4) dec(1,2) enc)
  moreover have "accept_session H K ident (ke_ciphertext_hex H ?e) = Inr (ke_shared_secret ?e)"
    by (simp add: accept_session_def kb_decapsulate_def ke_ciphertext_hex_def kb_generate_def
      assms(4) dec(1,3,4) kem_okD(4) [OF assms(2,3) enc])
  ultimately show thesis by (rule that)
qed

end
