(* ===== verification/Wallet_Keys.thy ===== *)
theory Wallet_Keys
  imports Crypto
begin

text \<open>
  \<open>src/src/wallet/keys.rs\<close> and \<open>src/src/wallet/transaction_builder.rs\<close>: the wallet, the
  address format and the three builders of signed transactions. \<open>serde_json::to_vec\<close> of a
  transaction is the encoder \<open>J\<close>; the clock is read twice (\<open>now\<close> in \<open>Transaction::new\<close>,
  \<open>now_ms\<close> in \<open>TransactionNonce::new\<close>), so it is two arguments.

  The lemmas show that each builder fails on exactly its guards and encoders, that what it
  returns is signed, hashed and verifiable against the wallet's public key, and which addresses
  of the program the format check turns down.
\<close>

section \<open>The wallet\<close>

record kyvera_wallet =
  wal_address :: string
  wal_signing_keypair :: kyvera_key_pair
  wal_network_keypair :: kyber_key_pair
  wal_epoch_keypair :: sphincs_key_pair
  wal_label :: string
  wal_created_at :: i64

record wallet_info =
  info_address :: string
  info_label :: string
  info_created_at :: i64
  info_signing_public_key :: string
  info_network_public_key :: string
  info_epoch_public_key :: string

definition wallet_generate ::
  "hashing \<Rightarrow> ('pk, 'sk, 'sg) sig_scheme \<Rightarrow> ('kpk, 'ksk, 'ct, 'ss) kem_scheme
     \<Rightarrow> ('spk, 'ssk, 'ssg) sig_scheme \<Rightarrow> 'pk \<times> 'sk \<Rightarrow> 'kpk \<times> 'ksk \<Rightarrow> 'spk \<times> 'ssk
     \<Rightarrow> i64 \<Rightarrow> string \<Rightarrow> kyvera_wallet" where
  "wallet_generate H D K S dpair kpair spair now label =
     (let signing = kp_generate D dpair;
          addr = kp_address H signing
      in \<lparr>wal_address = addr, wal_signing_keypair = signing, wal_network_keypair = kb_generate K kpair,
          wal_epoch_keypair = sp_generate S spair, wal_label = label, wal_created_at = now\<rparr>)"

definition wallet_get_info :: "hashing \<Rightarrow> kyvera_wallet \<Rightarrow> wallet_info" where
  "wallet_get_info H w =
     \<lparr>info_address = wal_address w, info_label = wal_label w, info_created_at = wal_created_at w,
      info_signing_public_key = hex_encode H (kp_public_key (wal_signing_keypair w)),
      info_network_public_key = kb_public_key_hex H (wal_network_keypair w),
      info_epoch_public_key = sp_public_key_hex H (wal_epoch_keypair w)\<rparr>"

definition wallet_public_key_hex :: "hashing \<Rightarrow> kyvera_wallet \<Rightarrow> string" where
  "wallet_public_key_hex H w = hex_encode H (kp_public_key (wal_signing_keypair w))"

definition verify_address_integrity :: "hashing \<Rightarrow> kyvera_wallet \<Rightarrow> bool" where
  "verify_address_integrity H w \<longleftrightarrow> kp_address H (wal_signing_keypair w) = wal_address w"

definition wallet_spendable_balance :: "kyvera_wallet \<Rightarrow> account \<Rightarrow> u64" where
  "wallet_spendable_balance w a = acc_balance a"

definition wallet_total_balance :: "kyvera_wallet \<Rightarrow> account \<Rightarrow> u64" where
  "wallet_total_balance w a = total_balance a"

section \<open>The builders\<close>

datatype builder_error =
    BInsufficientBalance u64 u64
  | SigningFailed string
  | InvalidAddress string
  | ZeroAmount

fun builder_error_to_string :: "builder_error \<Rightarrow> string" where
  "builder_error_to_string (BInsufficientBalance available required) =
     ''Insufficient balance: have '' @ u64_to_string available @ '' KYV units, need '' @ u64_to_string required"
| "builder_error_to_string (SigningFailed e) = ''Transaction signing failed: '' @ e"
| "builder_error_to_string (InvalidAddress a) = ''Invalid address format: '' @ a"
| "builder_error_to_string ZeroAmount = ''Transaction amount cannot be zero''"

definition is_ascii_hexdigit :: "char \<Rightarrow> bool" where
  "is_ascii_hexdigit c =
     (let b = (of_char c :: nat) in 48 \<le> b \<and> b \<le> 57 \<or> 65 \<le> b \<and> b \<le> 70 \<or> 97 \<le> b \<and> b \<le> 102)"

text \<open>The slice \<open>&address[4..]\<close> follows four ASCII bytes, so it never panics; a byte of a
  longer character is no hexadecimal digit.\<close>

definition validate_address :: "string \<Rightarrow> bool" where
  "validate_address address =
     (if \<not> starts_with ''kyv1'' address then False
      else let hex_part = drop 4 address in
        if length hex_part \<noteq> 64 then False
        else list_all is_ascii_hexdigit hex_part)"

definition compute_transaction_hash :: "hashing \<Rightarrow> transaction \<Rightarrow> string" where
  "compute_transaction_hash H tx =
     sha3_256 H (tx_sender tx @ tx_receiver tx @ u64_to_string (tx_amount tx) @ u64_to_string (tx_fee tx)
       @ u64_to_string (tx_nonce tx) @ tx_signature tx)"

definition build_transfer ::
  "hashing \<Rightarrow> ('pk, 'sk, 'sg) sig_scheme \<Rightarrow> transaction codec \<Rightarrow> bytes \<Rightarrow> i64 \<Rightarrow> i64 \<Rightarrow> kyvera_wallet
     \<Rightarrow> string \<Rightarrow> u64 \<Rightarrow> u64 \<Rightarrow> u64 \<Rightarrow> string \<Rightarrow> builder_error + transaction" where
  "build_transfer H D J rnd now now_ms w recipient amount fee account_nonce state_hash =
     (if amount = 0 then Inl ZeroAmount
      else if \<not> validate_address recipient then Inl (InvalidAddress recipient)
      else
        let tx = transaction_new now (wal_address w) recipient amount fee account_nonce Transfer [] in
        res_bind (map_err SigningFailed (to_vec J tx)) (\<lambda>tx_payload.
        let nonce = nonce_new now_ms account_nonce state_hash in
        res_bind (map_err SigningFailed
                    (kp_sign D rnd (wal_signing_keypair w) (bind_message_to_nonce H tx_payload nonce))) (\<lambda>sg.
        let tx = tx\<lparr>tx_signature := ks_to_hex H sg\<rparr>;
            tx = tx\<lparr>tx_hash := compute_transaction_hash H tx\<rparr>
        in Inr tx)))"

definition staking_contract :: string where
  "staking_contract = ''kyv1000000000000000000000000000000000000000000000000000000000000stake''"

definition build_stake_lock ::
  "hashing \<Rightarrow> ('pk, 'sk, 'sg) sig_scheme \<Rightarrow> transaction codec \<Rightarrow> bytes \<Rightarrow> i64 \<Rightarrow> i64 \<Rightarrow> kyvera_wallet
     \<Rightarrow> u64 \<Rightarrow> u64 \<Rightarrow> u64 \<Rightarrow> string \<Rightarrow> builder_error + transaction" where
  "build_stake_lock H D J rnd now now_ms w amount fee account_nonce state_hash =
     (if amount = 0 then Inl ZeroAmount
      else
        let tx = transaction_new now (wal_address w) staking_contract amount fee account_nonce StakeLock [] in
        res_bind (map_err SigningFailed (to_vec J tx)) (\<lambda>tx_payload.
        let nonce = nonce_new now_ms account_nonce state_hash in
        res_bind (map_err SigningFailed
                    (kp_sign D rnd (wal_signing_keypair w) (bind_message_to_nonce H tx_payload nonce))) (\<lambda>sg.
        let tx = tx\<lparr>tx_signature := ks_to_hex H sg\<rparr>;
            tx = tx\<lparr>tx_hash := compute_transaction_hash H tx\<rparr>
        in Inr tx)))"

definition build_stake_unlock ::
  "hashing \<Rightarrow> ('pk, 'sk, 'sg) sig_scheme \<Rightarrow> transaction codec \<Rightarrow> bytes \<Rightarrow> i64 \<Rightarrow> i64 \<Rightarrow> kyvera_wallet
     \<Rightarrow> u64 \<Rightarrow> u64 \<Rightarrow> u64 \<Rightarrow> string \<Rightarrow> builder_error + transaction" where
  "build_stake_unlock H D J rnd now now_ms w amount fee account_nonce state_hash =
     (if amount = 0 then Inl ZeroAmount
      else
        let tx = transaction_new now (wal_address w) staking_contract amount fee account_nonce StakeUnlock [] in
        res_bind (map_err SigningFailed (to_vec J tx)) (\<lambda>tx_payload.
        let nonce = nonce_new now_ms account_nonce state_hash in
        res_bind (map_err SigningFailed
                    (kp_sign D rnd (wal_signing_keypair w) (bind_message_to_nonce H tx_payload nonce))) (\<lambda>sg.
        let tx = tx\<lparr>tx_signature := ks_to_hex H sg\<rparr>;
            tx = tx\<lparr>tx_hash := compute_transaction_hash H tx\<rparr>
        in Inr tx)))"

section \<open>Wallets\<close>

lemma generated_wallet_integrity: "verify_address_integrity H (wallet_generate H D K S dpair kpair spair now label)"
  by (simp add: verify_address_integrity_def wallet_generate_def Let_def)

lemma wallet_public_key_hex_eq: "wallet_public_key_hex H w = kp_public_key_hex H (wal_signing_keypair w)"
  by (simp add: wallet_public_key_hex_def kp_public_key_hex_def)

lemma wallet_generate_good:
  assumes "hashing_ok H" "sig_ok D" "sig_matching D pk sk"
  shows "kp_good H D (wal_signing_keypair (wallet_generate H D K S (pk, sk) kpair spair now label))"
  using assms by (auto simp: kp_good_def wallet_generate_def Let_def)

section \<open>Address format\<close>

lemma lower_hex_hexdigit: "c \<in> lower_hex_digits \<Longrightarrow> is_ascii_hexdigit c"
  by (auto simp: lower_hex_digits_def is_ascii_hexdigit_def Let_def)

lemma validate_address_iff:
  "validate_address a \<longleftrightarrow> (\<exists>h. a = ''kyv1'' @ h \<and> length h = 64 \<and> (\<forall>c \<in> set h. is_ascii_hexdigit c))"
proof
  assume v: "validate_address a"
  then have "take (length ''kyv1'') a = ''kyv1''" by (simp only: validate_address_def starts_with_def split: if_splits)
  then have "a = ''kyv1'' @ drop 4 a"
    using append_take_drop_id [of "length ''kyv1''" a] by (simp add: numeral_eq_Suc)
  with v show "\<exists>h. a = ''kyv1'' @ h \<and> length h = 64 \<and> (\<forall>c \<in> set h. is_ascii_hexdigit c)"
    by (intro exI [of _ "drop 4 a"]) (simp add: validate_address_def Let_def list_all_iff split: if_splits)
qed (auto simp: validate_address_def starts_with_def Let_def list_all_iff)

lemma generated_address_valid: "hashing_ok H \<Longrightarrow> validate_address (kp_address H kp)"
  unfolding validate_address_iff kp_address_def
  using hex_encode_digits [of H] lower_hex_hexdigit
  by (intro exI [of _ "hex_encode H (sha3_256_digest H (kp_public_key kp))"])
    (auto simp: hex_encode_length digest_length)

lemma validate_address_length: "validate_address a \<Longrightarrow> length a = 68"
  by (auto simp: validate_address_iff)

text \<open>No transfer can be built to the address the staking builders use.\<close>

lemma staking_contract_invalid: "\<not> validate_address staking_contract"
  using validate_address_length [of staking_contract] by (auto simp: staking_contract_def)

section \<open>What a built transaction is\<close>

text \<open>The three builders share their second half.\<close>

definition seal :: "hashing \<Rightarrow> transaction \<Rightarrow> kyvera_signature \<Rightarrow> transaction" where
  "seal H tx sg = (let tx = tx\<lparr>tx_signature := ks_to_hex H sg\<rparr> in tx\<lparr>tx_hash := compute_transaction_hash H tx\<rparr>)"

definition sign_and_seal ::
  "hashing \<Rightarrow> ('pk, 'sk, 'sg) sig_scheme \<Rightarrow> transaction codec \<Rightarrow> bytes \<Rightarrow> i64 \<Rightarrow> kyvera_key_pair \<Rightarrow> string
     \<Rightarrow> transaction \<Rightarrow> builder_error + transaction" where
  "sign_and_seal H D J rnd now_ms kp state_hash tx =
     res_bind (map_err SigningFailed (to_vec J tx)) (\<lambda>p.
     res_bind (map_err SigningFailed
                 (kp_sign D rnd kp (bind_message_to_nonce H p (nonce_new now_ms (tx_nonce tx) state_hash)))) (\<lambda>sg.
     Inr (seal H tx sg)))"

lemma builders_sign_and_seal:
  "amount \<noteq> 0 \<Longrightarrow> validate_address r \<Longrightarrow> build_transfer H D J rnd now now_ms w r amount fee n sh =
     sign_and_seal H D J rnd now_ms (wal_signing_keypair w) sh
       (transaction_new now (wal_address w) r amount fee n Transfer [])"
  "amount \<noteq> 0 \<Longrightarrow> build_stake_lock H D J rnd now now_ms w amount fee n sh =
     sign_and_seal H D J rnd now_ms (wal_signing_keypair w) sh
       (transaction_new now (wal_address w) staking_contract amount fee n StakeLock [])"
  "amount \<noteq> 0 \<Longrightarrow> build_stake_unlock H D J rnd now now_ms w amount fee n sh =
     sign_and_seal H D J rnd now_ms (wal_signing_keypair w) sh
       (transaction_new now (wal_address w) staking_contract amount fee n StakeUnlock [])"
  by (simp_all add: build_transfer_def build_stake_lock_def build_stake_unlock_def sign_and_seal_def
    seal_def Let_def transaction_new_def)

text \<open>The transaction before it was signed.\<close>

definition unsigned :: "transaction \<Rightarrow> transaction" where
  "unsigned tx = tx\<lparr>tx_hash := '''', tx_signature := ''''\<rparr>"

definition canonical_hash :: "hashing \<Rightarrow> transaction \<Rightarrow> bool" where
  "canonical_hash H tx \<longleftrightarrow> tx_hash tx = compute_transaction_hash H tx"

text \<open>A node that knows the state hash and the time of signing verifies the transaction from its
  own fields.\<close>

definition wallet_signed ::
  "hashing \<Rightarrow> ('pk, 'sk, 'sg) sig_scheme \<Rightarrow> transaction codec \<Rightarrow> i64 \<Rightarrow> string \<Rightarrow> string \<Rightarrow> transaction \<Rightarrow> bool" where
  "wallet_signed H D J now_ms state_hash pkh tx \<longleftrightarrow>
     (\<exists>p. to_vec J (unsigned tx) = Inr p
        \<and> verify_transaction_signature H D p (nonce_new now_ms (tx_nonce tx) state_hash) (tx_signature tx) pkh)"

lemma seal_simps [simp]:
  "tx_sender (seal H tx sg) = tx_sender tx" "tx_receiver (seal H tx sg) = tx_receiver tx"
  "tx_amount (seal H tx sg) = tx_amount tx" "tx_fee (seal H tx sg) = tx_fee tx"
  "tx_nonce (seal H tx sg) = tx_nonce tx" "tx_type (seal H tx sg) = tx_type tx"
  "tx_data (seal H tx sg) = tx_data tx" "tx_timestamp (seal H tx sg) = tx_timestamp tx"
  "tx_signature (seal H tx sg) = ks_to_hex H sg"
  by (simp_all add: seal_def Let_def)

lemma seal_canonical: "canonical_hash H (seal H tx sg)"
  by (simp add: canonical_hash_def seal_def Let_def compute_transaction_hash_def)

lemma unsigned_seal: "unsigned tx = tx \<Longrightarrow> unsigned (seal H tx sg) = tx"
  by (simp add: unsigned_def seal_def Let_def)

lemma unsigned_new [simp]: "unsigned (transaction_new now s r a f n ty d) = transaction_new now s r a f n ty d"
  by (simp add: unsigned_def transaction_new_def)

lemma sign_and_seal_verifies:
  assumes "kp_good H D kp" "codec_total J" "unsigned tx = tx"
  obtains tx' where "sign_and_seal H D J rnd now_ms kp sh tx = Inr tx'" "unsigned tx' = tx"
    "canonical_hash H tx'" "wallet_signed H D J now_ms sh (kp_public_key_hex H kp) tx'"
proof -
  obtain p where p: "to_vec J tx = Inr p" using assms(2) unfolding codec_total_def by blast
  let ?m = "bind_message_to_nonce H p (nonce_new now_ms (tx_nonce tx) sh)"
  obtain g where g: "kp_sign D rnd kp ?m = Inr g" "ks_from_hex H (ks_to_hex H g) = Inr g"
    "ks_verify H D g ?m (kp_public_key_hex H kp)"
    by (rule dilithium.signed_text_accepted [OF assms(1)])
  have "wallet_signed H D J now_ms sh (kp_public_key_hex H kp) (seal H tx g)"
    by (simp add: wallet_signed_def unsigned_seal [OF assms(3)] p verify_transaction_signature_def g)
  then show thesis
    by (rule that [OF _ unsigned_seal [OF assms(3)] seal_canonical, rotated])
      (simp add: sign_and_seal_def p g)
qed

lemma canonical_hash_nonempty: "hashing_ok H \<Longrightarrow> canonical_hash H tx \<Longrightarrow> length (tx_hash tx) = 64"
  by (simp add: canonical_hash_def compute_transaction_hash_def sha3_256_def hex_encode_length digest_length)

text \<open>A builder fails on its guards, and otherwise only when an encoder or the key does.\<close>

lemma build_transfer_errors:
  assumes "build_transfer H D J rnd now now_ms w r amount fee n sh = Inl e"
  shows "e = ZeroAmount \<and> amount = 0 \<or> e = InvalidAddress r \<and> amount \<noteq> 0 \<and> \<not> validate_address r
    \<or> (\<exists>m. e = SigningFailed m) \<and> amount \<noteq> 0 \<and> validate_address r"
  using assms
  by (auto simp: build_transfer_def Let_def res_bind_def map_err_def split: if_splits sum.splits)

text \<open>What a built transfer says, and that it verifies when the wallet's key is good.\<close>

lemma build_transfer_fields:
  assumes "build_transfer H D J rnd now now_ms w r amount fee n sh = Inr tx"
  shows "amount \<noteq> 0 \<and> validate_address r \<and> tx_sender tx = wal_address w \<and> tx_receiver tx = r
    \<and> tx_amount tx = amount \<and> tx_fee tx = fee \<and> tx_nonce tx = n \<and> tx_type tx = Transfer \<and> canonical_hash H tx"
proof -
  have g: "amount \<noteq> 0" "validate_address r" using assms by (auto simp: build_transfer_def split: if_splits)
  then show ?thesis
    using assms seal_canonical
    by (auto simp: builders_sign_and_seal sign_and_seal_def transaction_new_def elim!: res_bind_InrE)
qed

lemma build_transfer_verifies:
  assumes "build_transfer H D J rnd now now_ms w r amount fee n sh = Inr tx"
    and "kp_good H D (wal_signing_keypair w)" "codec_total J"
  shows "wallet_signed H D J now_ms sh (wallet_public_key_hex H w) tx"
proof -
  have g: "amount \<noteq> 0" "validate_address r" using build_transfer_fields [OF assms(1)] by blast+
  let ?t = "transaction_new now (wal_address w) r amount fee n Transfer []"
  obtain tx' where "sign_and_seal H D J rnd now_ms (wal_signing_keypair w) sh ?t = Inr tx'" "unsigned tx' = ?t"
    "canonical_hash H tx'" "wallet_signed H D J now_ms sh (kp_public_key_hex H (wal_signing_keypair w)) tx'"
    by (rule sign_and_seal_verifies [OF assms(2,3) unsigned_new])
  with assms(1) show ?thesis by (simp add: builders_sign_and_seal g wallet_public_key_hex_eq)
qed

text \<open>The hash text runs the numbers together: transactions that differ share a hash.\<close>

lemma compute_transaction_hash_ambiguous:
  assumes "tx_sender t = tx_sender u" "tx_receiver t = tx_receiver u" "tx_signature t = tx_signature u"
    and "tx_amount t = 1" "tx_fee t = 23" "tx_amount u = 12" "tx_fee u = 3" "tx_nonce t = tx_nonce u"
  shows "compute_transaction_hash H t = compute_transaction_hash H u"
  using assms by (simp add: compute_transaction_hash_def u64_to_string_def dec_string.simps)

end
