(* ===== verification/Wallet_Storage.thy ===== *)
theory Wallet_Storage
  imports Wallet_Keys "HOL-Library.AList"
begin

text \<open>
  \<open>src/src/wallet/storage.rs\<close>: wallet files. AES-256-GCM (crate aes_gcm) and the JSON encoder
  of a wallet are parameters; the random nonce of a save is an argument.

  The file system is the part of \<open>std::fs\<close> the code calls. A disk holds the files and the
  faults to come: every call takes the next item, and \<open>Some\<close> makes it fail with that text. A
  failing \<open>write\<close> may leave a prefix of the bytes in the file.

  The lemmas show that a load finds what a save stored, that a save that fails at any point
  leaves an existing wallet file as it was, that a load only returns a wallet whose address
  matches its key, and that the older \<open>save_wallet\<close> encrypts under a key no load derives.
\<close>

section \<open>Encryption and encoding\<close>

record aead =
  aes_encrypt :: "bytes \<Rightarrow> bytes \<Rightarrow> bytes \<Rightarrow> bytes option"
  aes_decrypt :: "bytes \<Rightarrow> bytes \<Rightarrow> bytes \<Rightarrow> bytes option"

definition aead_ok :: "aead \<Rightarrow> bool" where
  "aead_ok A \<longleftrightarrow> (\<forall>k n m c. aes_encrypt A k n m = Some c \<longrightarrow> aes_decrypt A k n c = Some m)"

text \<open>\<open>to_string\<close> of serde_json returns a string, so UTF-8.\<close>

definition json_text_ok :: "'a codec \<Rightarrow> bool" where
  "json_text_ok J \<longleftrightarrow> codec_ok J \<and> (\<forall>x bs. to_vec J x = Inr bs \<longrightarrow> utf8_valid bs)"

section \<open>The file system\<close>

datatype io_fault = Io_Fault string "nat option"

record disk =
  disk_files :: "(string \<times> bytes) list"
  disk_faults :: "io_fault option list"

definition next_fault :: "disk \<Rightarrow> io_fault option \<times> disk" where
  "next_fault d = (case disk_faults d of [] \<Rightarrow> (None, d) | f # fs \<Rightarrow> (f, d\<lparr>disk_faults := fs\<rparr>))"

definition not_found :: string where
  "not_found = ''No such file or directory (os error 2)''"

definition put_file :: "string \<Rightarrow> bytes \<Rightarrow> disk \<Rightarrow> disk" where
  "put_file path bs d = d\<lparr>disk_files := AList.update path bs (disk_files d)\<rparr>"

definition drop_file :: "string \<Rightarrow> disk \<Rightarrow> disk" where
  "drop_file path d = d\<lparr>disk_files := AList.delete path (disk_files d)\<rparr>"

definition file_at :: "disk \<Rightarrow> string \<Rightarrow> bytes option" where
  "file_at d path = map_of (disk_files d) path"

definition fs_write :: "disk \<Rightarrow> string \<Rightarrow> bytes \<Rightarrow> (string + unit) \<times> disk" where
  "fs_write d path bs =
     (case next_fault d of
        (None, d) \<Rightarrow> (Inr (), put_file path bs d)
      | (Some (Io_Fault e None), d) \<Rightarrow> (Inl e, d)
      | (Some (Io_Fault e (Some n)), d) \<Rightarrow> (Inl e, put_file path (take n bs) d))"

definition fs_rename :: "disk \<Rightarrow> string \<Rightarrow> string \<Rightarrow> (string + unit) \<times> disk" where
  "fs_rename d src dst =
     (case next_fault d of
        (Some (Io_Fault e _), d) \<Rightarrow> (Inl e, d)
      | (None, d) \<Rightarrow>
          (case file_at d src of
             None \<Rightarrow> (Inl not_found, d)
           | Some bs \<Rightarrow> (Inr (), put_file dst bs (drop_file src d))))"

definition fs_read :: "disk \<Rightarrow> string \<Rightarrow> (string + bytes) \<times> disk" where
  "fs_read d path =
     (case next_fault d of
        (Some (Io_Fault e _), d) \<Rightarrow> (Inl e, d)
      | (None, d) \<Rightarrow>
          (case file_at d path of None \<Rightarrow> (Inl not_found, d) | Some bs \<Rightarrow> (Inr bs, d)))"

definition fs_remove_file :: "disk \<Rightarrow> string \<Rightarrow> (string + unit) \<times> disk" where
  "fs_remove_file d path =
     (case next_fault d of
        (Some (Io_Fault e _), d) \<Rightarrow> (Inl e, d)
      | (None, d) \<Rightarrow>
          (case file_at d path of None \<Rightarrow> (Inl not_found, d) | Some _ \<Rightarrow> (Inr (), drop_file path d)))"

section \<open>Wallet files\<close>

definition wallet_magic :: bytes where
  "wallet_magic = ''KYVERAWALLET01''"

definition nonce_size :: nat where
  "nonce_size = 12"

datatype storage_error =
    IoError string
  | DecryptionFailed
  | InvalidWalletFile
  | DeserializationFailed string
  | SerializationFailed string

fun storage_error_to_string :: "storage_error \<Rightarrow> string" where
  "storage_error_to_string (IoError e) = ''File system error: '' @ e"
| "storage_error_to_string DecryptionFailed = ''Wrong password or corrupted wallet file''"
| "storage_error_to_string InvalidWalletFile = ''Not a valid Kyvera wallet file''"
| "storage_error_to_string (DeserializationFailed e) = ''Wallet data corrupted: '' @ e"
| "storage_error_to_string (SerializationFailed e) = ''Failed to prepare wallet for saving: '' @ e"

definition derive_encryption_key :: "hashing \<Rightarrow> string \<Rightarrow> string \<Rightarrow> bytes" where
  "derive_encryption_key H password wallet_address =
     sha3_256_digest H (password @ wallet_address @ ''kyvera-wallet-encryption-v1'')"

definition derive_key_for_storage :: "hashing \<Rightarrow> string \<Rightarrow> bytes" where
  "derive_key_for_storage H password = sha3_256_digest H (password @ ''kyvera-wallet-encryption-v1'')"

definition save_wallet ::
  "hashing \<Rightarrow> aead \<Rightarrow> kyvera_wallet codec \<Rightarrow> bytes \<Rightarrow> disk \<Rightarrow> kyvera_wallet \<Rightarrow> string \<Rightarrow> string
     \<Rightarrow> (storage_error + unit) \<times> disk" where
  "save_wallet H A J nonce_bytes d wallet path password =
     read_bind d (map_err SerializationFailed (to_vec J wallet)) (\<lambda>json.
     let key_bytes = derive_encryption_key H password (wal_address wallet) in
     read_bind d (ok_or (aes_encrypt A key_bytes nonce_bytes json) DecryptionFailed) (\<lambda>ciphertext.
     let file_contents = wallet_magic @ nonce_bytes @ ciphertext;
         temp_path = path @ ''.tmp'' in
     st_bind (apfst (map_err IoError) (fs_write d temp_path file_contents)) (\<lambda>_ d.
     st_bind (apfst (map_err IoError) (fs_rename d temp_path path)) (\<lambda>_ d.
     (Inr (), d)))))"

definition load_wallet ::
  "hashing \<Rightarrow> aead \<Rightarrow> kyvera_wallet codec \<Rightarrow> disk \<Rightarrow> string \<Rightarrow> string \<Rightarrow> (storage_error + kyvera_wallet) \<times> disk" where
  "load_wallet H A J d path password =
     st_bind (apfst (map_err IoError) (fs_read d path)) (\<lambda>file_contents d.
     (if length file_contents < length wallet_magic + nonce_size then Inl InvalidWalletFile
      else if take (length wallet_magic) file_contents \<noteq> wallet_magic then Inl InvalidWalletFile
      else
        let nonce_start = length wallet_magic;
            nonce_end = nonce_start + nonce_size;
            nonce_bytes = take nonce_size (drop nonce_start file_contents);
            ciphertext = drop nonce_end file_contents;
            key_bytes = sha3_256_digest H (password @ ''kyvera-wallet-encryption-v1'') in
        res_bind (ok_or (aes_decrypt A key_bytes nonce_bytes ciphertext) DecryptionFailed) (\<lambda>plaintext.
        res_bind (map_err (\<lambda>_. DecryptionFailed) (from_utf8 plaintext)) (\<lambda>json.
        res_bind (map_err DeserializationFailed (from_slice J json)) (\<lambda>wallet.
        if \<not> verify_address_integrity H wallet then
          Inl (DeserializationFailed ''Wallet address does not match public key after loading'')
        else Inr wallet))), d))"

text \<open>\<open>Path::exists\<close> is False on an error.\<close>

definition wallet_exists :: "disk \<Rightarrow> string \<Rightarrow> bool \<times> disk" where
  "wallet_exists d path =
     (case next_fault d of (Some _, d) \<Rightarrow> (False, d) | (None, d) \<Rightarrow> (file_at d path \<noteq> None, d))"

definition delete_wallet :: "disk \<Rightarrow> string \<Rightarrow> (storage_error + unit) \<times> disk" where
  "delete_wallet d path = apfst (map_err IoError) (fs_remove_file d path)"

definition save_wallet_v2 ::
  "hashing \<Rightarrow> aead \<Rightarrow> kyvera_wallet codec \<Rightarrow> bytes \<Rightarrow> disk \<Rightarrow> kyvera_wallet \<Rightarrow> string \<Rightarrow> string
     \<Rightarrow> (storage_error + unit) \<times> disk" where
  "save_wallet_v2 H A J nonce_bytes d wallet path password =
     read_bind d (map_err SerializationFailed (to_vec J wallet)) (\<lambda>json.
     let key_bytes = derive_key_for_storage H password in
     read_bind d (ok_or (aes_encrypt A key_bytes nonce_bytes json) DecryptionFailed) (\<lambda>ciphertext.
     let file_contents = wallet_magic @ nonce_bytes @ ciphertext;
         temp_path = path @ ''.tmp'' in
     st_bind (apfst (map_err IoError) (fs_write d temp_path file_contents)) (\<lambda>_ d.
     st_bind (apfst (map_err IoError) (fs_rename d temp_path path)) (\<lambda>_ d.
     (Inr (), d)))))"

section \<open>Files\<close>

lemma file_at_simps [simp]:
  "file_at (put_file p bs d) q = (if q = p then Some bs else file_at d q)"
  "file_at (drop_file p d) q = (if q = p then None else file_at d q)"
  "file_at (d\<lparr>disk_faults := fs\<rparr>) q = file_at d q"
  by (simp_all add: file_at_def put_file_def drop_file_def AList.update_conv' AList.delete_conv')

lemma next_fault_files: "next_fault d = (f, d') \<Longrightarrow> file_at d' q = file_at d q"
  by (auto simp: next_fault_def split: list.splits)

text \<open>What each call leaves in a file, whatever fails.\<close>

lemma fs_write_files:
  assumes "fs_write d p bs = (r, d')"
  shows "q \<noteq> p \<Longrightarrow> file_at d' q = file_at d q" "r = Inr () \<Longrightarrow> file_at d' p = Some bs"
  using assms next_fault_files [of d]
  by (auto simp: fs_write_def split: prod.splits option.splits io_fault.splits)

lemma fs_rename_files:
  assumes "fs_rename d p q = (r, d')"
  shows "r \<noteq> Inr () \<Longrightarrow> file_at d' x = file_at d x"
    "r = Inr () \<Longrightarrow> file_at d' x = (if x = q then file_at d p else if x = p then None else file_at d x)"
  using assms next_fault_files [of d]
  by (auto simp: fs_rename_def split: prod.splits option.splits io_fault.splits)

lemma fs_read_value:
  assumes "fs_read d p = (r, d')"
  shows "file_at d' x = file_at d x" "r = Inr bs \<Longrightarrow> file_at d p = Some bs"
  using assms next_fault_files [of d]
  by (auto simp: fs_read_def split: prod.splits option.splits io_fault.splits)

section \<open>Saving replaces the file or leaves it alone\<close>

text \<open>The last two steps of both save functions.\<close>

definition replace_file :: "disk \<Rightarrow> string \<Rightarrow> bytes \<Rightarrow> (storage_error + unit) \<times> disk" where
  "replace_file d path bs =
     st_bind (apfst (map_err IoError) (fs_write d (path @ ''.tmp'') bs)) (\<lambda>_ d.
     st_bind (apfst (map_err IoError) (fs_rename d (path @ ''.tmp'') path)) (\<lambda>_ d. (Inr (), d)))"

lemma replace_file_outcome:
  assumes "replace_file d path bs = (r, d')"
  shows "r = Inr () \<Longrightarrow> file_at d' path = Some bs" "r \<noteq> Inr () \<Longrightarrow> file_at d' path = file_at d path"
    "q \<noteq> path \<Longrightarrow> q \<noteq> path @ ''.tmp'' \<Longrightarrow> file_at d' q = file_at d q"
proof -
  obtain r1 d1 where w: "fs_write d (path @ ''.tmp'') bs = (r1, d1)" by fastforce
  obtain r2 d2 where m: "fs_rename d1 (path @ ''.tmp'') path = (r2, d2)" by fastforce
  note fw = fs_write_files [OF w] and fm = fs_rename_files [OF m]
  have "r = Inr () \<longrightarrow> file_at d' path = Some bs"
    using assms fw fm by (cases r1; cases r2) (auto simp: replace_file_def w m)
  moreover have "r \<noteq> Inr () \<longrightarrow> file_at d' path = file_at d path"
    using assms fw fm by (cases r1; cases r2) (auto simp: replace_file_def w m)
  moreover have "q \<noteq> path \<longrightarrow> q \<noteq> path @ ''.tmp'' \<longrightarrow> file_at d' q = file_at d q"
    using assms fw fm by (cases r1; cases r2) (auto simp: replace_file_def w m)
  ultimately show "r = Inr () \<Longrightarrow> file_at d' path = Some bs" "r \<noteq> Inr () \<Longrightarrow> file_at d' path = file_at d path"
    "q \<noteq> path \<Longrightarrow> q \<noteq> path @ ''.tmp'' \<Longrightarrow> file_at d' q = file_at d q" by blast+
qed

text \<open>A save runs into an encoder error before it touches the disk, or replaces the file by
  the magic bytes, the nonce and the ciphertext.\<close>

lemma save_wallet_v2_cases:
  assumes "save_wallet_v2 H A J n d w path pw = (r, d')"
  obtains e where "r = Inl e" "d' = d"
  | json c where "to_vec J w = Inr json" "aes_encrypt A (derive_key_for_storage H pw) n json = Some c"
      "replace_file d path (wallet_magic @ n @ c) = (r, d')"
  using assms
  by (cases "to_vec J w"; cases "aes_encrypt A (derive_key_for_storage H pw) n (projr (to_vec J w))")
    (auto simp: save_wallet_v2_def replace_file_def Let_def)

lemma save_wallet_cases:
  assumes "save_wallet H A J n d w path pw = (r, d')"
  obtains e where "r = Inl e" "d' = d"
  | json c where "to_vec J w = Inr json" "aes_encrypt A (derive_encryption_key H pw (wal_address w)) n json = Some c"
      "replace_file d path (wallet_magic @ n @ c) = (r, d')"
  using assms
  by (cases "to_vec J w"; cases "aes_encrypt A (derive_encryption_key H pw (wal_address w)) n (projr (to_vec J w))")
    (auto simp: save_wallet_def replace_file_def Let_def)

lemma save_wallet_v2_keeps_old:
  assumes "save_wallet_v2 H A J n d w path pw = (Inl e, d')"
  shows "file_at d' path = file_at d path"
  using assms by (rule save_wallet_v2_cases) (use replace_file_outcome(2) in auto)

lemma save_wallet_v2_elsewhere:
  assumes "save_wallet_v2 H A J n d w path pw = (r, d')" "q \<noteq> path" "q \<noteq> path @ ''.tmp''"
  shows "file_at d' q = file_at d q"
  using assms(1) by (rule save_wallet_v2_cases) (use assms(2,3) replace_file_outcome(3) in auto)

section \<open>Loading\<close>

text \<open>What a load does with the bytes of the file.\<close>

definition open_wallet :: "hashing \<Rightarrow> aead \<Rightarrow> kyvera_wallet codec \<Rightarrow> bytes \<Rightarrow> string \<Rightarrow> storage_error + kyvera_wallet" where
  "open_wallet H A J bs pw = fst (load_wallet H A J \<lparr>disk_files = [(''w'', bs)], disk_faults = []\<rparr> ''w'' pw)"

lemma load_wallet_open:
  assumes "fs_read d path = (Inr bs, d1)"
  shows "load_wallet H A J d path pw = (open_wallet H A J bs pw, d1)"
proof -
  have "fs_read \<lparr>disk_files = [(''w'', bs)], disk_faults = []\<rparr> ''w''
      = (Inr bs, \<lparr>disk_files = [(''w'', bs)], disk_faults = []\<rparr>)"
    by (simp add: fs_read_def next_fault_def file_at_def)
  then show ?thesis using assms by (simp add: open_wallet_def load_wallet_def)
qed

lemma open_wallet_magic:
  assumes "length n = 12"
  shows "open_wallet H A J (wallet_magic @ n @ c) pw =
     res_bind (ok_or (aes_decrypt A (derive_key_for_storage H pw) n c) DecryptionFailed) (\<lambda>plaintext.
     res_bind (map_err (\<lambda>_. DecryptionFailed) (from_utf8 plaintext)) (\<lambda>json.
     res_bind (map_err DeserializationFailed (from_slice J json)) (\<lambda>wallet.
     if \<not> verify_address_integrity H wallet then
       Inl (DeserializationFailed ''Wallet address does not match public key after loading'')
     else Inr wallet)))"
  using assms
  by (simp add: open_wallet_def load_wallet_def fs_read_def next_fault_def file_at_def wallet_magic_def
    nonce_size_def derive_key_for_storage_def Let_def)

lemma open_wallet_sealed:
  assumes "aead_ok A" "json_text_ok J" "length n = 12" "verify_address_integrity H w"
    and "to_vec J w = Inr json" "aes_encrypt A (derive_key_for_storage H pw) n json = Some c"
  shows "open_wallet H A J (wallet_magic @ n @ c) pw = Inr w"
proof -
  have "aes_decrypt A (derive_key_for_storage H pw) n c = Some json"
    using assms(1,6) by (simp add: aead_ok_def)
  moreover have "from_utf8 json = Inr json"
    using assms(2,5) by (auto simp: json_text_ok_def utf8_valid_def from_utf8_def)
  moreover have "from_slice J json = Inr w"
    using assms(2,5) by (simp add: json_text_ok_def codec_roundtrip)
  ultimately show ?thesis using assms(4) by (simp add: open_wallet_magic [OF assms(3)])
qed

text \<open>A load of what \<open>save_wallet_v2\<close> stored returns the wallet, from any later disk on which
  the file is still there.\<close>

lemma save_v2_load:
  assumes "aead_ok A" "json_text_ok J" "length n = 12" "verify_address_integrity H w"
    and saved: "save_wallet_v2 H A J n d w path pw = (Inr (), d1)"
    and same: "file_at d2 path = file_at d1 path" and read: "fs_read d2 path = (Inr bs, d3)"
  shows "load_wallet H A J d2 path pw = (Inr w, d3)"
  using saved
proof (rule save_wallet_v2_cases)
  fix json c
  assume j: "to_vec J w = Inr json" "aes_encrypt A (derive_key_for_storage H pw) n json = Some c"
    and "replace_file d path (wallet_magic @ n @ c) = (Inr (), d1)"
  then have "file_at d1 path = Some (wallet_magic @ n @ c)" using replace_file_outcome(1) by blast
  then have "bs = wallet_magic @ n @ c" using fs_read_value(2) [OF read] same by simp
  then show ?thesis
    by (simp add: load_wallet_open [OF read] open_wallet_sealed [OF assms(1-4) j])
qed simp

text \<open>Without faults a save succeeds and a load reads the file.\<close>

lemma no_fault_write: "disk_faults d = [] \<Longrightarrow> fs_write d p bs = (Inr (), put_file p bs d)"
  by (simp add: fs_write_def next_fault_def)

lemma no_fault_rename:
  "disk_faults d = [] \<Longrightarrow> file_at d p = Some bs \<Longrightarrow> fs_rename d p q = (Inr (), put_file q bs (drop_file p d))"
  by (simp add: fs_rename_def next_fault_def)

lemma no_fault_read: "disk_faults d = [] \<Longrightarrow> file_at d p = Some bs \<Longrightarrow> fs_read d p = (Inr bs, d)"
  by (simp add: fs_read_def next_fault_def)

lemma disk_faults_put [simp]: "disk_faults (put_file p bs d) = disk_faults d" "disk_faults (drop_file p d) = disk_faults d"
  by (simp_all add: put_file_def drop_file_def)

lemma no_fault_save:
  assumes "disk_faults d = []" "to_vec J w = Inr json" "aes_encrypt A (derive_key_for_storage H pw) n json = Some c"
  obtains d' where "save_wallet_v2 H A J n d w path pw = (Inr (), d')" "disk_faults d' = []"
    "file_at d' path = Some (wallet_magic @ n @ c)"
proof -
  let ?bs = "wallet_magic @ n @ c" and ?tmp = "path @ ''.tmp''"
  let ?d1 = "put_file ?tmp ?bs d"
  have "fs_rename ?d1 ?tmp path = (Inr (), put_file path ?bs (drop_file ?tmp ?d1))"
    by (rule no_fault_rename) (simp_all add: assms(1))
  then show thesis
    by (intro that [of "put_file path ?bs (drop_file ?tmp ?d1)"])
      (simp_all add: save_wallet_v2_def assms Let_def no_fault_write)
qed

text \<open>A loaded wallet has passed the integrity check, whatever the file held.\<close>

lemma load_wallet_integrity:
  assumes "load_wallet H A J d path pw = (Inr w, d')"
  shows "verify_address_integrity H w"
proof -
  obtain bs d1 where r: "fs_read d path = (Inr bs, d1)"
    using assms by (cases "fs_read d path"; cases "fst (fs_read d path)") (auto simp: load_wallet_def)
  show ?thesis
    using assms
    by (auto simp: load_wallet_def r Let_def res_bind_def split: if_splits sum.splits)
qed

text \<open>The first save function uses a key with the address mixed in: the load asks the cipher to
  open the file with another key, so an authenticated cipher turns it down.\<close>

lemma save_v1_load:
  assumes "length n = 12" "save_wallet H A J n d w path pw = (Inr (), d1)" "disk_faults d1 = []"
    and wrong: "\<And>c. aes_encrypt A (derive_encryption_key H pw (wal_address w)) n (projr (to_vec J w)) = Some c \<Longrightarrow>
      aes_decrypt A (derive_key_for_storage H pw) n c = None"
  shows "load_wallet H A J d1 path pw = (Inl DecryptionFailed, d1)"
  using assms(2)
proof (rule save_wallet_cases)
  fix json c
  assume j: "to_vec J w = Inr json" "aes_encrypt A (derive_encryption_key H pw (wal_address w)) n json = Some c"
    and "replace_file d path (wallet_magic @ n @ c) = (Inr (), d1)"
  then have "fs_read d1 path = (Inr (wallet_magic @ n @ c), d1)"
    using replace_file_outcome(1) no_fault_read [OF assms(3)] by blast
  then show ?thesis
    using wrong [of c] j by (simp add: load_wallet_open open_wallet_magic [OF assms(1)])
qed simp

text \<open>Deleting a wallet removes the file; a deleted or missing wallet is reported as an I/O
  error.\<close>

lemma delete_wallet_outcome:
  assumes "delete_wallet d path = (r, d')"
  shows "r = Inr () \<Longrightarrow> file_at d' path = None" "r \<noteq> Inr () \<Longrightarrow> file_at d' q = file_at d q"
    "q \<noteq> path \<Longrightarrow> file_at d' q = file_at d q"
  using assms next_fault_files [of d]
  by (auto simp: delete_wallet_def fs_remove_file_def split: prod.splits option.splits io_fault.splits)

lemma load_missing:
  "disk_faults d = [] \<Longrightarrow> file_at d path = None \<Longrightarrow> load_wallet H A J d path pw = (Inl (IoError not_found), d)"
  by (simp add: load_wallet_def fs_read_def next_fault_def)

lemma load_truncated:
  "disk_faults d = [] \<Longrightarrow> file_at d path = Some bs \<Longrightarrow> length bs < 26 \<Longrightarrow>
     load_wallet H A J d path pw = (Inl InvalidWalletFile, d)"
  by (simp add: load_wallet_def fs_read_def next_fault_def wallet_magic_def nonce_size_def)

end
