(* ===== verification/Seed.thy ===== *)
theory Seed
  imports Crates
begin

text \<open>
  \<open>src/src/wallet/seed.rs\<close>: seed phrases. The BIP39 word lists, checksums and key stretching
  are the crate bip39, a parameter; the 32 random bytes of a new phrase are an argument. The
  display format is the code's own, with the white space of \<open>split_whitespace\<close> written out on
  UTF-8 bytes.

  The lemmas show that a generated phrase validates and yields its seed, that the keys derived
  for the three domains come from different hash inputs, and that the display form holds each
  word once, numbered from one.
\<close>

record 'm bip39 =
  mn_from_entropy :: "bytes \<Rightarrow> string + 'm"
  mn_parse :: "string \<Rightarrow> string + 'm"
  mn_to_string :: "'m \<Rightarrow> string"
  mn_to_seed :: "'m \<Rightarrow> string \<Rightarrow> bytes"

text \<open>32 bytes of entropy make a mnemonic, the text of a mnemonic parses to it, and a seed has 64
  bytes.\<close>

definition bip39_ok :: "'m bip39 \<Rightarrow> bool" where
  "bip39_ok M \<longleftrightarrow> (\<forall>e. length e = 32 \<longrightarrow> (\<exists>m. mn_from_entropy M e = Inr m))
     \<and> (\<forall>m. mn_parse M (mn_to_string M m) = Inr m) \<and> (\<forall>m p. length (mn_to_seed M m p) = 64)"

definition seed_word_count :: nat where
  "seed_word_count = 24"

text \<open>\<open>None\<close> is the panic of \<open>expect\<close>.\<close>

definition generate_seed_phrase :: "'m bip39 \<Rightarrow> bytes \<Rightarrow> string option" where
  "generate_seed_phrase M entropy =
     (case mn_from_entropy M entropy of Inl _ \<Rightarrow> None | Inr m \<Rightarrow> Some (mn_to_string M m))"

definition seed_from_phrase :: "'m bip39 \<Rightarrow> string \<Rightarrow> string \<Rightarrow> string + bytes" where
  "seed_from_phrase M phrase passphrase =
     res_bind (map_err (\<lambda>e. ''Invalid seed phrase: '' @ e) (mn_parse M phrase))
       (\<lambda>m. Inr (mn_to_seed M m passphrase))"

definition validate_seed_phrase :: "'m bip39 \<Rightarrow> string \<Rightarrow> bool" where
  "validate_seed_phrase M phrase = (case mn_parse M phrase of Inl _ \<Rightarrow> False | Inr _ \<Rightarrow> True)"

definition derive_key_seed :: "hashing \<Rightarrow> bytes \<Rightarrow> string \<Rightarrow> bytes" where
  "derive_key_seed H master_seed domain = sha3_256_digest H (master_seed @ domain)"

section \<open>Splitting at white space\<close>

text \<open>How many bytes of white space the text starts with: the code points with the Unicode
  property White_Space.\<close>

definition ws_len :: "string \<Rightarrow> nat" where
  "ws_len s = (case map (of_char :: char \<Rightarrow> nat) (take 3 s) of
       [] \<Rightarrow> 0
     | a # r \<Rightarrow>
         if 9 \<le> a \<and> a \<le> 13 \<or> a = 32 then 1
         else if a = 0xC2 \<and> r \<noteq> [] \<and> (r ! 0 = 0x85 \<or> r ! 0 = 0xA0) then 2
         else if length r = 2 \<and>
             (a = 0xE1 \<and> r = [0x9A, 0x80]
              \<or> a = 0xE2 \<and> r ! 0 = 0x80 \<and> (0x80 \<le> r ! 1 \<and> r ! 1 \<le> 0x8A \<or> r ! 1 = 0xA8 \<or> r ! 1 = 0xA9 \<or> r ! 1 = 0xAF)
              \<or> a = 0xE2 \<and> r = [0x81, 0x9F] \<or> a = 0xE3 \<and> r = [0x80, 0x80]) then 3
         else 0)"

text \<open>\<open>w\<close> holds the bytes of the current word; empty words are dropped.\<close>

function split_ws :: "string \<Rightarrow> string \<Rightarrow> string list" where
  "split_ws w [] = (if w = [] then [] else [w])"
| "split_ws w (c # cs) =
     (let n = ws_len (c # cs) in
      if n = 0 then split_ws (w @ [c]) cs
      else if w = [] then split_ws [] (drop n (c # cs))
      else w # split_ws [] (drop n (c # cs)))"
  by pat_completeness auto
termination by (relation "measure (\<lambda>(w, s). length s)") auto

definition split_whitespace :: "string \<Rightarrow> string list" where
  "split_whitespace s = split_ws [] s"

fun join_with :: "string \<Rightarrow> string list \<Rightarrow> string" where
  "join_with sep [] = []"
| "join_with sep [x] = x"
| "join_with sep (x # y # ys) = x @ sep @ join_with sep (y # ys)"

definition format_seed_phrase_for_display :: "string \<Rightarrow> string" where
  "format_seed_phrase_for_display phrase =
     join_with ''  ''
       (map (\<lambda>(i, word). dec_string (i + 1) @ ''. '' @ word) (enumerate 0 (split_whitespace phrase)))"

section \<open>Phrases and keys\<close>

lemma generated_phrase_restores:
  assumes "bip39_ok M" "length e = 32"
  obtains p m where "generate_seed_phrase M e = Some p" "validate_seed_phrase M p"
    "mn_from_entropy M e = Inr m" "seed_from_phrase M p pw = Inr (mn_to_seed M m pw)"
    "length (mn_to_seed M m pw) = 64"
proof -
  obtain m where m: "mn_from_entropy M e = Inr m" using assms by (auto simp: bip39_ok_def)
  have p: "mn_parse M (mn_to_string M m) = Inr m" and l: "length (mn_to_seed M m pw) = 64"
    using assms(1) by (simp_all add: bip39_ok_def)
  show thesis
    by (rule that [of "mn_to_string M m" m])
      (simp_all add: generate_seed_phrase_def validate_seed_phrase_def seed_from_phrase_def m p l)
qed

lemma seed_from_phrase_iff: "(\<exists>s. seed_from_phrase M p pw = Inr s) \<longleftrightarrow> validate_seed_phrase M p"
  by (auto simp: seed_from_phrase_def validate_seed_phrase_def split: sum.splits)

text \<open>For master seeds of one length, different domains or seeds give different keys, up to a
  collision of the two inputs.\<close>

lemma derive_key_seed_separates:
  assumes "derive_key_seed H s d = derive_key_seed H s' d'" "length s = length s'"
    and "collision_free H {s @ d, s' @ d'}"
  shows "s = s' \<and> d = d'"
proof -
  have "s @ d = s' @ d'"
    by (rule collision_freeD [OF assms(3)]) (use assms(1) in \<open>simp_all add: derive_key_seed_def\<close>)
  with assms(2) show ?thesis by simp
qed

section \<open>The display form\<close>

definition ascii_word :: "string \<Rightarrow> bool" where
  "ascii_word w \<longleftrightarrow> w \<noteq> [] \<and> (\<forall>c \<in> set w. 32 < (of_char c :: nat) \<and> (of_char c :: nat) < 128)"

lemma ws_len_ascii: "32 < (of_char c :: nat) \<Longrightarrow> (of_char c :: nat) < 128 \<Longrightarrow> ws_len (c # cs) = 0"
  by (simp add: ws_len_def)

lemma ws_len_space: "ws_len (CHR '' '' # cs) = 1"
  by (simp add: ws_len_def)

lemma split_ws_chars:
  "\<forall>c \<in> set v. 32 < (of_char c :: nat) \<and> (of_char c :: nat) < 128 \<Longrightarrow> split_ws w (v @ s) = split_ws (w @ v) s"
proof (induction v arbitrary: w)
  case (Cons c v)
  then show ?case by (simp add: ws_len_ascii Let_def)
qed simp

lemma split_ws_spaces: "split_ws [] (replicate n (CHR '' '') @ s) = split_ws [] s"
  by (induction n) (simp_all add: ws_len_space Let_def)

text \<open>Words come apart at any run of spaces.\<close>

lemma split_ws_word:
  assumes "ascii_word v"
  shows "split_ws [] v = [v]"
    "split_ws [] (v @ replicate (Suc n) (CHR '' '') @ s) = v # split_ws [] s"
  using assms split_ws_chars [of v "[]" "[]"] split_ws_chars [of v "[]" "replicate (Suc n) (CHR '' '') @ s"]
  by (simp_all add: ascii_word_def ws_len_space Let_def split_ws_spaces)

lemma split_join:
  "\<forall>w \<in> set ws. ascii_word w \<Longrightarrow> split_whitespace (join_with (replicate (Suc n) (CHR '' '')) ws) = ws"
  unfolding split_whitespace_def
proof (induction ws rule: induct_list012)
  case (3 x y zs)
  then show ?case using split_ws_word(2) [of x n "join_with (replicate (Suc n) (CHR '' '')) (y # zs)"] by simp
qed (simp_all add: split_ws_word)

lemma join_append: "ys \<noteq> [] \<Longrightarrow> join_with sep (x # ys) = x @ sep @ join_with sep ys"
  by (cases ys) simp_all

lemma ascii_number: "ascii_word (dec_string n @ ''.'')"
proof -
  have "32 < (of_char c :: nat) \<and> (of_char c :: nat) < 128" if "c \<in> set (dec_string n)" for c
    using set_dec_string [OF that] by (auto simp: of_char_digit_char)
  then show ?thesis by (auto simp: ascii_word_def)
qed

lemma split_display_from:
  assumes "\<forall>w \<in> set ws. ascii_word w"
  shows "split_ws [] (join_with ''  '' (map (\<lambda>(i, word). dec_string (i + 1) @ ''. '' @ word) (enumerate k ws)))
    = concat (map (\<lambda>(i, word). [dec_string (i + 1) @ ''.'', word]) (enumerate k ws))"
  using assms
proof (induction ws arbitrary: k)
  case (Cons w ws)
  let ?f = "\<lambda>(i, word). dec_string (i + 1) @ ''. '' @ word"
  have w: "ascii_word w" using Cons.prems by simp
  note num = split_ws_word(2) [OF ascii_number [of "k + 1"], of 0]
  show ?case
  proof (cases ws)
    case Nil
    then show ?thesis using num [of w] by (simp add: split_ws_word(1) [OF w])
  next
    case (Cons v vs)
    let ?rest = "join_with ''  '' (map ?f (enumerate (Suc k) ws))"
    have "join_with ''  '' (map ?f (enumerate k (w # ws)))
        = (dec_string (k + 1) @ ''.'') @ '' '' @ w @ ''  '' @ ?rest"
      using Cons by (simp add: join_append)
    then show ?thesis
      using num [of "w @ ''  '' @ ?rest"] split_ws_word(2) [OF w, of 1 ?rest] Cons.IH [of "Suc k"] Cons.prems
      by simp
  qed
qed simp

lemma display_splits:
  assumes "\<forall>w \<in> set ws. ascii_word w"
  shows "split_whitespace (format_seed_phrase_for_display (join_with '' '' ws))
    = concat (map (\<lambda>(i, word). [dec_string (i + 1) @ ''.'', word]) (enumerate 0 ws))"
  using split_join [OF assms, of 0] split_display_from [OF assms, of 0]
  by (simp add: format_seed_phrase_for_display_def split_whitespace_def)

end
