(* ===== verification/Reference_Crypto.thy ===== *)
theory Reference_Crypto
  imports Wallet_Storage Seed Reference
begin

text \<open>
  Concrete instances of the parameters of the crypto and wallet theories, as in \<open>Reference\<close>:
  keys and signatures are byte strings, a signature carries the message and the key, a
  ciphertext carries its key. They satisfy the laws and make the witnesses concrete; they are no
  model of the crates and have no counterpart in the source.
\<close>

definition ref_sig :: "(bytes, bytes, bytes) sig_scheme" where
  "ref_sig = \<lparr>sig_pk_as_bytes = id, sig_pk_from_bytes = Inr, sig_sk_as_bytes = id, sig_sk_from_bytes = Inr,
     sig_as_bytes = id, sig_from_bytes = Inr, sig_detached_sign = (\<lambda>rnd msg sk. msg @ sk),
     sig_verify_detached = (\<lambda>sg msg pk. sg = msg @ pk), sig_matching = (=)\<rparr>"

definition ref_kem :: "(bytes, bytes, bytes, bytes) kem_scheme" where
  "ref_kem = \<lparr>kem_pk_as_bytes = id, kem_pk_from_bytes = Inr, kem_sk_as_bytes = id, kem_sk_from_bytes = Inr,
     kem_ct_as_bytes = id, kem_ct_from_bytes = Inr, kem_ss_as_bytes = id,
     kem_encapsulate = (\<lambda>rnd pk. (rnd @ pk, rnd)), kem_decapsulate = (\<lambda>ct sk. ct @ sk), kem_matching = (=)\<rparr>"

definition ref_aead :: aead where
  "ref_aead = \<lparr>aes_encrypt = (\<lambda>k n m. Some (k @ m)),
     aes_decrypt = (\<lambda>k n c. if starts_with k c then Some (drop (length k) c) else None)\<rparr>"

definition ref_bip39 :: "bytes bip39" where
  "ref_bip39 = \<lparr>mn_from_entropy = Inr, mn_parse = ref_hex_decode, mn_to_string = ref_hex_encode,
     mn_to_seed = (\<lambda>m p. take 64 (m @ p @ replicate 64 (CHR 0x00)))\<rparr>"

definition enc_wallet :: "kyvera_wallet \<Rightarrow> string list" where
  "enc_wallet w = [wal_address w, kp_public_key (wal_signing_keypair w), kp_secret_key (wal_signing_keypair w),
     kb_public_key (wal_network_keypair w), kb_secret_key (wal_network_keypair w),
     sp_public_key (wal_epoch_keypair w), sp_secret_key (wal_epoch_keypair w), wal_label w,
     enc_int (wal_created_at w)]"

fun dec_wallet :: "string list \<Rightarrow> kyvera_wallet option" where
  "dec_wallet [a, dp, ds, kp, ks, sp, ss, l, t] = Some \<lparr>wal_address = a,
     wal_signing_keypair = \<lparr>kp_public_key = dp, kp_secret_key = ds\<rparr>,
     wal_network_keypair = \<lparr>kb_public_key = kp, kb_secret_key = ks\<rparr>,
     wal_epoch_keypair = \<lparr>sp_public_key = sp, sp_secret_key = ss\<rparr>, wal_label = l,
     wal_created_at = dec_int t\<rparr>"
| "dec_wallet _ = None"

text \<open>JSON text is UTF-8, so the fields are written in hexadecimal.\<close>

definition ref_wallet_json :: "kyvera_wallet codec" where
  "ref_wallet_json =
     \<lparr>to_vec = (\<lambda>w. Inr (ref_hex_encode (enc_list (enc_wallet w)))),
      from_slice = (\<lambda>bs. res_bind (ref_hex_decode bs) (\<lambda>fs. ok_or (dec_wallet (unesc [] fs)) ''bad encoding''))\<rparr>"

lemma ref_sig_ok: "sig_ok ref_sig"
  by (simp add: sig_ok_def ref_sig_def)

lemma ref_kem_ok: "kem_ok ref_kem"
  by (simp add: kem_ok_def ref_kem_def)

lemma aead_prefix: "starts_with p (p @ r)"
  by (simp add: starts_with_def)

lemma ref_aead_ok: "aead_ok ref_aead"
  by (simp add: aead_ok_def ref_aead_def aead_prefix)

lemma ref_bip39_ok: "bip39_ok ref_bip39"
  by (auto simp: bip39_ok_def ref_bip39_def ref_hex_roundtrip min_def)

lemma dec_enc_wallet: "dec_wallet (enc_wallet w) = Some w"
  by (simp add: enc_wallet_def)

lemma ref_hex_utf8: "utf8_valid (ref_hex_encode bs)"
  using hex_encode_valid [OF ref_hashing_ok] by (simp add: ref_hashing_def)

lemma ref_wallet_json_ok: "json_text_ok ref_wallet_json" "codec_total ref_wallet_json"
  by (auto simp: json_text_ok_def codec_ok_def codec_total_def ref_wallet_json_def ref_hex_roundtrip
    ref_hex_utf8 dec_enc_wallet)

lemma ref_matching: "sig_matching ref_sig k k" "kem_matching ref_kem k k"
  by (simp_all add: ref_sig_def ref_kem_def)

lemma ref_kp_good: "kp_good ref_hashing ref_sig (kp_generate ref_sig (k, k))"
  using ref_hashing_ok ref_sig_ok ref_matching(1) unfolding kp_good_def by blast

lemma ref_sp_good: "sp_good ref_hashing ref_sig (sp_generate ref_sig (k, k))"
  using ref_hashing_ok ref_sig_ok ref_matching(1) unfolding sp_good_def by blast

end
