(* ===== verification/Client_Properties.thy ===== *)
theory Client_Properties
  imports Demo Pool Dynamic_Fees Wallet_Storage Seed Reference_Crypto
begin

text \<open>
  The properties of what a client uses: the mempool, fees, signatures, built transactions on their
  way from a wallet into a block's state, and wallet files. Witnesses use the in-memory backend and
  the reference hash and signature schemes.
\<close>

section \<open>The mempool\<close>

text \<open>C29. Whatever sequence of submissions and removals a pool has seen, its three indexes agree: it
  holds at most 50000 transactions, no two with one hash or with one sender and nonce, the fee
  index lists exactly their keys in strictly ascending order, and the pending nonces are theirs.\<close>

theorem pool_always_consistent:
  assumes "backend_ok B" "pool_run B m"
  shows "pool_len m \<le> 50000
    \<and> (\<forall>t \<in> pool_txs m. \<forall>u \<in> pool_txs m.
         tx_hash t = tx_hash u \<or> tx_sender t = tx_sender u \<and> tx_nonce t = tx_nonce u \<longrightarrow> t = u)
    \<and> set (pool_fee_index m) = fee_key_of ` pool_txs m \<and> sorted_wrt (<) (pool_fee_index m)
    \<and> pool_pending_nonces m = nonce_key ` pool_txs m"
proof -
  have ok: "mempool_ok m" by (rule pool_run_ok [OF assms])
  then have idx: "indexes_ok m" and len: "pool_len m \<le> 50000"
    by (simp_all add: mempool_ok_def max_mempool_size_def)
  have "t = u" if "t \<in> pool_txs m" "u \<in> pool_txs m"
    "tx_hash t = tx_hash u \<or> tx_sender t = tx_sender u \<and> tx_nonce t = tx_nonce u" for t u
    using that inj_onD [OF tx_hash_inj [OF idx]] pool_nonces_unique [OF ok] by blast
  then show ?thesis
    using len indexes_okD(3,4) [OF idx] by (auto simp: fee_order.index_of_def)
qed

theorem pool_always_consistent_witness:
  "pool_len (snd (add_transaction mem_backend two_db mempool_new alice_pays_bob)) \<le> 50000"
  using pool_always_consistent [OF mem_backend_ok pool_run.submit [OF pool_run.start, of mem_backend two_db alice_pays_bob]]
  by blast

lemma add_transaction_any_time:
  "fst (add_transaction B db m (tx\<lparr>tx_timestamp := time\<rparr>)) = fst (add_transaction B db m tx)"
proof -
  let ?tx = "tx\<lparr>tx_timestamp := time\<rparr>"
  have same: "validate_structure ?tx = validate_structure tx" "required_balance ?tx = required_balance tx"
    by (simp_all add: validate_structure_def required_balance_def cong: transaction_type.case_cong)
  have tail: "fst (st_bind X (\<lambda>_ m. (Inr (), pool_insert m ?tx))) = fst (st_bind X (\<lambda>_ m. (Inr (), pool_insert m tx)))"
    for X :: "(mempool_error + unit) \<times> mempool"
    by (cases X; cases "fst X") auto
  show ?thesis
    by (simp add: add_transaction_def same)
      (auto simp: read_bind_def Let_def tail cong: option.case_cong split: sum.split)
qed

text \<open>C30. Admission is decided by the listed checks: with a readable account store, a transaction is
  admitted exactly when its fields are filled in, its hash and its sender and nonce are not pooled,
  the balance on chain covers it, its nonce is the account's (or another of the sender is pending),
  and there is room or a pooled transaction with a lower fee. The timestamp has no part in it: with
  any other the call has the same result, although a comment in \<open>types/transaction.rs\<close> says that
  nodes reject transactions too far in the past or future. A refusal leaves the pool as it is;
  after an admission the pool is consistent, finds the transaction by its hash and has lost nothing,
  except that a full pool gives up one transaction of lowest fee, which pays strictly less.\<close>

theorem admission_is_decided:
  assumes "backend_total B" "accounts_readable B db" "mempool_ok m"
  shows "(fst (add_transaction B db m tx) = Inr () \<longleftrightarrow>
      tx_hash tx \<noteq> [] \<and> tx_signature tx \<noteq> [] \<and> tx_sender tx \<noteq> [] \<and> tx_receiver tx \<noteq> []
      \<and> tx_hash tx \<notin> tx_hash ` pool_txs m \<and> nonce_key tx \<notin> nonce_key ` pool_txs m
      \<and> required_balance tx \<le> acc_balance (account_at (ledger B db) (tx_sender tx))
      \<and> (tx_sender tx \<in> tx_sender ` pool_txs m \<or> tx_nonce tx = acc_nonce (account_at (ledger B db) (tx_sender tx)))
      \<and> (pool_len m < 50000 \<or> (\<exists>t \<in> pool_txs m. tx_fee t < tx_fee tx)))
    \<and> fst (add_transaction B db m (tx\<lparr>tx_timestamp := time\<rparr>)) = fst (add_transaction B db m tx)
    \<and> (fst (add_transaction B db m tx) \<noteq> Inr () \<longrightarrow> snd (add_transaction B db m tx) = m)
    \<and> (\<forall>m'. add_transaction B db m tx = (Inr (), m') \<longrightarrow>
         mempool_ok m' \<and> pool_get m' (tx_hash tx) = Some tx
         \<and> (pool_txs m' = insert tx (pool_txs m)
            \<or> (\<exists>low \<in> pool_txs m. pool_len m = 50000 \<and> tx_fee low < tx_fee tx
                \<and> (\<forall>t \<in> pool_txs m. tx_fee low \<le> tx_fee t) \<and> pool_txs m' = insert tx (pool_txs m - {low}))))"
proof -
  have "snd (add_transaction B db m tx) = m" if "fst (add_transaction B db m tx) \<noteq> Inr ()"
    using that add_transaction_rejects [of B db m tx] by (cases "add_transaction B db m tx"; cases "fst (add_transaction B db m tx)") auto
  then show ?thesis
    unfolding add_transaction_any_time add_transaction_iff [OF assms] admissible_def admitted_fields_def
      sender_account_def max_mempool_size_def
    using add_transaction_admits [OF backend_total_ok [OF assms(1)] assms(3), of db tx, unfolded max_mempool_size_def]
    by blast
qed

theorem admission_is_decided_witness:
  "fst (add_transaction mem_backend two_db mempool_new alice_pays_bob) = Inr ()
     \<and> fst (add_transaction mem_backend two_db mempool_new (alice_pays_bob\<lparr>tx_nonce := 9\<rparr>)) \<noteq> Inr ()"
proof -
  note d = admission_is_decided [OF two_backend_readable mempool_new_ok]
  have "required_balance alice_pays_bob \<le> acc_balance alice"
    using alice_admissible by (simp add: admissible_def sender_account_def two_account alice_pays_bob_def)
  then show ?thesis
    using d [of alice_pays_bob] d [of "alice_pays_bob\<lparr>tx_nonce := 9\<rparr>"] two_account(1)
    by (simp add: alice_pays_bob_def) (simp add: alice_def)
qed

text \<open>What an admission does, on its own: it needs no law about reads.\<close>

lemma admission_replaces_cheapest:
  assumes "backend_ok B" "mempool_ok m" "add_transaction B db m tx = (Inr (), m')"
  shows "mempool_ok m' \<and> pool_get m' (tx_hash tx) = Some tx
    \<and> (pool_txs m' = insert tx (pool_txs m)
       \<or> (\<exists>low \<in> pool_txs m. pool_len m = max_mempool_size \<and> tx_fee low < tx_fee tx
           \<and> (\<forall>t \<in> pool_txs m. tx_fee low \<le> tx_fee t) \<and> pool_txs m' = insert tx (pool_txs m - {low})))"
  using add_transaction_admits [OF assms] by blast

text \<open>C31. The block producer's selection is the best by fee: as many transactions as asked for or the
  whole pool, in descending order of fee, all of them from the pool, and none left out pays more
  than one selected.\<close>

theorem selection_is_best_by_fee:
  assumes "mempool_ok m"
  shows "length (top_by_fee m n) = min n (pool_len m)
    \<and> set (top_by_fee m n) \<subseteq> pool_txs m \<and> sorted_wrt (\<lambda>t u. tx_fee u \<le> tx_fee t) (top_by_fee m n)
    \<and> (\<forall>t \<in> pool_txs m - set (top_by_fee m n). \<forall>u \<in> set (top_by_fee m n). tx_fee t \<le> tx_fee u)"
proof -
  have "indexes_ok m" using assms by (simp add: mempool_ok_def)
  then show ?thesis using top_by_fee_best [OF assms] top_by_fee_keys(2) by blast
qed

theorem selection_is_best_by_fee_witness:
  "\<exists>m'. add_transaction mem_backend two_db mempool_new alice_pays_bob = (Inr (), m')
     \<and> length (top_by_fee m' 5) = 1"
proof -
  obtain m' where a: "add_transaction mem_backend two_db mempool_new alice_pays_bob = (Inr (), m')"
    by (rule add_transaction_accepts [OF two_backend_readable mempool_new_ok alice_admissible])
  note ad = add_transaction_admits [OF mem_backend_ok mempool_new_ok a]
  have "pool_len m' = 1"
    using ad(1,3) card_pool_txs [of m'] by (simp add: mempool_ok_def)
  with selection_is_best_by_fee [OF ad(1), of 5] a show ?thesis by simp
qed

section \<open>Fees\<close>

text \<open>C32. A fee is split without loss: for every fee the three parts add up to it. While \<open>fee * 5000\<close> is
  below \<open>2 ^ 64\<close>, the three places that pay the parts agree: the treasury part of the split is what
  applying a transaction credits to the treasury, the validator part is what the epoch rewards
  distribute, and the burned rest is half of the fee up to two units. Above that the products wrap
  and the agreement fails: of \<open>2 ^ 62\<close> units the split burns everything, while applying the
  transaction credits a tenth.\<close>

theorem fee_split_agrees:
  "\<exists>burn validator treasury. calculate_fee_split fee = (burn, validator, treasury)
    \<and> unat burn + unat validator + unat treasury = unat fee
    \<and> (unat fee * 5000 < 2 ^ 64 \<longrightarrow>
        validator = calculate_validator_fee_share fee \<and> treasury = fee div 10
        \<and> unat fee div 2 \<le> unat burn \<and> unat burn \<le> unat fee div 2 + 2
        \<and> (0 < treasury \<longrightarrow> apply_fee_split B db fee = credit_account B db fee_treasury_address treasury))
    \<and> calculate_fee_split (2 ^ 62) = (2 ^ 62, 0, 0)
    \<and> apply_fee_split B db (2 ^ 62) = credit_account B db fee_treasury_address (2 ^ 62 div 10)"
proof -
  obtain burn v t where s: "calculate_fee_split fee = (burn, v, t)" by (metis prod_cases3)
  have "v = calculate_validator_fee_share fee \<and> t = fee div 10 \<and> unat fee div 2 \<le> unat burn \<and> unat burn \<le> unat fee div 2 + 2"
    if fits: "unat fee * 5000 < 2 ^ 64"
  proof -
    note x = calculate_fee_split_exact [OF fits s]
    have "unat v = unat (calculate_validator_fee_share fee)"
      using calculate_validator_fee_share_exact [of fee] fits x(1) by simp
    moreover have "unat t = unat (fee div 10)" using x(2) by (simp add: unat_div)
    ultimately show ?thesis using x(3,4) by (simp add: word_unat_eq_iff)
  qed
  moreover have "calculate_fee_split (2 ^ 62) = (2 ^ 62, 0, 0)" by code_simp
  moreover have "apply_fee_split B db f = credit_account B db fee_treasury_address (f div 10)" if "0 < f div 10" for f
    using that by (simp add: apply_fee_split_def)
  moreover have "(0 :: u64) < 2 ^ 62 div 10" by (simp add: word_less_nat_alt)
  ultimately show ?thesis using s calculate_fee_split_sum [OF s] by blast
qed

theorem fee_split_agrees_witness:
  "\<exists>burn. calculate_fee_split 1001 = (burn, 400, 100) \<and> unat burn = 501"
proof -
  have "unat (1001 :: u64) * 5000 < 2 ^ 64" by simp
  moreover have "calculate_validator_fee_share 1001 = 400" by (simp add: calculate_validator_fee_share_def)
  ultimately obtain burn where "calculate_fee_split 1001 = (burn, 400, 100)" "unat burn + 400 + 100 = 1001"
    using fee_split_agrees [of 1001 mem_backend two_db] by auto
  then show ?thesis by auto
qed

text \<open>C33. The dynamic fee stays in its bounds, rounding included: after any number of epochs, each with a
  utilization between 0 and 1, the multiplier is a number between 1 and 100, the next epoch does not
  lower it at a utilization of at least one half nor raise it at one of at most one half, and the
  effective fee of every transaction type is at least its minimum and at most 100 times that.\<close>

theorem dynamic_fees_bounded:
  assumes "\<forall>u \<in> set us. 0 \<le> u \<and> u \<le> 1" "0 \<le> v" "v \<le> 1"
  shows "\<exists>m m'. foldl (\<lambda>x u. adjust_base_fee_multiplier (F64_Fin False u) x) (f64_lit 1) us = F64_Fin False m
    \<and> adjust_base_fee_multiplier (F64_Fin False v) (F64_Fin False m) = F64_Fin False m'
    \<and> 1 \<le> m \<and> m \<le> 100 \<and> (1 / 2 \<le> v \<longrightarrow> m \<le> m') \<and> (v \<le> 1 / 2 \<longrightarrow> m' \<le> m)
    \<and> minimum_fee ty \<le> effective_minimum_fee ty (F64_Fin False m)
    \<and> unat (effective_minimum_fee ty (F64_Fin False m)) \<le> 100 * unat (minimum_fee ty)"
proof -
  obtain m where m: "foldl (\<lambda>x u. adjust_base_fee_multiplier (F64_Fin False u) x) (f64_lit 1) us = F64_Fin False m"
    "f64_mag m" "1 \<le> m" "m \<le> 100"
    by (rule fee_epochs_bounds [OF assms(1)])
  obtain m' where "adjust_base_fee_multiplier (F64_Fin False v) (F64_Fin False m) = F64_Fin False m'"
    "1 / 2 \<le> v \<longrightarrow> m \<le> m'" "v \<le> 1 / 2 \<longrightarrow> m' \<le> m"
    by (rule adjust_base_fee_multiplier_bounds [OF assms(2,3) m(2-4)])
  with m effective_minimum_fee_bounds [OF m(3,4)] show ?thesis by blast
qed

theorem dynamic_fees_bounded_witness:
  "\<exists>m. foldl (\<lambda>x u. adjust_base_fee_multiplier (F64_Fin False u) x) (f64_lit 1) [1, 0, 3 / 4] = F64_Fin False m
    \<and> 1 \<le> m \<and> m \<le> 100"
  using dynamic_fees_bounded [of "[1, 0, 3 / 4]" 1 Transfer] by auto

section \<open>Signatures and built transactions\<close>

text \<open>C34. What an identity signs verifies under its own keys: a transaction bound to its nonce with the
  Dilithium key, and an epoch block with the SPHINCS+ key, each through the hexadecimal form of
  the signature and of the public key.\<close>

theorem identity_signatures_verify:
  assumes "kp_good H D (id_signing_keypair ident)" "sp_good H S (id_epoch_keypair ident)"
  shows "\<exists>g s. sign_transaction H D rnd ident m n = Inr g
    \<and> verify_transaction_signature H D m n (ks_to_hex H g) (kp_public_key_hex H (id_signing_keypair ident))
    \<and> sign_epoch_block S rnd ident blk = Inr s
    \<and> verify_epoch_block_signature H S blk (ss_to_hex H s) (sp_public_key_hex H (id_epoch_keypair ident))"
proof -
  obtain g where "sign_transaction H D rnd ident m n = Inr g"
    "verify_transaction_signature H D m n (ks_to_hex H g) (kp_public_key_hex H (id_signing_keypair ident))"
    by (rule signed_transaction_verifies [OF assms(1)])
  moreover obtain s where "sign_epoch_block S rnd ident blk = Inr s"
    "verify_epoch_block_signature H S blk (ss_to_hex H s) (sp_public_key_hex H (id_epoch_keypair ident))"
    by (rule signed_epoch_block_verifies [OF assms(2)])
  ultimately show ?thesis by blast
qed

definition demo_identity :: kyvera_identity where
  "demo_identity = identity_generate ref_hashing ref_sig ref_kem ref_sig (''key'', ''key'') (''net'', ''net'') (''epoch'', ''epoch'')"

theorem identity_signatures_verify_witness:
  "\<exists>g. sign_transaction ref_hashing ref_sig [] demo_identity ''payload'' (nonce_new 5 7 ''state'') = Inr g
     \<and> verify_transaction_signature ref_hashing ref_sig ''payload'' (nonce_new 5 7 ''state'') (ks_to_hex ref_hashing g)
         (kp_public_key_hex ref_hashing (id_signing_keypair demo_identity))"
proof -
  have "kp_good ref_hashing ref_sig (id_signing_keypair demo_identity)"
    "sp_good ref_hashing ref_sig (id_epoch_keypair demo_identity)"
    by (simp_all add: demo_identity_def identity_generate_def Let_def ref_kp_good ref_sp_good)
  from identity_signatures_verify [OF this, of "[]" "''payload''" "nonce_new 5 7 ''state''"] show ?thesis by blast
qed

text \<open>The signature of a built transaction is not empty when the scheme's signatures are not.\<close>

lemma built_signature_nonempty:
  assumes "sig_ok D" "hashing_ok H" "sign_and_seal H D J rnd now_ms (kp_generate D (pk, sk)) sh tx = Inr tx'"
    and "\<And>msg. sig_as_bytes D (sig_detached_sign D rnd msg sk) \<noteq> []"
  shows "tx_signature tx' \<noteq> []"
proof -
  obtain p sg where "kp_sign D rnd (kp_generate D (pk, sk)) (bind_message_to_nonce H p (nonce_new now_ms (tx_nonce tx) sh)) = Inr sg"
    and tx': "tx' = seal H tx sg"
    using assms(3) unfolding sign_and_seal_def by (auto elim!: res_bind_InrE)
  then obtain msg where "ks_signature_bytes sg = sig_as_bytes D (sig_detached_sign D rnd msg sk)"
    by (auto simp: kp_sign_def kp_generate_def sig_okD [OF assms(1)] Let_def)
  then have "0 < length (ks_to_hex H sg)"
    using assms(4) hex_encode_length [OF assms(2)] by (simp add: ks_to_hex_def)
  then show ?thesis by (simp add: tx')
qed

text \<open>C35. From the wallet to the ledger, which holds less than \<open>2 ^ 64\<close> units: a transfer that a generated wallet builds for a valid address,
  covered by its account on chain and with the account's nonce, is signed so that it verifies under
  the wallet's public key, is admitted to every pool that has room, nothing pending of the sender
  and not its hash, and can be applied to the state.\<close>

theorem built_transfer_is_executed:
  assumes "hashing_ok H" "sig_ok D" "sig_matching D pk sk" "\<And>msg. sig_as_bytes D (sig_detached_sign D rnd msg sk) \<noteq> []"
    and "codec_total J" "w = wallet_generate H D K S (pk, sk) kpair spair created label"
    and "amount \<noteq> 0" "validate_address r"
    and "store_ready B db" "ledger_funds (ledger B db) < 2 ^ 64"
    and "ledger B db (wal_address w) = Some a" "unat amount + unat fee \<le> unat (acc_balance a)"
  shows "\<exists>tx. build_transfer H D J rnd now now_ms w r amount fee (acc_nonce a) sh = Inr tx
    \<and> wallet_signed H D J now_ms sh (wallet_public_key_hex H w) tx
    \<and> (\<forall>m. mempool_ok m \<and> pool_len m < max_mempool_size \<and> wal_address w \<notin> tx_sender ` pool_txs m
         \<and> tx_hash tx \<notin> tx_hash ` pool_txs m \<longrightarrow> fst (add_transaction B db m tx) = Inr ())
    \<and> (\<exists>db'. apply_transaction B db tx = (Inr (), db'))"
proof -
  let ?tx = "transaction_new now (wal_address w) r amount fee (acc_nonce a) Transfer []"
  note rd = store_readyD [OF assms(9)]
  have kp: "wal_signing_keypair w = kp_generate D (pk, sk)"
    and addr: "wal_address w = kp_address H (kp_generate D (pk, sk))"
    by (simp_all add: assms(6) wallet_generate_def Let_def)
  have good: "kp_good H D (wal_signing_keypair w)"
    unfolding assms(6) by (rule wallet_generate_good [OF assms(1-3)])
  obtain tx where s: "sign_and_seal H D J rnd now_ms (wal_signing_keypair w) sh ?tx = Inr tx" "unsigned tx = ?tx"
    "canonical_hash H tx" "wallet_signed H D J now_ms sh (kp_public_key_hex H (wal_signing_keypair w)) tx"
    by (rule sign_and_seal_verifies [OF good assms(5) unsigned_new])
  have f: "tx_sender tx = wal_address w" "tx_receiver tx = r" "tx_amount tx = amount" "tx_fee tx = fee"
    "tx_nonce tx = acc_nonce a" "tx_type tx = Transfer"
    using arg_cong [OF s(2), of tx_sender] arg_cong [OF s(2), of tx_receiver] arg_cong [OF s(2), of tx_amount]
      arg_cong [OF s(2), of tx_fee] arg_cong [OF s(2), of tx_nonce] arg_cong [OF s(2), of tx_type]
    by (simp_all add: unsigned_def transaction_new_def)
  have at: "account_at (ledger B db) (wal_address w) = a" by (simp add: account_at_def assms(11))
  have len: "length (tx_hash tx) = 64" "length (wal_address w) = 68" "length r = 68"
    using canonical_hash_nonempty [OF assms(1) s(3)] kp_address_length [OF assms(1)] validate_address_length [OF assms(8)]
    by (simp_all add: addr)
  then have "tx_hash tx \<noteq> []" "wal_address w \<noteq> []" "r \<noteq> []" by auto
  then have fields: "admitted_fields tx"
    using built_signature_nonempty [OF assms(2,1) s(1) [unfolded kp] assms(4)] by (simp add: admitted_fields_def f)
  have req: "required_balance tx \<le> acc_balance a"
    using assms(12) by (simp add: required_balance_def f word_le_nat_alt unat_saturating_add)
  have "admissible B db m tx" if "pool_len m < max_mempool_size" "wal_address w \<notin> tx_sender ` pool_txs m"
    "tx_hash tx \<notin> tx_hash ` pool_txs m" for m
    using that fields req by (auto simp: admissible_def sender_account_def f at nonce_key_def image_iff)
  then have admit: "fst (add_transaction B db m tx) = Inr ()" if "mempool_ok m" "pool_len m < max_mempool_size"
    "wal_address w \<notin> tx_sender ` pool_txs m" "tx_hash tx \<notin> tx_hash ` pool_txs m" for m
    using that add_transaction_iff [OF rd(1) _ that(1)] assms(9) by (simp add: store_ready_def)
  obtain L' where "ledger_apply (ledger B db) tx = Some L'"
    using ledger_apply_Some_iff [OF finite_ledger [OF rd(2)] assms(10), of tx] assms(12)
    by (auto simp: f at charge_def)
  then obtain db' where "apply_transaction B db tx = (Inr (), db')" by (rule ready_apply [OF assms(9)])
  then show ?thesis
    using builders_sign_and_seal(1) [OF assms(7,8), of H D J rnd now now_ms w fee "acc_nonce a" sh] s(1,4) admit
    by (auto simp: wallet_public_key_hex_eq)
qed

definition demo_wallet :: kyvera_wallet where
  "demo_wallet = wallet_generate ref_hashing ref_sig ref_kem ref_sig (''key'', ''key'') (''net'', ''net'') (''epoch'', ''epoch'')
     0 ''savings''"

definition demo_owner :: account where
  "demo_owner = alice\<lparr>acc_address := wal_address demo_wallet\<rparr>"

theorem built_transfer_is_executed_witness:
  "\<exists>tx db'. build_transfer ref_hashing ref_sig (tx_json mem_backend) [] 1700000000 1700000000000 demo_wallet
       (kp_address ref_hashing (kp_generate ref_sig (''other'', ''other''))) 100 50 7 ''state'' = Inr tx
     \<and> fst (add_transaction mem_backend (demo_db [demo_owner]) mempool_new tx) = Inr ()
     \<and> apply_transaction mem_backend (demo_db [demo_owner]) tx = (Inr (), db')"
proof -
  let ?r = "kp_address ref_hashing (kp_generate ref_sig (''other'', ''other''))"
  have sig: "sig_matching ref_sig ''key'' ''key''" "sig_as_bytes ref_sig (sig_detached_sign ref_sig [] msg ''key'') \<noteq> []" for msg
    by (simp_all add: ref_sig_def)
  have json: "codec_total (tx_json mem_backend)" using mem_backend_total by (simp add: backend_total_def)
  have ready: "store_ready mem_backend (demo_db [demo_owner])"
    by (rule demo_ready) (simp add: demo_owner_def alice_def from_staked_balance_def)
  have owner: "ledger mem_backend (demo_db [demo_owner]) (wal_address demo_wallet) = Some demo_owner"
    by (simp add: demo_ledger demo_owner_def)
  have funds: "ledger_funds (ledger mem_backend (demo_db [demo_owner])) < 2 ^ 64"
    using demo_funds [of "[demo_owner]"] by (simp add: account_funds_def demo_owner_def alice_def)
  have amounts: "(100 :: u64) \<noteq> 0" "unat (100 :: u64) + unat (50 :: u64) \<le> unat (acc_balance demo_owner)" "acc_nonce demo_owner = 7"
    by (simp_all add: demo_owner_def alice_def)
  from built_transfer_is_executed [OF ref_hashing_ok ref_sig_ok sig(1) sig(2) json demo_wallet_def amounts(1)
      generated_address_valid [OF ref_hashing_ok, of "kp_generate ref_sig (''other'', ''other'')"] ready funds owner amounts(2),
      of 1700000000 1700000000000 "''state''"]
  show ?thesis
    using mempool_new_ok amounts(3) by (fastforce simp: max_mempool_size_def)
qed

section \<open>Wallet files\<close>

lemma failed_save_keeps_wallet:
  assumes "save_wallet_v2 H A J n d w path pw = (r, d')"
  shows "(r \<noteq> Inr () \<longrightarrow> file_at d' path = file_at d path)
    \<and> (\<forall>q. q \<noteq> path \<and> q \<noteq> path @ ''.tmp'' \<longrightarrow> file_at d' q = file_at d q)"
proof -
  have "file_at d' path = file_at d path" if "r \<noteq> Inr ()"
    using that save_wallet_v2_keeps_old [of H A J n d w path pw _ d'] assms by (cases r) auto
  then show ?thesis using save_wallet_v2_elsewhere [OF assms] by blast
qed

text \<open>C36. Saving a wallet: after a successful \<open>save_wallet_v2\<close>, loading with the same password returns
  the wallet, as long as the file is still there and is read without a fault; a save that fails,
  whether in encoding, encryption, writing (a partial write included) or renaming, leaves the
  wallet file as it was; and no save touches any file but the wallet's and its temporary file. The
  wallet is a generated one, so that its address is the one of its key.\<close>

theorem saved_wallet_loads:
  assumes "aead_ok A" "json_text_ok J" "length n = nonce_size"
    and "w = wallet_generate H D K S dpair kpair spair created label"
    and "save_wallet_v2 H A J n d w path pw = (r, d1)"
  shows "(r = Inr () \<and> file_at d2 path = file_at d1 path \<and> fs_read d2 path = (Inr bs, d3) \<longrightarrow>
      load_wallet H A J d2 path pw = (Inr w, d3))
    \<and> (r \<noteq> Inr () \<longrightarrow> file_at d1 path = file_at d path)
    \<and> (\<forall>q. q \<noteq> path \<and> q \<noteq> path @ ''.tmp'' \<longrightarrow> file_at d1 q = file_at d q)"
proof -
  have ok: "verify_address_integrity H w" unfolding assms(4) by (rule generated_wallet_integrity)
  have n: "length n = 12" using assms(3) by (simp add: nonce_size_def)
  have "load_wallet H A J d2 path pw = (Inr w, d3)"
    if "r = Inr ()" "file_at d2 path = file_at d1 path" "fs_read d2 path = (Inr bs, d3)"
    using save_v2_load [OF assms(1,2) n ok _ that(2,3)] assms(5) that(1) by blast
  then show ?thesis using failed_save_keeps_wallet [OF assms(5)] by blast
qed

definition demo_disk :: disk where
  "demo_disk = \<lparr>disk_files = [(''old.kyv'', ''contents'')], disk_faults = []\<rparr>"

theorem saved_wallet_loads_witness:
  "\<exists>d. save_wallet_v2 ref_hashing ref_aead ref_wallet_json (replicate 12 (CHR ''n'')) demo_disk demo_wallet ''my.kyv'' ''pw''
       = (Inr (), d)
     \<and> load_wallet ref_hashing ref_aead ref_wallet_json d ''my.kyv'' ''pw'' = (Inr demo_wallet, d)"
proof -
  let ?n = "replicate 12 (CHR ''n'')"
  obtain json where j: "to_vec ref_wallet_json demo_wallet = Inr json"
    using ref_wallet_json_ok(2) by (auto simp: codec_total_def)
  obtain c where c: "aes_encrypt ref_aead (derive_key_for_storage ref_hashing ''pw'') ?n json = Some c"
    by (simp add: ref_aead_def)
  have "disk_faults demo_disk = []" by (simp add: demo_disk_def)
  then obtain d where s: "save_wallet_v2 ref_hashing ref_aead ref_wallet_json ?n demo_disk demo_wallet ''my.kyv'' ''pw'' = (Inr (), d)"
    "disk_faults d = []" "file_at d ''my.kyv'' = Some (wallet_magic @ ?n @ c)"
    by (rule no_fault_save [OF _ j c])
  have len: "length ?n = nonce_size" by (simp add: nonce_size_def)
  from saved_wallet_loads [OF ref_aead_ok ref_wallet_json_ok(1) len demo_wallet_def s(1), of d] no_fault_read [OF s(2,3)] s(1)
  show ?thesis by blast
qed

lemma failed_save_keeps_wallet_witness:
  "\<exists>d'. save_wallet_v2 ref_hashing ref_aead ref_wallet_json (replicate 12 (CHR ''n''))
       (demo_disk\<lparr>disk_faults := [Some (Io_Fault ''disk full'' (Some 3))]\<rparr>) demo_wallet ''old.kyv'' ''pw''
       = (Inl (IoError ''disk full''), d')
     \<and> file_at d' ''old.kyv'' = Some ''contents''"
proof -
  let ?d = "demo_disk\<lparr>disk_faults := [Some (Io_Fault ''disk full'' (Some 3))]\<rparr>"
  obtain d' where s: "save_wallet_v2 ref_hashing ref_aead ref_wallet_json (replicate 12 (CHR ''n'')) ?d demo_wallet ''old.kyv'' ''pw''
      = (Inl (IoError ''disk full''), d')"
    by (simp add: save_wallet_v2_def ref_wallet_json_def ref_aead_def fs_write_def next_fault_def Let_def)
  have "file_at ?d ''old.kyv'' = Some ''contents''" by (simp add: demo_disk_def file_at_def)
  with failed_save_keeps_wallet [OF s] s show ?thesis by simp
qed

end
