(* ===== verification/F64_Text.thy ===== *)
theory F64_Text
  imports Float64
begin

text \<open>
  The text of Rust's \<open>f64\<close>: \<open>str::parse\<close> and \<open>Display\<close>, which the command line uses for
  amounts. Parsing follows the standard library's grammar and rounds the exact decimal value once.
  Printing finds the fewest significant digits that parse back to the same value, the nearest of
  them (a tie goes up), and writes them without an exponent.

  The lemmas show that digits with an optional fraction parse to the rounded decimal value, that 17
  digits are enough to tell any value from its neighbours, so that the search for the fewest ends
  with an answer, and that the printed text of a value parses back to it.
\<close>

section \<open>Parsing\<close>

definition is_ascii_digit :: "char \<Rightarrow> bool" where
  "is_ascii_digit c \<longleftrightarrow> char_digit c \<noteq> None"

definition digits_value :: "string \<Rightarrow> nat" where
  "digits_value = foldl (\<lambda>n c. 10 * n + the (char_digit c)) 0"

text \<open>An exponent stops growing at 65536.\<close>

definition exponent_value :: "string \<Rightarrow> nat" where
  "exponent_value = foldl (\<lambda>n c. if n < 65536 then 10 * n + the (char_digit c) else n) 0"

definition parse_exponent :: "string \<Rightarrow> int option" where
  "parse_exponent s = (case s of
       [] \<Rightarrow> Some 0
     | c # r \<Rightarrow>
         if c \<noteq> CHR ''e'' \<and> c \<noteq> CHR ''E'' then None
         else let (negative, ds) = (case r of
                    [] \<Rightarrow> (False, [])
                  | d # r' \<Rightarrow> if d = CHR ''-'' then (True, r') else if d = CHR ''+'' then (False, r') else (False, r))
           in if ds \<noteq> [] \<and> list_all is_ascii_digit ds
              then Some (if negative then - int (exponent_value ds) else int (exponent_value ds)) else None)"

definition parse_number :: "string \<Rightarrow> rat option" where
  "parse_number s =
     (let ip = takeWhile is_ascii_digit s;
          r = dropWhile is_ascii_digit s;
          (fp, r) = (case r of
              [] \<Rightarrow> ([], [])
            | c # r' \<Rightarrow> if c = CHR ''.'' then (takeWhile is_ascii_digit r', dropWhile is_ascii_digit r') else ([], r))
      in if ip = [] \<and> fp = [] then None
         else map_option (\<lambda>e. of_nat (digits_value (ip @ fp)) * 10 powi (e - int (length fp))) (parse_exponent r))"

definition to_lower :: "char \<Rightarrow> char" where
  "to_lower c = (let n = (of_char c :: nat) in if 65 \<le> n \<and> n \<le> 90 then char_of (n + 32) else c)"

definition parse_inf_nan :: "bool \<Rightarrow> string \<Rightarrow> f64 option" where
  "parse_inf_nan negative s =
     (let l = map to_lower s in
      if l = ''inf'' \<or> l = ''infinity'' then Some (F64_Inf negative)
      else if l = ''nan'' then Some F64_NaN else None)"

definition f64_parse :: "string \<Rightarrow> f64 option" where
  "f64_parse s = (case s of
       [] \<Rightarrow> None
     | c # r \<Rightarrow>
         let negative = (c = CHR ''-'');
             body = (if c = CHR ''-'' \<or> c = CHR ''+'' then r else s)
         in if body = [] then None
            else case parse_number body of
                Some q \<Rightarrow> Some (to_f64 negative q)
              | None \<Rightarrow> parse_inf_nan negative body)"

section \<open>Printing\<close>

text \<open>The decimal exponent: a positive number below this power of ten and not below the one before.\<close>

definition dec_exp :: "rat \<Rightarrow> int" where
  "dec_exp q = (case quotient_of q of (n, d) \<Rightarrow>
     let k = int (length (dec_string (nat n))) - int (length (dec_string (nat d)))
     in if 10 powi k \<le> q then k + 1 else k)"

text \<open>The \<open>n\<close>-digit decimal next to \<open>q\<close> that rounds to \<open>q\<close>, if there is one: its digits and the
  weight of the last one.\<close>

definition digits_at :: "rat \<Rightarrow> nat \<Rightarrow> (nat \<times> int) option" where
  "digits_at q n =
     (let e = dec_exp q - int n;
          x = q / 10 powi e;
          lo = nat \<lfloor>x\<rfloor>;
          ok = (\<lambda>m. to_f64 False (of_nat m * 10 powi e) = F64_Fin False q)
      in if ok lo \<and> (\<not> ok (lo + 1) \<or> x - of_nat lo < 1 / 2) then Some (lo, e)
         else if ok (lo + 1) then Some (lo + 1, e) else None)"

fun shortest_from :: "rat \<Rightarrow> nat \<Rightarrow> nat \<Rightarrow> (nat \<times> int) option" where
  "shortest_from q n 0 = None"
| "shortest_from q n (Suc fuel) =
     (case digits_at q n of Some r \<Rightarrow> Some r | None \<Rightarrow> shortest_from q (n + 1) fuel)"

text \<open>17 digits are enough for every value, see \<open>shortest_digits_round\<close>.\<close>

definition shortest_digits :: "rat \<Rightarrow> nat \<times> int" where
  "shortest_digits q = (case shortest_from q 1 17 of Some r \<Rightarrow> r | None \<Rightarrow> (0, 0))"

definition trim_zeros :: "string \<Rightarrow> string" where
  "trim_zeros s = rev (dropWhile (\<lambda>c. c = CHR ''0'') (rev s))"

definition plain_decimal :: "nat \<Rightarrow> int \<Rightarrow> string" where
  "plain_decimal m e =
     (if 0 \<le> e then dec_string (m * 10 ^ nat e)
      else let w = nat (- e);
               frac = trim_zeros (map digit_char (digits_fixed 10 w (m mod 10 ^ w)))
        in dec_string (m div 10 ^ w) @ (if frac = [] then [] else ''.'' @ frac))"

fun f64_display :: "f64 \<Rightarrow> string" where
  "f64_display F64_NaN = ''NaN''"
| "f64_display (F64_Inf s) = (if s then ''-inf'' else ''inf'')"
| "f64_display (F64_Fin s q) =
     (if s then ''-'' else []) @ (if q = 0 then ''0'' else case shortest_digits q of (m, e) \<Rightarrow> plain_decimal m e)"

section \<open>Decimal numbers parse to their value\<close>

lemma is_ascii_digit_char [simp]: "d < 10 \<Longrightarrow> is_ascii_digit (digit_char d)"
  by (simp add: is_ascii_digit_def)

lemma dec_string_digits: "list_all is_ascii_digit (dec_string n)"
  using set_dec_string by (fastforce simp: list_all_iff)

lemma point_not_digit [simp]: "\<not> is_ascii_digit (CHR ''.'')"
  by (simp add: is_ascii_digit_def char_digit_def)

lemma digits_value_Nil: "digits_value [] = 0"
  by (simp add: digits_value_def)

lemma digits_value_snoc: "digits_value (s @ [c]) = 10 * digits_value s + the (char_digit c)"
  by (simp add: digits_value_def)

lemma digits_value_dec_string: "digits_value (dec_string n) = n"
proof (induction n rule: less_induct)
  case (less n)
  show ?case
  proof (cases "n < 10")
    case True
    then show ?thesis by (simp add: dec_string.simps digits_value_def)
  next
    case False
    then have "dec_string n = dec_string (n div 10) @ [digit_char (n mod 10)]" by (subst dec_string.simps) simp
    then show ?thesis using False less.IH [of "n div 10"] by (simp add: digits_value_snoc)
  qed
qed

lemma digits_value_append: "digits_value (s @ t) = digits_value s * 10 ^ length t + digits_value t"
proof (induction t rule: rev_induct)
  case (snoc c t)
  then show ?case by (simp add: digits_value_snoc flip: append_assoc)
qed (simp add: digits_value_def)

lemma take_drop_digits:
  "list_all is_ascii_digit ds \<Longrightarrow> takeWhile is_ascii_digit ds = ds"
  "list_all is_ascii_digit ds \<Longrightarrow> dropWhile is_ascii_digit ds = []"
  "list_all is_ascii_digit ds \<Longrightarrow> takeWhile is_ascii_digit (ds @ CHR ''.'' # s) = ds"
  "list_all is_ascii_digit ds \<Longrightarrow> dropWhile is_ascii_digit (ds @ CHR ''.'' # s) = CHR ''.'' # s"
  by (induction ds) simp_all

lemma parse_number_digits:
  "list_all is_ascii_digit ds \<Longrightarrow> ds \<noteq> [] \<Longrightarrow> parse_number ds = Some (of_nat (digits_value ds))"
  by (simp add: parse_number_def take_drop_digits parse_exponent_def)

lemma parse_number_decimal:
  "list_all is_ascii_digit ds \<Longrightarrow> ds \<noteq> [] \<Longrightarrow> list_all is_ascii_digit fs \<Longrightarrow>
    parse_number (ds @ ''.'' @ fs) = Some (of_nat (digits_value (ds @ fs)) / 10 ^ length fs)"
  by (simp add: parse_number_def take_drop_digits parse_exponent_def power_int_minus divide_inverse)

lemma parse_unsigned:
  assumes "list_all is_ascii_digit (c # cs)"
  shows "f64_parse (c # cs @ s) = (case parse_number (c # cs @ s) of
    Some q \<Rightarrow> Some (to_f64 False q) | None \<Rightarrow> parse_inf_nan False (c # cs @ s))"
proof -
  have "c \<noteq> CHR ''-''" "c \<noteq> CHR ''+''" using assms by (auto simp: is_ascii_digit_def char_digit_def)
  then show ?thesis by (simp add: f64_parse_def Let_def)
qed

lemma f64_parse_digits:
  assumes "list_all is_ascii_digit ds" "ds \<noteq> []"
  shows "f64_parse ds = Some (to_f64 False (of_nat (digits_value ds)))"
proof -
  obtain c cs where ds: "ds = c # cs" using assms(2) by (cases ds) auto
  have "parse_number ds = Some (of_nat (digits_value ds))" by (rule parse_number_digits [OF assms])
  then show ?thesis using parse_unsigned [of c cs "[]"] assms(1) by (simp add: ds)
qed

lemma f64_parse_decimal:
  assumes "list_all is_ascii_digit ds" "ds \<noteq> []" "list_all is_ascii_digit fs"
  shows "f64_parse (ds @ ''.'' @ fs) = Some (to_f64 False (of_nat (digits_value (ds @ fs)) / 10 ^ length fs))"
proof -
  obtain c cs where ds: "ds = c # cs" using assms(2) by (cases ds) auto
  have "parse_number (ds @ ''.'' @ fs) = Some (of_nat (digits_value (ds @ fs)) / 10 ^ length fs)"
    by (rule parse_number_decimal [OF assms])
  then show ?thesis using parse_unsigned [of c cs "''.'' @ fs"] assms(1) by (simp add: ds)
qed


section \<open>The number of decimal digits\<close>

lemma dec_string_length: "0 < n \<Longrightarrow> 10 ^ (length (dec_string n) - 1) \<le> n \<and> n < 10 ^ length (dec_string n)"
proof (induction n rule: less_induct)
  case (less n)
  show ?case
  proof (cases "n < 10")
    case True
    then show ?thesis using less.prems by (subst dec_string.simps) (simp add: dec_string.simps)
  next
    case False
    then have IH: "10 ^ (length (dec_string (n div 10)) - 1) \<le> n div 10" "n div 10 < 10 ^ length (dec_string (n div 10))"
      using less.IH [of "n div 10"] by simp_all
    have len: "length (dec_string n) = Suc (length (dec_string (n div 10)))" using False by (subst dec_string.simps) simp
    have "length (dec_string (n div 10)) \<noteq> 0" by simp
    then obtain l where l: "length (dec_string (n div 10)) = Suc l" by (cases "length (dec_string (n div 10))") auto
    show ?thesis using IH by (simp add: len l) linarith
  qed
qed

lemma dec_exp_bounds:
  assumes "0 < q"
  shows "10 powi (dec_exp q - 1) \<le> q" "q < 10 powi dec_exp q"
proof -
  obtain n d where nd: "quotient_of q = (n, d)" by fastforce
  have d: "0 < d" by (rule quotient_of_denom_pos [OF nd])
  have q: "q = of_int n / of_int d" by (rule quotient_of_div [OF nd])
  then have n: "0 < n" using assms d by (simp add: zero_less_divide_iff)
  define ln ld where "ln = int (length (dec_string (nat n)))" and "ld = int (length (dec_string (nat d)))"
  have bounds: "10 powi (int (length (dec_string (nat z))) - 1) \<le> (of_int z :: rat)"
      "(of_int z :: rat) < 10 powi int (length (dec_string (nat z)))" if "0 < z" for z
  proof -
    have b: "10 ^ (length (dec_string (nat z)) - 1) \<le> nat z" "nat z < 10 ^ length (dec_string (nat z))"
      using dec_string_length [of "nat z"] that by auto
    have "length (dec_string (nat z)) \<noteq> 0" by simp
    then have i: "int (length (dec_string (nat z))) - 1 = int (length (dec_string (nat z)) - 1)"
      by (metis One_nat_def Suc_leI neq0_conv of_nat_1 of_nat_diff)
    have "(of_nat (10 ^ (length (dec_string (nat z)) - 1)) :: rat) \<le> of_nat (nat z)"
      "(of_nat (nat z) :: rat) < of_nat (10 ^ length (dec_string (nat z)))"
      using b by (simp_all only: of_nat_le_iff of_nat_less_iff)
    then show "10 powi (int (length (dec_string (nat z))) - 1) \<le> (of_int z :: rat)"
      "(of_int z :: rat) < 10 powi int (length (dec_string (nat z)))"
      unfolding i using that by (simp_all add: of_nat_nat)
  qed
  note bn = bounds [OF n, folded ln_def] and bd = bounds [OF d, folded ld_def]
  have up: "q < 10 powi (ln - ld + 1)"
  proof -
    have "q < 10 powi ln / of_int d" using bn(2) d by (simp add: q divide_strict_right_mono)
    also have "\<dots> \<le> 10 powi ln / 10 powi (ld - 1)" using bd(1) by (intro divide_left_mono) (use d in auto)
    also have "\<dots> = 10 powi (ln - ld + 1)" by (simp add: power_int_diff power_int_add)
    finally show ?thesis .
  qed
  have low: "10 powi (ln - ld - 1) \<le> q"
  proof -
    have "10 powi (ln - ld - 1) = 10 powi (ln - 1) / (10 powi ld :: rat)" by (simp add: power_int_diff)
    also have "\<dots> \<le> 10 powi (ln - 1) / of_int d" using bd(2) d by (intro divide_left_mono) auto
    also have "\<dots> \<le> q" using bn(1) d by (simp add: q divide_right_mono)
    finally show ?thesis .
  qed
  show "10 powi (dec_exp q - 1) \<le> q" "q < 10 powi dec_exp q"
    using up low by (auto simp: dec_exp_def nd Let_def ln_def ld_def)
qed

section \<open>17 digits are enough\<close>

text \<open>A number that is closer than half a unit to a value of the format rounds to it.\<close>

lemma round_even_near: "\<bar>x - of_int k\<bar> < 1 / 2 \<Longrightarrow> round_even x = k"
proof -
  assume near: "\<bar>x - of_int k\<bar> < 1 / 2"
  have f: "of_int \<lfloor>x\<rfloor> \<le> x" "x < of_int \<lfloor>x\<rfloor> + 1" by linarith+
  have "\<lfloor>x\<rfloor> = k \<or> \<lfloor>x\<rfloor> = k - 1" using near by linarith
  then show ?thesis
  proof
    assume "\<lfloor>x\<rfloor> = k"
    then show ?thesis using near f by (auto simp: round_even_def Let_def abs_if split: if_splits)
  next
    assume "\<lfloor>x\<rfloor> = k - 1"
    then show ?thesis using near f by (auto simp: round_even_def Let_def abs_if split: if_splits)
  qed
qed

lemma mag_on_own_grid:
  assumes "f64_mag q" "0 < q"
  obtains k where "q = of_int k * 2 powi unit_exp q"
  using assms(1)
proof (rule f64_mag_grid [of q "unit_exp q"])
  show "- 1074 \<le> unit_exp q" by (simp add: unit_exp_def)
  assume "q < 2 powi (52 + unit_exp q)" "- 1074 < unit_exp q"
  then show thesis using flog2_bounds(1) [OF assms(2)] by (auto simp: unit_exp_def max_def split: if_splits)
qed (rule that)

lemma round_mag_near:
  assumes q: "f64_mag q" "0 < q" and near: "\<bar>c - q\<bar> \<le> q / (2 * 10 ^ 16)"
  shows "round_mag c = q"
proof -
  have near2: "c \<le> q + q / (2 * 10 ^ 16)" "q - q / (2 * 10 ^ 16) \<le> c" using abs_le_D1 [OF near] abs_le_D2 [OF near] by linarith+
  then have c: "0 < c" using q(2) by (simp add: field_simps)
  let ?u = "unit_exp c" and ?g = "flog2 c"
  note g = flog2_bounds [OF c]
  have u: "- 1074 \<le> ?u" "?g - 52 \<le> ?u" by (simp_all add: unit_exp_def)
  obtain k where k: "q = of_int k * 2 powi ?u"
  proof (rule f64_mag_grid [OF q(1) u(1)])
    assume below: "q < 2 powi (52 + ?u)" and "- 1074 < ?u"
    then have u': "?u = ?g - 52" by (simp add: unit_exp_def max_def split: if_splits)
    then have qg: "q < 2 powi ?g" using below by simp
    have half: "2 powi (?g - 1) = 2 powi ?g / (2 :: rat)" by (simp add: power_int_diff)
    have "2 powi (?g - 1) \<le> q" unfolding half using g(1) near2(1) q(2) by (simp add: field_simps)
    then have "flog2 q = ?g - 1" using qg by (intro flog2_eqI) simp_all
    then have uq: "unit_exp q = ?g - 53" using \<open>- 1074 < ?u\<close> u' by (simp add: unit_exp_def)
    obtain j where j: "q = of_int j * 2 powi (?g - 53)" using mag_on_own_grid [OF q] uq by metis
    have top: "2 powi ?g = of_int (2 ^ 53) * (2 :: rat) powi (?g - 53)" by (simp add: power_int_diff)
    have pos: "(0 :: rat) < 2 powi (?g - 53)" by simp
    have "j < 2 ^ 53" using qg unfolding j top using pos by (metis mult_less_cancel_right_pos of_int_less_iff)
    then have "(of_int j :: rat) \<le> of_int (2 ^ 53) - 1" by linarith
    then have "q + 2 powi (?g - 53) \<le> 2 powi ?g" unfolding j top using pos by (simp add: algebra_simps flip: distrib_left)
    moreover have "2 powi (?g - 53) = 2 powi ?g / (2 ^ 53 :: rat)" by (simp add: power_int_diff)
    ultimately have False using g(1) near2(1) qg q(2) by (simp add: field_simps)
    then show thesis ..
  qed (rule that)
  have small: "q / (2 * 10 ^ 16) < U / 2"
    if "q * (1 - 1 / (2 * 10 ^ 16)) < 2 * a" "a = 2 ^ 52 * b" "b \<le> U" "0 < b" for a b U :: rat
  proof -
    have "q * 19999999999999999 < 20000000000000000 * (2 * (4503599627370496 * b))" using that(1,2) by simp
    then show ?thesis using that(3,4) by simp
  qed
  have "q / (2 * 10 ^ 16) < 2 powi ?u / 2"
  proof (rule small [of "2 powi ?g" "2 powi (?g - 52)"])
    have "c < 2 * 2 powi ?g" using g(2) by (simp add: power_int_add)
    moreover have "q * (1 - 1 / (2 * 10 ^ 16)) = q - q / (2 * 10 ^ 16)" by (simp add: right_diff_distrib)
    ultimately show "q * (1 - 1 / (2 * 10 ^ 16)) < 2 * 2 powi ?g" using near2(2) by linarith
    show "2 powi ?g = 2 ^ 52 * (2 :: rat) powi (?g - 52)" by (simp add: power_int_diff)
    show "(2 :: rat) powi (?g - 52) \<le> 2 powi ?u" using u(2) by (intro power_int_increasing) simp_all
    show "(0 :: rat) < 2 powi (?g - 52)" by simp
  qed
  then have "\<bar>c - q\<bar> < 2 powi ?u / 2" using near by linarith
  then have "\<bar>c / 2 powi ?u - of_int k\<bar> < 1 / 2"
    using k by (simp add: abs_less_iff field_simps)
  then have "round_even (c / 2 powi ?u) = k" by (rule round_even_near)
  then show ?thesis using c k by (simp add: round_mag_def)
qed

lemma to_f64_near:
  assumes "f64_mag q" "0 < q" "q < 2 ^ 1024" "\<bar>c - q\<bar> \<le> q / (2 * 10 ^ 16)"
  shows "to_f64 s c = F64_Fin s q"
  using assms by (simp add: to_f64_def round_mag_near)

lemma digits_at_rounds: "digits_at q n = Some (m, e) \<Longrightarrow> to_f64 False (of_nat m * 10 powi e) = F64_Fin False q"
  by (auto simp: digits_at_def Let_def split: if_splits)

lemma digits_at_17:
  assumes "f64_mag q" "0 < q" "q < 2 ^ 1024"
  shows "digits_at q 17 \<noteq> None"
proof -
  define e where "e = dec_exp q - 17"
  define x where "x = q / 10 powi e"
  define lo where "lo = nat \<lfloor>x\<rfloor>"
  have p: "(0 :: rat) < 10 powi e" by simp
  have q: "q = x * 10 powi e" by (simp add: x_def)
  have "0 \<le> x" using assms(2) by (simp add: x_def)
  then have lo: "of_nat lo = (of_int \<lfloor>x\<rfloor> :: rat)" by (simp add: lo_def)
  have "10 powi (dec_exp q - 1) = (10 ^ 16 :: rat) * 10 powi e" by (simp add: e_def power_int_diff)
  then have unit: "10 powi e / 2 \<le> q / (2 * 10 ^ 16)" using dec_exp_bounds(1) [OF assms(2)] by simp
  have ok: "to_f64 False (of_nat m * 10 powi e) = F64_Fin False q" if "\<bar>of_nat m - x\<bar> \<le> 1 / 2" for m
  proof (rule to_f64_near [OF assms])
    have "\<bar>of_nat m * 10 powi e - q\<bar> = \<bar>of_nat m - x\<bar> * 10 powi e"
      using p by (simp add: q abs_mult flip: left_diff_distrib)
    also have "\<dots> \<le> 1 / 2 * 10 powi e" using that p by (intro mult_right_mono) simp_all
    finally show "\<bar>of_nat m * 10 powi e - q\<bar> \<le> q / (2 * 10 ^ 16)" using unit by simp
  qed
  have fl: "of_int \<lfloor>x\<rfloor> \<le> x" "x < of_int \<lfloor>x\<rfloor> + 1" by linarith+
  have "\<bar>of_nat lo - x\<bar> \<le> 1 / 2 \<or> \<bar>of_nat (lo + 1) - x\<bar> \<le> 1 / 2" using fl by (simp add: lo abs_if) linarith
  then have "to_f64 False (of_nat lo * 10 powi e) = F64_Fin False q \<or> to_f64 False (of_nat (lo + 1) * 10 powi e) = F64_Fin False q"
    using ok by blast
  then show ?thesis
    by (simp add: digits_at_def Let_def lo_def x_def e_def del: of_nat_add of_nat_Suc) blast
qed

lemma shortest_from_Some:
  "digits_at q (n + k) \<noteq> None \<Longrightarrow> k < fuel \<Longrightarrow> \<exists>j r. shortest_from q n fuel = Some r \<and> digits_at q j = Some r \<and> j \<le> n + k"
proof (induction q n fuel arbitrary: k rule: shortest_from.induct)
  case (2 q n fuel)
  show ?case
  proof (cases "digits_at q n")
    case None
    then obtain k' where "k = Suc k'" using 2(2) by (cases k) auto
    then show ?thesis using 2(1) [OF None, of k'] 2(2,3) None by simp
  qed (auto intro!: exI [of _ n])
qed simp

lemma shortest_digits_round:
  assumes "f64_mag q" "0 < q" "q < 2 ^ 1024" "shortest_digits q = (m, e)"
  shows "to_f64 False (of_nat m * 10 powi e) = F64_Fin False q"
proof -
  obtain j r where r: "shortest_from q 1 17 = Some r" "digits_at q j = Some r"
    using shortest_from_Some [of q 1 16 17] digits_at_17 [OF assms(1-3)] by auto
  then show ?thesis using assms(4) digits_at_rounds [of q j m e] by (simp add: shortest_digits_def)
qed

section \<open>What is printed parses back\<close>

lemma digits_value_fixed: "digits_value (map digit_char (digits_fixed 10 w n)) = n mod 10 ^ w"
proof (induction w arbitrary: n)
  case (Suc w)
  have "n mod 10 ^ Suc w = 10 * (n div 10 mod 10 ^ w) + n mod 10" using mod_mult2_eq [of n 10 "10 ^ w"] by simp
  then show ?case
    using digits_fixed_snoc [of 10 w n] Suc.IH [of "n div 10"] by (simp add: digits_value_snoc del: digits_fixed.simps)
qed (simp add: digits_value_def)

lemma trim_zeros_decomp: "\<exists>k. s = trim_zeros s @ replicate k (CHR ''0'')"
proof -
  let ?z = "\<lambda>c. c = CHR ''0''"
  have "takeWhile ?z (rev s) = replicate (length (takeWhile ?z (rev s))) (CHR ''0'')"
    by (rule replicate_eqI) (auto dest: set_takeWhileD)
  moreover have "s = trim_zeros s @ rev (takeWhile ?z (rev s))"
    unfolding trim_zeros_def by (metis rev_append rev_rev_ident takeWhile_dropWhile_id)
  ultimately show ?thesis by (metis rev_replicate)
qed

lemma digits_value_zeros: "digits_value (replicate k (CHR ''0'')) = 0"
  by (induction k) (simp_all add: digits_value_def char_digit_def)

lemma parse_plain_decimal:
  "parse_number (plain_decimal m e) = Some (of_nat m * 10 powi e)"
proof (cases "0 \<le> e")
  case True
  then show ?thesis
    by (simp add: plain_decimal_def parse_number_digits dec_string_digits digits_value_dec_string power_int_def)
next
  case False
  define w where "w = nat (- e)"
  define ds where "ds = dec_string (m div 10 ^ w)"
  obtain fixed where fixed: "map digit_char (digits_fixed 10 w (m mod 10 ^ w)) = fixed" by blast
  obtain frac where frac: "trim_zeros fixed = frac" by blast
  obtain k where k: "fixed = frac @ replicate k (CHR ''0'')" using trim_zeros_decomp [of fixed] frac by blast
  have w: "10 ^ w = (10 ^ length frac * 10 ^ k :: 'a :: comm_semiring_1)"
    using arg_cong [OF k, of length] arg_cong [OF fixed, of length] by (simp add: power_add)
  have v: "digits_value frac * 10 ^ k = m mod 10 ^ w"
    using arg_cong [OF fixed, of digits_value]
    by (simp add: k digits_value_fixed digits_value_append digits_value_zeros)
  have ds: "list_all is_ascii_digit ds" "ds \<noteq> []" by (simp_all add: ds_def dec_string_digits)
  have "list_all is_ascii_digit fixed" using digits_fixed_less [of 10] by (auto simp: list_all_iff simp flip: fixed)
  then have digits: "list_all is_ascii_digit frac" by (simp add: k)
  have "digits_value (ds @ frac) * 10 ^ k = m div 10 ^ w * (10 ^ length frac * 10 ^ k) + digits_value frac * 10 ^ k"
    by (simp add: ds_def digits_value_append digits_value_dec_string algebra_simps)
  also have "\<dots> = m" unfolding v w [symmetric] by (rule div_mult_mod_eq)
  finally have m: "(of_nat m :: rat) = of_nat (digits_value (ds @ frac)) * 10 ^ k"
    by (metis of_nat_mult of_nat_numeral of_nat_power)
  have "(10 :: rat) powi e = 1 / 10 ^ w" using False by (simp add: w_def power_int_def power_one_over)
  then have val: "of_nat m * 10 powi e = (of_nat (digits_value (ds @ frac)) / 10 ^ length frac :: rat)"
    by (simp add: m w)
  have plain: "plain_decimal m e = ds @ (if frac = [] then [] else ''.'' @ frac)"
    using False by (simp only: plain_decimal_def w_def [symmetric] Let_def fixed frac ds_def [symmetric] if_False)
  show ?thesis
  proof (cases "frac = []")
    case True
    then show ?thesis using plain val parse_number_digits [OF ds] by simp
  next
    case False
    then show ?thesis using plain val parse_number_decimal [OF ds digits] by simp
  qed
qed

text \<open>The values of the format.\<close>

fun f64_value :: "f64 \<Rightarrow> bool" where
  "f64_value (F64_Fin s q) = (f64_mag q \<and> 0 \<le> q \<and> q < 2 ^ 1024)"
| "f64_value _ = True"

lemma to_f64_value: "0 \<le> q \<Longrightarrow> f64_value (to_f64 s q)"
  using f64_mag_round [of q] round_mag_nonneg [of q] by (simp add: to_f64_def Let_def)

lemma parse_number_nonneg: "parse_number s = Some q \<Longrightarrow> 0 \<le> q"
  by (auto simp: parse_number_def Let_def split: if_splits prod.splits list.splits)

lemma f64_parse_value: "f64_parse s = Some x \<Longrightarrow> f64_value x"
  by (auto simp: f64_parse_def parse_inf_nan_def Let_def to_f64_value
      split: list.splits if_splits option.splits dest!: parse_number_nonneg)

lemma f64_parse_signed:
  assumes "parse_number t = Some q" "is_ascii_digit (hd t)" "t \<noteq> []"
  shows "f64_parse ((if s then ''-'' else []) @ t) = Some (to_f64 s q)"
proof -
  obtain c r where t: "t = c # r" using assms(3) by (cases t) auto
  have "c \<noteq> CHR ''-''" "c \<noteq> CHR ''+''" using assms(2) by (auto simp: t is_ascii_digit_def char_digit_def)
  then show ?thesis using assms(1) by (simp add: f64_parse_def t)
qed

lemma hd_dec_string: "is_ascii_digit (hd (dec_string n @ s))"
  using dec_string_digits [of n] dec_string_nonempty [of n] by (cases "dec_string n") auto

lemma f64_display_parses:
  assumes "f64_value x"
  shows "f64_parse (f64_display x) = Some x"
proof (cases x)
  case F64_NaN
  have "parse_number ''NaN'' = None" by (simp add: parse_number_def is_ascii_digit_def char_digit_def)
  moreover have "map to_lower ''NaN'' = ''nan''" by code_simp
  ultimately show ?thesis using F64_NaN by (simp add: f64_parse_def parse_inf_nan_def Let_def)
next
  case (F64_Inf s)
  have "parse_number ''inf'' = None" by (simp add: parse_number_def is_ascii_digit_def char_digit_def)
  then show ?thesis using F64_Inf by (simp add: f64_parse_def parse_inf_nan_def to_lower_def Let_def)
next
  case (F64_Fin s q)
  then have q: "f64_mag q" "0 \<le> q" "q < 2 ^ 1024" using assms by simp_all
  show ?thesis
  proof (cases "q = 0")
    case True
    have "parse_number ''0'' = Some 0"
      using parse_number_digits [of "''0''"] by (simp add: is_ascii_digit_def char_digit_def digits_value_def)
    then have "f64_parse ((if s then ''-'' else []) @ ''0'') = Some (to_f64 s 0)"
      by (rule f64_parse_signed) (simp_all add: is_ascii_digit_def char_digit_def)
    then show ?thesis using True by (simp add: F64_Fin to_f64_def round_mag_def)
  next
    case False
    obtain m e where me: "shortest_digits q = (m, e)" by fastforce
    have "to_f64 False (of_nat m * 10 powi e) = F64_Fin False q"
      using shortest_digits_round [OF q(1) _ q(3) me] q(2) False by simp
    then have "to_f64 s (of_nat m * 10 powi e) = F64_Fin s q" by (simp add: to_f64_def Let_def split: if_splits)
    moreover have "f64_parse ((if s then ''-'' else []) @ plain_decimal m e) = Some (to_f64 s (of_nat m * 10 powi e))"
      by (rule f64_parse_signed [OF parse_plain_decimal])
        (use hd_dec_string [of _ "[]"] hd_dec_string in \<open>simp_all add: plain_decimal_def Let_def\<close>)
    ultimately show ?thesis using False me by (simp add: F64_Fin)
  qed
qed

end
