(* ===== verification/Wallet_Cli.thy ===== *)
theory Wallet_Cli
  imports Wallet_Storage Seed F64_Text
begin

text \<open>
  The command line wallet, \<open>src/src/bin/wallet.rs\<close>. The console is the input lines to come (an
  item may be a read error), the text written so far to the output and to the error stream, and
  the disk; writing to a terminal does not fail. A command takes the crates, the random draws and
  clock readings of the run, and the arguments, and returns its result, \<open>None\<close> for a panic, and the
  console it leaves. Dates are formatted by the crate chrono and the pretty JSON text by serde_json,
  both parameters.

  The lemmas show that no command overwrites a wallet file, what a successful create, restore or
  send has done, how an amount on the command line becomes units, and that a restored wallet does
  not depend on the phrase.
\<close>

section \<open>The console\<close>

record console =
  con_input :: "(string + string) list"
  con_output :: string
  con_errors :: string
  con_disk :: disk

type_synonym 'a command = "console \<Rightarrow> (string + 'a) option \<times> console"

definition con_bind :: "'a command \<Rightarrow> ('a \<Rightarrow> 'b command) \<Rightarrow> 'b command" where
  "con_bind m f c = (case m c of
       (None, c) \<Rightarrow> (None, c)
     | (Some (Inl e), c) \<Rightarrow> (Some (Inl e), c)
     | (Some (Inr x), c) \<Rightarrow> f x c)"

definition con_return :: "'a \<Rightarrow> 'a command" where
  "con_return x c = (Some (Inr x), c)"

text \<open>A result, a value that may be a panic, and a call on the disk, in a command.\<close>

definition con_result :: "string + 'a \<Rightarrow> 'a command" where
  "con_result r c = (Some r, c)"

definition con_try :: "'a option \<Rightarrow> 'a command" where
  "con_try x c = (map_option Inr x, c)"

definition on_disk :: "(disk \<Rightarrow> (string + 'a) \<times> disk) \<Rightarrow> 'a command" where
  "on_disk f c = (case f (con_disk c) of (r, d) \<Rightarrow> (Some r, c\<lparr>con_disk := d\<rparr>))"

definition print_text :: "string \<Rightarrow> unit command" where
  "print_text s c = (Some (Inr ()), c\<lparr>con_output := con_output c @ s\<rparr>)"

definition newline :: string where
  "newline = [CHR 0x0A]"

definition println_all :: "string list \<Rightarrow> unit command" where
  "println_all ls = print_text (concat (map (\<lambda>l. l @ newline) ls))"

definition eprintln :: "string \<Rightarrow> unit command" where
  "eprintln s c = (Some (Inr ()), c\<lparr>con_errors := con_errors c @ s @ newline\<rparr>)"

text \<open>\<open>lines().next()\<close> with the error of the end of input.\<close>

definition read_line :: "string command" where
  "read_line c = (case con_input c of
       [] \<Rightarrow> (Some (Inl ''No input received''), c)
     | l # ls \<Rightarrow> (Some l, c\<lparr>con_input := ls\<rparr>))"

section \<open>Text\<close>

text \<open>\<open>str::trim\<close>: white space is dropped at both ends.\<close>

function trim_start :: "string \<Rightarrow> string" where
  "trim_start s = (let n = ws_len s in if n = 0 \<or> s = [] then s else trim_start (drop n s))"
  by pat_completeness auto
termination trim_start by (relation "measure length") auto

declare trim_start.simps [simp del]

fun trim_end :: "string \<Rightarrow> string" where
  "trim_end [] = []"
| "trim_end (c # cs) = (if trim_start (c # cs) = [] then [] else c # trim_end cs)"

definition str_trim :: "string \<Rightarrow> string" where
  "str_trim s = trim_end (trim_start s)"

definition heavy_line :: string where
  "heavy_line = concat (replicate 54 [CHR 0xE2, CHR 0x95, CHR 0x90])"

definition warning_sign :: string where
  "warning_sign = [CHR 0xE2, CHR 0x9A, CHR 0xA0]"

definition banner :: "string \<Rightarrow> string list" where
  "banner title = ['''', heavy_line, title, heavy_line, '''']"

section \<open>The surroundings of a run\<close>

record ('pk, 'sk, 'sg, 'kpk, 'ksk, 'ct, 'ss, 'spk, 'ssk, 'ssg, 'm) cli_env =
  env_hashing :: hashing
  env_dilithium :: "('pk, 'sk, 'sg) sig_scheme"
  env_kyber :: "('kpk, 'ksk, 'ct, 'ss) kem_scheme"
  env_sphincs :: "('spk, 'ssk, 'ssg) sig_scheme"
  env_bip39 :: "'m bip39"
  env_aead :: aead
  env_wallet_json :: "kyvera_wallet codec"
  env_tx_json :: "transaction codec"
  env_tx_pretty :: "transaction \<Rightarrow> string + string"
  env_date :: "i64 \<Rightarrow> string option"
  run_entropy :: bytes
  run_dilithium_pair :: "'pk \<times> 'sk"
  run_kyber_pair :: "'kpk \<times> 'ksk"
  run_sphincs_pair :: "'spk \<times> 'ssk"
  run_sign_random :: bytes
  run_aes_nonce :: bytes
  run_now :: i64
  run_now_ms :: i64

definition new_wallet ::
  "('pk, 'sk, 'sg, 'kpk, 'ksk, 'ct, 'ss, 'spk, 'ssk, 'ssg, 'm) cli_env \<Rightarrow> string \<Rightarrow> kyvera_wallet" where
  "new_wallet E label =
     wallet_generate (env_hashing E) (env_dilithium E) (env_kyber E) (env_sphincs E) (run_dilithium_pair E)
       (run_kyber_pair E) (run_sphincs_pair E) (run_now E) label"

definition load_command ::
  "('pk, 'sk, 'sg, 'kpk, 'ksk, 'ct, 'ss, 'spk, 'ssk, 'ssg, 'm) cli_env \<Rightarrow> string \<Rightarrow> string \<Rightarrow> kyvera_wallet command" where
  "load_command E path password = on_disk (\<lambda>d.
     apfst (map_err (\<lambda>e. ''Failed to load wallet: '' @ storage_error_to_string e))
       (load_wallet (env_hashing E) (env_aead E) (env_wallet_json E) d path password))"

definition save_command ::
  "('pk, 'sk, 'sg, 'kpk, 'ksk, 'ct, 'ss, 'spk, 'ssk, 'ssg, 'm) cli_env \<Rightarrow> kyvera_wallet \<Rightarrow> string \<Rightarrow> string
     \<Rightarrow> unit command" where
  "save_command E wallet path password = on_disk (\<lambda>d.
     apfst (map_err (\<lambda>e. ''Failed to save wallet: '' @ storage_error_to_string e))
       (save_wallet_v2 (env_hashing E) (env_aead E) (env_wallet_json E) (run_aes_nonce E) d wallet path password))"

definition exists_command :: "string \<Rightarrow> bool command" where
  "exists_command path = on_disk (\<lambda>d. apfst Inr (wallet_exists d path))"

section \<open>The commands\<close>

definition prompt_password :: "string \<Rightarrow> string command" where
  "prompt_password prompt = con_bind (print_text prompt) (\<lambda>_. read_line)"

definition format_timestamp ::
  "('pk, 'sk, 'sg, 'kpk, 'ksk, 'ct, 'ss, 'spk, 'ssk, 'ssg, 'm) cli_env \<Rightarrow> i64 \<Rightarrow> string" where
  "format_timestamp E ts = (case env_date E ts of None \<Rightarrow> ''Unknown'' | Some s \<Rightarrow> s)"

definition print_usage :: "unit command" where
  "print_usage = println_all
     ['''',
      ''  KYV Wallet '' @ em_dash @ '' Kyvera Continuum'',
      '''',
      ''  Commands:'',
      ''    create  <label> <wallet-file>                    Create a new wallet'',
      ''    info    <wallet-file>                            Show wallet details'',
      ''    restore <wallet-file>                            Restore from seed phrase'',
      ''    send    <wallet-file> <to> <amount> <fee>        Sign a transfer'',
      ''    stake   <wallet-file> <amount>                   Sign a stake lock'',
      '''',
      ''  Examples:'',
      ''    kyv-wallet create main ~/.kyvera/main.wallet'',
      ''    kyv-wallet info ~/.kyvera/main.wallet'',
      ''    kyv-wallet send ~/.kyvera/main.wallet kyv1abc... 10.5 0.001'',
      '''']"

definition cmd_create ::
  "('pk, 'sk, 'sg, 'kpk, 'ksk, 'ct, 'ss, 'spk, 'ssk, 'ssg, 'm) cli_env \<Rightarrow> string list \<Rightarrow> unit command" where
  "cmd_create E args =
     (if length args < 4 then con_result (Inl ''Usage: kyv-wallet create <label> <wallet-file>'')
      else
        let label = args ! 2; path = args ! 3 in
        con_bind (exists_command path) (\<lambda>ex.
        if ex then con_result (Inl (''Wallet file already exists at '' @ path @ ''. Delete it first or choose a different path.''))
        else
          con_bind (con_try (generate_seed_phrase (env_bip39 E) (run_entropy E))) (\<lambda>seed_phrase.
          con_bind (con_result (map_err (\<lambda>e. ''Seed generation failed: '' @ e) (seed_from_phrase (env_bip39 E) seed_phrase ''''))) (\<lambda>seed_bytes.
          let wallet = new_wallet E label in
          con_bind (println_all (banner ''  NEW KYVERA WALLET CREATED'' @
            [''  Label:   '' @ wal_label wallet,
             ''  Address: '' @ wal_address wallet,
             '''',
             ''  '' @ warning_sign @ ''  SEED PHRASE '' @ em_dash @ '' WRITE THIS DOWN NOW'',
             ''  '' @ warning_sign @ ''  Anyone with these words can access your wallet.'',
             ''  '' @ warning_sign @ ''  Store them offline. Never share them.'',
             '''',
             ''  '' @ format_seed_phrase_for_display seed_phrase,
             '''',
             heavy_line,
             ''''])) (\<lambda>_.
          con_bind (prompt_password ''  Set wallet password: '') (\<lambda>password.
          con_bind (prompt_password ''  Confirm password:    '') (\<lambda>confirm.
          if password \<noteq> confirm then con_result (Inl ''Passwords do not match. Wallet not saved.'')
          else
            con_bind (save_command E wallet path password) (\<lambda>_.
            println_all
              ['''',
               ''  Wallet saved to: '' @ path,
               ''  Keep your seed phrase safe. It cannot be recovered.'',
               '''']))))))))"

definition cmd_info ::
  "('pk, 'sk, 'sg, 'kpk, 'ksk, 'ct, 'ss, 'spk, 'ssk, 'ssg, 'm) cli_env \<Rightarrow> string list \<Rightarrow> unit command" where
  "cmd_info E args =
     (if length args < 3 then con_result (Inl ''Usage: kyv-wallet info <wallet-file>'')
      else
        let path = args ! 2 in
        con_bind (prompt_password ''  Wallet password: '') (\<lambda>password.
        con_bind (load_command E path password) (\<lambda>wallet.
        let info = wallet_get_info (env_hashing E) wallet in
        con_bind (println_all (banner ''  KYVERA WALLET INFO'' @
          [''  Label:   '' @ info_label info,
           ''  Address: '' @ info_address info,
           '''',
           ''  Signing public key (first 32 chars):''])) (\<lambda>_.
        con_bind (con_try (str_prefix 32 (info_signing_public_key info))) (\<lambda>key_start.
        println_all
          [''  '' @ key_start @ ''...'',
           '''',
           ''  Created: '' @ format_timestamp E (wal_created_at wallet),
           '''',
           ''  Note: Balance lookup requires a running node.'',
           ''        Coming in Month 5 '' @ em_dash @ '' chain state layer.'',
           ''''])))))"

definition cmd_restore ::
  "('pk, 'sk, 'sg, 'kpk, 'ksk, 'ct, 'ss, 'spk, 'ssk, 'ssg, 'm) cli_env \<Rightarrow> string list \<Rightarrow> unit command" where
  "cmd_restore E args =
     (if length args < 3 then con_result (Inl ''Usage: kyv-wallet restore <wallet-file>'')
      else
        let path = args ! 2 in
        con_bind (exists_command path) (\<lambda>ex.
        if ex then con_result (Inl (''Wallet file already exists at '' @ path @ ''. Choose a different path.''))
        else
          con_bind (println_all ['''', ''  Enter your 24-word seed phrase (words separated by spaces):'']) (\<lambda>_.
          con_bind (print_text ''  > '') (\<lambda>_.
          con_bind read_line (\<lambda>line.
          let phrase = str_trim line in
          if \<not> validate_seed_phrase (env_bip39 E) phrase
          then con_result (Inl ''Invalid seed phrase. Check your words and try again.'')
          else
            con_bind (println_all ['''', ''  Seed phrase valid. Enter a label for this wallet:'']) (\<lambda>_.
            con_bind (print_text ''  > '') (\<lambda>_.
            con_bind read_line (\<lambda>line.
            let label = str_trim line;
                wallet = new_wallet E label in
            con_bind (prompt_password ''  Set wallet password: '') (\<lambda>password.
            con_bind (prompt_password ''  Confirm password:    '') (\<lambda>confirm.
            if password \<noteq> confirm then con_result (Inl ''Passwords do not match. Wallet not saved.'')
            else
              con_bind (save_command E wallet path password) (\<lambda>_.
              println_all
                ['''',
                 ''  Wallet restored and saved to: '' @ path,
                 ''  Address: '' @ wal_address wallet,
                 ''''])))))))))))"

text \<open>KYV to units: the product in floating point, truncated.\<close>

definition kyv_to_units :: "f64 \<Rightarrow> u64" where
  "kyv_to_units amount_kyv = f64_to_u64 (f64_mul amount_kyv (f64_lit 1000000000))"

definition cmd_send ::
  "('pk, 'sk, 'sg, 'kpk, 'ksk, 'ct, 'ss, 'spk, 'ssk, 'ssg, 'm) cli_env \<Rightarrow> string list \<Rightarrow> unit command" where
  "cmd_send E args =
     (if length args < 6 then con_result (Inl ''Usage: kyv-wallet send <wallet-file> <recipient> <amount-kyv> <fee-kyv>'')
      else
        let path = args ! 2; recipient = args ! 3 in
        con_bind (con_result (ok_or (f64_parse (args ! 4)) ''Invalid amount. Use decimal KYV (e.g. 10.5)'')) (\<lambda>amount_kyv.
        con_bind (con_result (ok_or (f64_parse (args ! 5)) ''Invalid fee. Use decimal KYV (e.g. 0.001)'')) (\<lambda>fee_kyv.
        let amount = kyv_to_units amount_kyv;
            fee = kyv_to_units fee_kyv in
        con_bind (prompt_password ''  Wallet password: '') (\<lambda>password.
        con_bind (load_command E path password) (\<lambda>wallet.
        let chain_state = replicate 64 (CHR ''0'') in
        con_bind (con_result (map_err (\<lambda>e. ''Failed to build transaction: '' @ builder_error_to_string e)
          (build_transfer (env_hashing E) (env_dilithium E) (env_tx_json E) (run_sign_random E) (run_now E) (run_now_ms E)
             wallet recipient amount fee 0 chain_state))) (\<lambda>tx.
        con_bind (println_all (banner ''  SIGNED TRANSACTION'' @
          [''  From:   '' @ tx_sender tx,
           ''  To:     '' @ tx_receiver tx,
           ''  Amount: '' @ f64_display amount_kyv @ '' KYV'',
           ''  Fee:    '' @ f64_display fee_kyv @ '' KYV'',
           ''  Hash:   '' @ tx_hash tx,
           '''',
           ''  Transaction signed successfully.'',
           ''  Broadcasting to network available in Month 9 (P2P layer).'',
           ''''])) (\<lambda>_.
        con_bind (con_result (env_tx_pretty E tx)) (\<lambda>json.
        println_all [''  Raw signed transaction:'', json]))))))))"

definition tier_text :: "u64 \<Rightarrow> string" where
  "tier_text amount =
     (if 25000000000000 \<le> amount then ''Nexus (+35% reward bonus)''
      else if 5000000000000 \<le> amount then ''Kinetic (+15% reward bonus)''
      else if 500000000000 \<le> amount then ''Igniter (standard rewards)''
      else ''Below minimum '' @ em_dash @ '' 500 KYV required for Igniter tier'')"

definition cmd_stake ::
  "('pk, 'sk, 'sg, 'kpk, 'ksk, 'ct, 'ss, 'spk, 'ssk, 'ssg, 'm) cli_env \<Rightarrow> string list \<Rightarrow> unit command" where
  "cmd_stake E args =
     (if length args < 4 then con_result (Inl ''Usage: kyv-wallet stake <wallet-file> <amount-kyv>'')
      else
        let path = args ! 2 in
        con_bind (con_result (ok_or (f64_parse (args ! 3)) ''Invalid amount'')) (\<lambda>amount_kyv.
        let amount = kyv_to_units amount_kyv in
        con_bind (println_all
          ['''',
           ''  Staking '' @ f64_display amount_kyv @ '' KYV '' @ em_dash @ '' Validator tier: '' @ tier_text amount,
           '''']) (\<lambda>_.
        con_bind (prompt_password ''  Wallet password: '') (\<lambda>password.
        con_bind (load_command E path password) (\<lambda>wallet.
        let chain_state = replicate 64 (CHR ''0'') in
        con_bind (con_result (map_err (\<lambda>e. ''Failed to build stake transaction: '' @ builder_error_to_string e)
          (build_stake_lock (env_hashing E) (env_dilithium E) (env_tx_json E) (run_sign_random E) (run_now E) (run_now_ms E)
             wallet amount 1000000 0 chain_state))) (\<lambda>tx.
        println_all
          [''  Stake transaction signed.'',
           ''  Hash: '' @ tx_hash tx,
           '''',
           ''  Broadcasting available in Month 9 (P2P layer).'',
           '''']))))))"

definition cli_dispatch ::
  "('pk, 'sk, 'sg, 'kpk, 'ksk, 'ct, 'ss, 'spk, 'ssk, 'ssg, 'm) cli_env \<Rightarrow> string list \<Rightarrow> unit command" where
  "cli_dispatch E args =
     (if args ! 1 = ''create'' then cmd_create E args
      else if args ! 1 = ''info'' then cmd_info E args
      else if args ! 1 = ''restore'' then cmd_restore E args
      else if args ! 1 = ''send'' then cmd_send E args
      else if args ! 1 = ''stake'' then cmd_stake E args
      else if args ! 1 = ''help'' then print_usage
      else con_bind (eprintln (''Unknown command: '' @ args ! 1)) (\<lambda>_. print_usage))"

text \<open>The exit code, \<open>None\<close> when a command panics.\<close>

definition cli_main ::
  "('pk, 'sk, 'sg, 'kpk, 'ksk, 'ct, 'ss, 'spk, 'ssk, 'ssg, 'm) cli_env \<Rightarrow> string list \<Rightarrow> console
     \<Rightarrow> nat option \<times> console" where
  "cli_main E args c =
     (if length args < 2 then (Some 0, snd (print_usage c))
      else case cli_dispatch E args c of
          (None, c) \<Rightarrow> (None, c)
        | (Some (Inl e), c) \<Rightarrow> (Some 1, snd (eprintln (''Error: '' @ e) c))
        | (Some (Inr _), c) \<Rightarrow> (Some 0, c))"

section \<open>Running commands\<close>

lemma con_bind_steps [simp]:
  "con_bind (con_return x) f = f x" "con_bind (con_result (Inr x)) f = f x"
  "con_bind (con_result (Inl e)) f = con_result (Inl e)" "con_bind (con_try (Some x)) f = f x"
  "con_bind (print_text s) g c = g () (c\<lparr>con_output := con_output c @ s\<rparr>)"
  "con_bind (eprintln s) g c = g () (c\<lparr>con_errors := con_errors c @ s @ newline\<rparr>)"
  by (simp_all add: fun_eq_iff con_bind_def con_return_def con_result_def con_try_def print_text_def eprintln_def)

lemma con_bind_assoc: "con_bind (con_bind m f) g = con_bind m (\<lambda>x. con_bind (f x) g)"
  by (rule ext) (auto simp: con_bind_def split: prod.splits option.splits sum.splits)

lemma con_bind_Inr:
  "con_bind m f c = (Some (Inr y), c') \<longleftrightarrow> (\<exists>x c1. m c = (Some (Inr x), c1) \<and> f x c1 = (Some (Inr y), c'))"
  by (auto simp: con_bind_def split: prod.splits option.splits sum.splits)

lemma con_result_Inr [simp]: "con_result r c = (Some (Inr x), c') \<longleftrightarrow> r = Inr x \<and> c' = c"
  by (auto simp: con_result_def)

text \<open>What every run of a command keeps of the disk: a view of it that no step changes.\<close>

definition keeps :: "(disk \<Rightarrow> 'v) \<Rightarrow> 'a command \<Rightarrow> bool" where
  "keeps view m \<longleftrightarrow> (\<forall>c. view (con_disk (snd (m c))) = view (con_disk c))"

named_theorems keeps_intros

lemma keeps_bind [keeps_intros]: "keeps v m \<Longrightarrow> (\<And>x. keeps v (f x)) \<Longrightarrow> keeps v (con_bind m f)"
  unfolding keeps_def
proof
  fix c
  assume m: "\<forall>c. v (con_disk (snd (m c))) = v (con_disk c)" and f: "\<And>x. \<forall>c. v (con_disk (snd (f x c))) = v (con_disk c)"
  obtain r c1 where r: "m c = (r, c1)" by fastforce
  then have "v (con_disk c1) = v (con_disk c)" using m by (metis snd_conv)
  then show "v (con_disk (snd (con_bind m f c))) = v (con_disk c)"
    using f by (simp add: con_bind_def r split: option.splits sum.splits)
qed

lemma keeps_steps [keeps_intros]:
  "keeps v (con_result r)" "keeps v (con_try x)" "keeps v (print_text s)" "keeps v (eprintln s)" "keeps v read_line"
  by (simp_all add: keeps_def con_result_def con_try_def print_text_def eprintln_def read_line_def split: list.splits)

lemma keeps_printing [keeps_intros]: "keeps v (println_all ls)" "keeps v (prompt_password s)" "keeps v print_usage"
  by (simp_all add: println_all_def prompt_password_def print_usage_def keeps_intros)

lemma keeps_if [keeps_intros]: "(b \<Longrightarrow> keeps v m) \<Longrightarrow> (\<not> b \<Longrightarrow> keeps v n) \<Longrightarrow> keeps v (if b then m else n)"
  by simp

lemma keeps_on_disk: "(\<And>d. v (snd (f d)) = v d) \<Longrightarrow> keeps v (on_disk f)"
  by (simp add: keeps_def on_disk_def case_prod_beta)

lemma keeps_load [keeps_intros]: "keeps (\<lambda>d. file_at d q) (load_command E path pw)"
  unfolding load_command_def
proof (rule keeps_on_disk)
  fix d
  obtain r d1 where rd: "fs_read d path = (r, d1)" by fastforce
  then have "file_at d1 q = file_at d q" using fs_read_value(1) by blast
  moreover have "snd (load_wallet (env_hashing E) (env_aead E) (env_wallet_json E) d path pw) = d1"
    by (cases r) (simp_all add: load_wallet_def rd)
  ultimately show "file_at (snd (apfst f (load_wallet (env_hashing E) (env_aead E) (env_wallet_json E) d path pw))) q = file_at d q" for f
    by simp
qed

lemma keeps_exists [keeps_intros]: "keeps (\<lambda>d. file_at d q) (exists_command path)"
  unfolding exists_command_def
  by (rule keeps_on_disk) (auto simp: wallet_exists_def next_fault_files split: prod.splits option.splits)

lemma keeps_save:
  assumes "q \<noteq> path" "q \<noteq> path @ ''.tmp''"
  shows "keeps (\<lambda>d. file_at d q) (save_command E w path pw)"
  unfolding save_command_def
  by (rule keeps_on_disk) (use assms save_wallet_v2_elsewhere in \<open>fastforce simp: prod_eq_iff\<close>)

text \<open>The commands that only read leave every file as it is.\<close>

lemma keeps_info: "keeps (\<lambda>d. file_at d q) (cmd_info E args)"
  unfolding cmd_info_def Let_def by (intro keeps_intros)

lemma keeps_send: "keeps (\<lambda>d. file_at d q) (cmd_send E args)"
  unfolding cmd_send_def Let_def by (intro keeps_intros)

lemma keeps_stake: "keeps (\<lambda>d. file_at d q) (cmd_stake E args)"
  unfolding cmd_stake_def Let_def by (intro keeps_intros)

lemma keeps_create:
  "q \<noteq> args ! 3 \<Longrightarrow> q \<noteq> args ! 3 @ ''.tmp'' \<Longrightarrow> keeps (\<lambda>d. file_at d q) (cmd_create E args)"
  unfolding cmd_create_def Let_def by (intro keeps_intros keeps_save)

lemma keeps_restore:
  "q \<noteq> args ! 2 \<Longrightarrow> q \<noteq> args ! 2 @ ''.tmp'' \<Longrightarrow> keeps (\<lambda>d. file_at d q) (cmd_restore E args)"
  unfolding cmd_restore_def Let_def by (intro keeps_intros keeps_save)

text \<open>An existing file stops the two commands that write.\<close>

lemma exists_command_True:
  assumes "fst (next_fault (con_disk c)) = None" "file_at (con_disk c) path \<noteq> None"
  shows "\<exists>c1. exists_command path c = (Some (Inr True), c1)"
  using assms next_fault_files [of "con_disk c"]
  by (auto simp: exists_command_def on_disk_def wallet_exists_def split: prod.splits option.splits)

lemma exists_command_False:
  assumes "disk_faults (con_disk c) = []" "file_at (con_disk c) path = None"
  shows "exists_command path c = (Some (Inr False), c)"
  using assms by (simp add: exists_command_def on_disk_def wallet_exists_def next_fault_def)

lemma existing_wallet_refused:
  assumes "fst (next_fault (con_disk c)) = None" "file_at (con_disk c) path \<noteq> None"
  shows "4 \<le> length args \<Longrightarrow> args ! 3 = path \<Longrightarrow> \<exists>e. fst (cmd_create E args c) = Some (Inl e)"
    "3 \<le> length args \<Longrightarrow> args ! 2 = path \<Longrightarrow> \<exists>e. fst (cmd_restore E args c) = Some (Inl e)"
    "4 \<le> length args \<Longrightarrow> args ! 3 = path \<Longrightarrow> file_at (con_disk (snd (cmd_create E args c))) q = file_at (con_disk c) q"
    "3 \<le> length args \<Longrightarrow> args ! 2 = path \<Longrightarrow> file_at (con_disk (snd (cmd_restore E args c))) q = file_at (con_disk c) q"
proof -
  obtain c1 where c1: "exists_command path c = (Some (Inr True), c1)" using exists_command_True [OF assms] by blast
  have "file_at (con_disk c1) q = file_at (con_disk c) q"
    using keeps_exists [of q path] c1 unfolding keeps_def by (metis snd_conv)
  with c1 show "4 \<le> length args \<Longrightarrow> args ! 3 = path \<Longrightarrow> \<exists>e. fst (cmd_create E args c) = Some (Inl e)"
    "3 \<le> length args \<Longrightarrow> args ! 2 = path \<Longrightarrow> \<exists>e. fst (cmd_restore E args c) = Some (Inl e)"
    "4 \<le> length args \<Longrightarrow> args ! 3 = path \<Longrightarrow> file_at (con_disk (snd (cmd_create E args c))) q = file_at (con_disk c) q"
    "3 \<le> length args \<Longrightarrow> args ! 2 = path \<Longrightarrow> file_at (con_disk (snd (cmd_restore E args c))) q = file_at (con_disk c) q"
    by (simp_all add: cmd_create_def cmd_restore_def con_bind_def con_result_def)
qed

section \<open>The exit of the program\<close>

lemma cli_main_exit:
  assumes "2 \<le> length args"
  shows "cli_dispatch E args c = (Some (Inr u), c1) \<Longrightarrow> cli_main E args c = (Some 0, c1)"
    "cli_dispatch E args c = (Some (Inl e), c1) \<Longrightarrow> fst (cli_main E args c) = Some 1"
    "cli_dispatch E args c = (None, c1) \<Longrightarrow> cli_main E args c = (None, c1)"
  using assms by (simp_all add: cli_main_def)

lemma cli_main_disk:
  "con_disk (snd (cli_main E args c)) = (if length args < 2 then con_disk c else con_disk (snd (cli_dispatch E args c)))"
  by (auto simp: cli_main_def print_usage_def println_all_def print_text_def eprintln_def split: prod.splits option.splits sum.splits)

lemma cli_main_code_0:
  "cli_main E args c = (Some 0, c1) \<Longrightarrow> 2 \<le> length args \<Longrightarrow> cli_dispatch E args c = (Some (Inr ()), c1)"
  by (auto simp: cli_main_def split: prod.splits option.splits sum.splits)

lemma dispatch_keeps_disk:
  assumes "args ! 1 \<noteq> ''create''" "args ! 1 \<noteq> ''restore''"
  shows "keeps (\<lambda>d. file_at d q) (cli_dispatch E args)"
proof -
  have "keeps (\<lambda>d. file_at d q) (con_bind (eprintln s) (\<lambda>_. print_usage))" for s by (intro keeps_intros)
  with assms show ?thesis
    by (simp only: cli_dispatch_def if_False if_split keeps_info keeps_send keeps_stake keeps_printing(3)) simp
qed

text \<open>A file that is there before a run is there afterwards, unchanged, unless the check for an
  existing wallet fails or the file is the temporary one of a save.\<close>

lemma dispatch_keeps_files:
  assumes "fst (next_fault (con_disk c)) = None" "file_at (con_disk c) q \<noteq> None" "\<And>p. p \<in> set args \<Longrightarrow> q \<noteq> p @ ''.tmp''"
  shows "file_at (con_disk (snd (cli_dispatch E args c))) q = file_at (con_disk c) q"
proof -
  have create: "file_at (con_disk (snd (cmd_create E args c))) q = file_at (con_disk c) q"
  proof (cases "length args < 4 \<or> q = args ! 3")
    case True
    moreover have "length args < 4 \<Longrightarrow> cmd_create E args c = (fst (cmd_create E args c), c)"
      by (simp add: cmd_create_def con_result_def)
    ultimately show ?thesis
      using existing_wallet_refused(3) [of c q args E q] assms(1,2) by (metis not_less snd_conv)
  next
    case False
    then show ?thesis using keeps_create [of q args E] assms(3) [of "args ! 3"] by (simp add: keeps_def)
  qed
  have restore: "file_at (con_disk (snd (cmd_restore E args c))) q = file_at (con_disk c) q"
  proof (cases "length args < 3 \<or> q = args ! 2")
    case True
    moreover have "length args < 3 \<Longrightarrow> cmd_restore E args c = (fst (cmd_restore E args c), c)"
      by (simp add: cmd_restore_def con_result_def)
    ultimately show ?thesis
      using existing_wallet_refused(4) [of c q args E q] assms(1,2) by (metis not_less snd_conv)
  next
    case False
    then show ?thesis using keeps_restore [of q args E] assms(3) [of "args ! 2"] by (simp add: keeps_def)
  qed
  have other: "keeps (\<lambda>d. file_at d q) (con_bind (eprintln (''Unknown command: '' @ args ! 1)) (\<lambda>_. print_usage))"
    by (intro keeps_intros)
  show ?thesis
    unfolding cli_dispatch_def
    using create restore keeps_info [of q E args] keeps_send [of q E args] keeps_stake [of q E args] other
      keeps_printing(3) [of "\<lambda>d. file_at d q"]
    by (simp add: keeps_def del: con_bind_steps)
qed

section \<open>Running a command to its end\<close>

lemma con_bind_input [simp]:
  "con_input c = Inr l # ls \<Longrightarrow> con_bind read_line f c = f l (c\<lparr>con_input := ls\<rparr>)"
  "con_input c = Inr l # ls \<Longrightarrow>
     con_bind (prompt_password s) f c = f l (c\<lparr>con_output := con_output c @ s, con_input := ls\<rparr>)"
  by (simp_all add: con_bind_def read_line_def prompt_password_def print_text_def)

lemma con_bind_println [simp]:
  "con_bind (println_all ls) f c = f () (c\<lparr>con_output := con_output c @ concat (map (\<lambda>l. l @ newline) ls)\<rparr>)"
  by (simp add: println_all_def)

lemma println_all_run:
  "println_all ls c = (Some (Inr ()), c\<lparr>con_output := con_output c @ concat (map (\<lambda>l. l @ newline) ls)\<rparr>)"
  by (simp add: println_all_def print_text_def)

lemma con_bind_exists:
  assumes "disk_faults (con_disk c) = []" "file_at (con_disk c) path = None"
  shows "con_bind (exists_command path) f c = f False c"
  using exists_command_False [OF assms] by (simp add: con_bind_def)

lemma con_bind_save:
  assumes "save_wallet_v2 (env_hashing E) (env_aead E) (env_wallet_json E) (run_aes_nonce E) (con_disk c) w path pw = (Inr (), d)"
  shows "con_bind (save_command E w path pw) f c = f () (c\<lparr>con_disk := d\<rparr>)"
  by (simp add: con_bind_def save_command_def on_disk_def assms)

lemma con_bind_load:
  assumes "load_wallet (env_hashing E) (env_aead E) (env_wallet_json E) (con_disk c) path pw = (Inr w, d)"
  shows "con_bind (load_command E path pw) f c = f w (c\<lparr>con_disk := d\<rparr>)"
  by (simp add: con_bind_def load_command_def on_disk_def assms)

lemma cmd_create_succeeds:
  assumes "4 \<le> length args" "disk_faults (con_disk c) = []" "file_at (con_disk c) (args ! 3) = None"
    and "con_input c = Inr pw # Inr pw # rest"
    and "generate_seed_phrase (env_bip39 E) (run_entropy E) = Some phrase" "seed_from_phrase (env_bip39 E) phrase '''' = Inr sb"
    and "save_wallet_v2 (env_hashing E) (env_aead E) (env_wallet_json E) (run_aes_nonce E) (con_disk c)
      (new_wallet E (args ! 2)) (args ! 3) pw = (Inr (), d)"
  shows "\<exists>c1. cmd_create E args c = (Some (Inr ()), c1) \<and> con_disk c1 = d \<and> con_input c1 = rest"
  using assms by (simp add: cmd_create_def Let_def con_bind_exists con_bind_save println_all_run)

lemma cmd_restore_succeeds:
  assumes "3 \<le> length args" "disk_faults (con_disk c) = []" "file_at (con_disk c) (args ! 2) = None"
    and "con_input c = Inr line # Inr label # Inr pw # Inr pw # rest"
    and "validate_seed_phrase (env_bip39 E) (str_trim line)"
    and "save_wallet_v2 (env_hashing E) (env_aead E) (env_wallet_json E) (run_aes_nonce E) (con_disk c)
      (new_wallet E (str_trim label)) (args ! 2) pw = (Inr (), d)"
  shows "\<exists>c1. cmd_restore E args c = (Some (Inr ()), c1) \<and> con_disk c1 = d \<and> con_input c1 = rest"
  using assms by (simp add: cmd_restore_def Let_def con_bind_exists con_bind_save println_all_run)

lemma cmd_send_succeeds:
  assumes "6 \<le> length args" "f64_parse (args ! 4) = Some a" "f64_parse (args ! 5) = Some f" "con_input c = Inr pw # rest"
    and "load_wallet (env_hashing E) (env_aead E) (env_wallet_json E) (con_disk c) (args ! 2) pw = (Inr w, d)"
    and "build_transfer (env_hashing E) (env_dilithium E) (env_tx_json E) (run_sign_random E) (run_now E) (run_now_ms E)
       w (args ! 3) (kyv_to_units a) (kyv_to_units f) 0 (replicate 64 (CHR ''0'')) = Inr tx"
    and "env_tx_pretty E tx = Inr json"
  shows "\<exists>c1. cmd_send E args c = (Some (Inr ()), c1) \<and> con_disk c1 = d \<and> con_input c1 = rest"
  using assms by (simp add: cmd_send_def Let_def con_bind_load println_all_run)

text \<open>What a successful \<open>info\<close> appends to the output.\<close>

lemma hex_prefix:
  assumes "hashing_ok H" "n < 2 * length b"
  shows "str_prefix n (hex_encode H b) = Some (take n (hex_encode H b))"
proof -
  have n: "n < length (hex_encode H b)" using assms by (simp add: hex_encode_length)
  then have "hex_encode H b ! n \<in> lower_hex_digits" using hex_encode_digits [OF assms(1)] nth_mem by blast
  then have "\<not> is_cont (hex_encode H b ! n)" by (auto simp: is_cont_def Let_def dest: lower_hex_ascii)
  with n show ?thesis by (simp add: str_prefix_def)
qed

lemma cmd_info_succeeds:
  assumes "3 \<le> length args" "con_input c = Inr pw # rest"
    and "load_wallet (env_hashing E) (env_aead E) (env_wallet_json E) (con_disk c) (args ! 2) pw = (Inr w, d)"
    and "hashing_ok (env_hashing E)" "16 < length (kp_public_key (wal_signing_keypair w))"
  shows "\<exists>c1 pre post. cmd_info E args c = (Some (Inr ()), c1) \<and> con_disk c1 = d \<and> con_input c1 = rest
    \<and> con_output c1 = con_output c @ pre @ ''  Label:   '' @ wal_label w @ newline @ ''  Address: '' @ wal_address w @ newline @ post"
proof -
  let ?key = "hex_encode (env_hashing E) (kp_public_key (wal_signing_keypair w))"
  have key: "str_prefix 32 ?key = Some (take 32 ?key)" by (rule hex_prefix [OF assms(4)]) (use assms(5) in simp)
  have "\<exists>c1. cmd_info E args c = (Some (Inr ()), c1) \<and> con_disk c1 = d \<and> con_input c1 = rest
    \<and> (\<exists>post. con_output c1 = con_output c @ (''  Wallet password: '' @ concat (map (\<lambda>l. l @ newline) (banner ''  KYVERA WALLET INFO'')))
         @ ''  Label:   '' @ wal_label w @ newline @ ''  Address: '' @ wal_address w @ newline @ post)"
    using assms(1-3) key by (simp add: cmd_info_def Let_def con_bind_load println_all_run wallet_get_info_def)
  then show ?thesis by blast
qed

text \<open>The phrase of a restore is checked and then forgotten.\<close>

lemma con_bind_exists_input:
  "con_bind (exists_command path) f (c\<lparr>con_input := ls\<rparr>) =
     (case wallet_exists (con_disk c) path of (b, d) \<Rightarrow> f b (c\<lparr>con_input := ls, con_disk := d\<rparr>))"
  by (simp add: con_bind_def exists_command_def on_disk_def split: prod.splits)

lemma restore_phrase_irrelevant:
  assumes "3 \<le> length args" "\<not> fst (wallet_exists (con_disk c) (args ! 2))"
    and "validate_seed_phrase (env_bip39 E) (str_trim l1)" "validate_seed_phrase (env_bip39 E) (str_trim l2)"
  shows "cmd_restore E args (c\<lparr>con_input := Inr l1 # rest\<rparr>) = cmd_restore E args (c\<lparr>con_input := Inr l2 # rest\<rparr>)"
proof -
  obtain d where "wallet_exists (con_disk c) (args ! 2) = (False, d)" using assms(2) by (metis prod.collapse)
  then show ?thesis using assms by (simp add: cmd_restore_def con_bind_exists_input Let_def)
qed

text \<open>What a successful \<open>send\<close> has signed.\<close>

lemma load_command_Inr:
  "load_command E path pw c = (Some (Inr w), c') \<Longrightarrow>
     \<exists>d. load_wallet (env_hashing E) (env_aead E) (env_wallet_json E) (con_disk c) path pw = (Inr w, d) \<and> c' = c\<lparr>con_disk := d\<rparr>"
  by (cases "load_wallet (env_hashing E) (env_aead E) (env_wallet_json E) (con_disk c) path pw")
    (auto simp: load_command_def on_disk_def)

lemma prompt_password_Inr:
  "prompt_password s c = (Some (Inr pw), c1) \<Longrightarrow>
     con_input c = Inr pw # con_input c1 \<and> con_disk c1 = con_disk c \<and> con_output c1 = con_output c @ s"
  by (auto simp: prompt_password_def con_bind_def print_text_def read_line_def split: list.splits)

lemma cmd_send_signs:
  assumes "cmd_send E args c = (Some (Inr ()), c1)"
  shows "\<exists>a f pw ls w tx d json pre. f64_parse (args ! 4) = Some a \<and> f64_parse (args ! 5) = Some f \<and> con_input c = Inr pw # ls
    \<and> load_wallet (env_hashing E) (env_aead E) (env_wallet_json E) (con_disk c) (args ! 2) pw = (Inr w, d)
    \<and> build_transfer (env_hashing E) (env_dilithium E) (env_tx_json E) (run_sign_random E) (run_now E) (run_now_ms E)
       w (args ! 3) (kyv_to_units a) (kyv_to_units f) 0 (replicate 64 (CHR ''0'')) = Inr tx
    \<and> env_tx_pretty E tx = Inr json
    \<and> con_output c1 = con_output c @ pre @ ''  Raw signed transaction:'' @ newline @ json @ newline"
proof -
  have len: "6 \<le> length args" using assms by (auto simp: cmd_send_def not_less split: if_splits)
  obtain a f pw c2 w c3 tx json ls c4 where
    parsed: "f64_parse (args ! 4) = Some a" "f64_parse (args ! 5) = Some f"
    and asked: "prompt_password ''  Wallet password: '' c = (Some (Inr pw), c2)" "load_command E (args ! 2) pw c2 = (Some (Inr w), c3)"
    and built: "build_transfer (env_hashing E) (env_dilithium E) (env_tx_json E) (run_sign_random E) (run_now E) (run_now_ms E)
       w (args ! 3) (kyv_to_units a) (kyv_to_units f) 0 (replicate 64 (CHR ''0'')) = Inr tx" "env_tx_pretty E tx = Inr json"
    and out: "println_all ls c3 = (Some (Inr ()), c4)"
      "println_all [''  Raw signed transaction:'', json] c4 = (Some (Inr ()), c1)"
    using assms len
    by (auto simp: cmd_send_def Let_def con_bind_Inr simp del: con_bind_println split: if_splits)
  obtain d where "load_wallet (env_hashing E) (env_aead E) (env_wallet_json E) (con_disk c2) (args ! 2) pw = (Inr w, d)"
    "c3 = c2\<lparr>con_disk := d\<rparr>"
    using load_command_Inr [OF asked(2)] by blast
  moreover have "con_output c1 = con_output c3 @ concat (map (\<lambda>l. l @ newline) ls) @ ''  Raw signed transaction:'' @ newline @ json @ newline"
    using out by (auto simp: println_all_run)
  ultimately show ?thesis
    using prompt_password_Inr [OF asked(1)] parsed built
    by (intro exI [of _ a] exI [of _ f] exI [of _ pw] exI [of _ "con_input c2"] exI [of _ w] exI [of _ tx] exI [of _ d] exI [of _ json]
        exI [of _ "''  Wallet password: '' @ concat (map (\<lambda>l. l @ newline) ls)"]) simp
qed

section \<open>Amounts\<close>

lemma f64_lit_giga: "f64_lit 1000000000 = F64_Fin False 1000000000"
  using to_f64_nat [of 1000000000 False] by simp

text \<open>A value that is less than one away from a number of units.\<close>

lemma floor_near:
  assumes "\<bar>x - of_nat n\<bar> < (1 :: rat)" "0 \<le> x"
  shows "nat \<lfloor>x\<rfloor> = n - 1 \<or> nat \<lfloor>x\<rfloor> = n"
proof -
  have "\<lfloor>x\<rfloor> \<le> int n" "int n \<le> \<lfloor>x\<rfloor> + 1" using assms(1) by linarith+
  then show ?thesis by linarith
qed

lemma kyv_to_units_near:
  assumes "N < 2 ^ 51"
  shows "unat (kyv_to_units (to_f64 False (of_nat N / 10 ^ 9))) \<in> {N - 1, N}"
proof (cases "N = 0")
  case True
  have "f64_lit 0 = F64_Fin False 0" using to_f64_nat [of 0 False] by simp
  with True show ?thesis by (simp add: kyv_to_units_def f64_lit_giga)
next
  case False
  let ?N = "of_nat N :: rat" and ?q = "of_nat N / 10 ^ 9 :: rat"
  have N1: "1 \<le> ?N" using False by simp
  have "?N \<le> of_nat (2 ^ 51)" using assms by (simp only: of_nat_le_iff)
  then have N2: "?N \<le> 2 ^ 51" by simp
  have tiny: "(2 :: rat) powi (- 1022) \<le> 1 / 10 ^ 9" by (simp add: power_int_minus)
  have huge: "(2 :: rat) ^ 53 < 2 ^ 1024" by simp
  define r where "r = round_mag ?q"
  have err: "\<bar>r - ?q\<bar> \<le> ?q / 2 ^ 53"
    unfolding r_def by (rule round_mag_error, rule order_trans [OF tiny]) (use N1 in simp)
  define P where "P = r * 10 ^ 9"
  have r: "- ?N / 2 ^ 53 \<le> P - ?N" "P - ?N \<le> ?N / 2 ^ 53"
    using abs_le_D1 [OF err] abs_le_D2 [OF err] by (simp_all add: P_def field_simps)
  then have p: "1 / 2 \<le> P" "P \<le> 2 ^ 52" using N1 N2 by (simp_all add: field_simps)
  define t where "t = round_mag P"
  have err2: "\<bar>t - P\<bar> \<le> P / 2 ^ 53"
    unfolding t_def by (rule round_mag_error, rule order_trans [OF tiny]) (use p in simp)
  have t: "- P / 2 ^ 53 \<le> t - P" "t - P \<le> P / 2 ^ 53"
    using abs_le_D1 [OF err2] abs_le_D2 [OF err2] by (simp_all add: field_simps)
  have "t - ?N < 1" "- 1 < t - ?N" "0 \<le> t" "t < 2 ^ 53" using r t p N1 N2 by (simp_all add: field_simps)
  then have near: "\<bar>t - ?N\<bar> < 1" "0 \<le> t" "t < 2 ^ 53" by (simp_all add: abs_less_iff)
  have "to_f64 False ?q = F64_Fin False r" "to_f64 False (r * 1000000000) = F64_Fin False t"
    using p near(3) huge by (simp_all add: to_f64_def Let_def t_def P_def r_def [symmetric, simplified])
  then have u: "kyv_to_units (to_f64 False ?q) = of_int \<lfloor>t\<rfloor>" using near(3) by (simp add: kyv_to_units_def f64_lit_giga)
  have "0 \<le> \<lfloor>t\<rfloor>" "\<lfloor>t\<rfloor> < 2 ^ 64" using near(2,3) by (simp_all add: floor_less_iff)
  then have "unat (kyv_to_units (to_f64 False ?q)) = nat \<lfloor>t\<rfloor>" unfolding u by (rule unat_of_int_u64)
  then show ?thesis using floor_near [OF near(1,2)] by simp
qed

lemma kyv_to_units_whole:
  assumes "n \<le> 4000000000"
  shows "unat (kyv_to_units (to_f64 False (of_nat n))) = n * 1000000000"
proof -
  have n: "to_f64 False (of_nat n) = F64_Fin False (of_nat n)" by (rule to_f64_nat) (use assms in simp)
  have mag: "f64_mag (of_nat (n * 1000000000))"
    unfolding f64_mag_def by (intro exI [of _ "int (n * 5 ^ 9)"] exI [of _ 9]) (use assms in simp)
  have top: "n * 1000000000 < 2 ^ 64" using assms by simp
  then have real: "(of_nat (n * 1000000000) :: rat) < of_nat (2 ^ 64)" by (simp only: of_nat_less_iff)
  then have "to_f64 False (of_nat (n * 1000000000)) = F64_Fin False (of_nat (n * 1000000000))"
    by (intro to_f64_exact mag) simp_all
  moreover have "\<lfloor>of_nat (n * 1000000000) :: rat\<rfloor> = int (n * 1000000000)" by (rule floor_of_nat)
  moreover have "(of_nat (n * 1000000000) :: rat) < 2 ^ 64" using real by simp
  ultimately have "kyv_to_units (to_f64 False (of_nat n)) = of_int (int (n * 1000000000))"
    by (simp add: kyv_to_units_def n f64_lit_giga)
  moreover have "int (n * 1000000000) < 2 ^ 64" using assms by simp
  ultimately show ?thesis by (simp only: unat_of_int_u64 of_nat_0_le_iff nat_int)
qed

text \<open>From the text: a decimal number with at most nine digits after the point is a number of units.\<close>

lemma digits_value_map: "list_all (\<lambda>d. d < 10) ds \<Longrightarrow> digits_value (map digit_char ds) = foldl (\<lambda>n d. 10 * n + d) 0 ds"
  by (induction ds rule: rev_induct) (simp_all add: digits_value_snoc digits_value_Nil)

lemma amount_text_near:
  assumes "list_all (\<lambda>d. d < 10) fs" "length fs \<le> 9"
    and N: "N = a * 10 ^ 9 + foldl (\<lambda>n d. 10 * n + d) 0 fs * 10 ^ (9 - length fs)" "N < 2 ^ 51"
  shows "\<exists>x. f64_parse (dec_string a @ ''.'' @ map digit_char fs) = Some x \<and> unat (kyv_to_units x) \<in> {N - 1, N}"
proof -
  let ?k = "length fs"
  define v where "v = foldl (\<lambda>n d. 10 * n + d) 0 fs"
  have nine: "(10 :: nat) ^ 9 = 10 ^ ?k * 10 ^ (9 - ?k)" using assms(2) by (simp flip: power_add)
  have "list_all is_ascii_digit (map digit_char fs)" using assms(1) by (auto simp: list_all_iff)
  then have "f64_parse (dec_string a @ ''.'' @ map digit_char fs) = Some (to_f64 False (of_nat (a * 10 ^ ?k + v) / 10 ^ ?k))"
    using f64_parse_decimal [OF dec_string_digits dec_string_nonempty, of "map digit_char fs" a]
    by (simp add: digits_value_append digits_value_dec_string digits_value_map [OF assms(1)] v_def)
  moreover have "N = (a * 10 ^ ?k + v) * 10 ^ (9 - ?k)" unfolding N(1) nine v_def [symmetric] by (simp add: algebra_simps)
  then have eq: "(of_nat N :: rat) = of_nat (a * 10 ^ ?k + v) * 10 ^ (9 - ?k)" by simp
  have ten: "(10 :: rat) ^ 9 = 10 ^ ?k * 10 ^ (9 - ?k)" using assms(2) by (simp flip: power_add)
  have "(of_nat N :: rat) / 10 ^ 9 = of_nat (a * 10 ^ ?k + v) / 10 ^ ?k" unfolding eq ten by simp
  ultimately have "f64_parse (dec_string a @ ''.'' @ map digit_char fs) = Some (to_f64 False (of_nat N / 10 ^ 9))" by (simp only:)
  then show ?thesis using kyv_to_units_near [OF N(2)] by blast
qed

lemma amount_text_whole:
  assumes "n \<le> 4000000000"
  shows "\<exists>x. f64_parse (dec_string n) = Some x \<and> unat (kyv_to_units x) = n * 1000000000"
  using f64_parse_digits [OF dec_string_digits dec_string_nonempty, of n] kyv_to_units_whole [OF assms]
  by (simp add: digits_value_dec_string)

text \<open>The amount text 4.1 loses a unit.\<close>

lemma units_of_4_1: "map_option kyv_to_units (f64_parse ''4.1'') = Some 4099999999"
proof -
  have p: "f64_parse ''4.1'' = Some (to_f64 False (41 / 10))"
    using f64_parse_decimal [of "''4''" "''1''"] by (simp add: is_ascii_digit_def char_digit_def digits_value_def)
  have q: "to_f64 False (41 / 10) = F64_Fin False (2308094809027379 / 562949953421312)"
    by (subst to_f64_eval [of 2 _ 4616189618054758]) (simp_all add: round_even_def Let_def floor_rat_numeral)
  have m: "to_f64 False (2308094809027379 / 562949953421312 * 1000000000) = F64_Fin False (8598323199999999 / 2097152)"
    by (subst to_f64_eval [of 31 _ 8598323199999999]) (simp_all add: round_even_def Let_def floor_rat_numeral)
  show ?thesis using m by (simp add: p q kyv_to_units_def f64_lit_giga floor_rat_numeral)
qed

end
