(* ===== verification/Cli_Properties.thy ===== *)
theory Cli_Properties
  imports Wallet_Cli Reference_Crypto
begin

text \<open>
  The properties of the command line wallet: what a run does to the wallet files, what a created
  wallet shows, what \<open>send\<close> signs and how the amounts on the command line become units. The
  witnesses run the program on the reference crates.
\<close>

section \<open>Wallet files\<close>

text \<open>C37. No run overwrites a wallet: unless the check for an existing file fails, every file that is
  there before a run is there afterwards with the same bytes, except the temporary file of a save
  to one of the arguments; and the commands other than create and restore change no file at all.\<close>

theorem existing_files_kept:
  assumes "fst (next_fault (con_disk c)) = None"
  shows "(\<forall>q. file_at (con_disk c) q \<noteq> None \<and> (\<forall>p \<in> set args. q \<noteq> p @ ''.tmp'') \<longrightarrow>
      file_at (con_disk (snd (cli_main E args c))) q = file_at (con_disk c) q)
    \<and> (args ! 1 \<noteq> ''create'' \<and> args ! 1 \<noteq> ''restore'' \<longrightarrow>
        file_at (con_disk (snd (cli_main E args c))) = file_at (con_disk c))"
proof -
  have "file_at (con_disk (snd (cli_dispatch E args c))) q = file_at (con_disk c) q"
    if "args ! 1 \<noteq> ''create''" "args ! 1 \<noteq> ''restore''" for q
    using dispatch_keeps_disk [OF that, of q E] by (simp add: keeps_def)
  then show ?thesis
    using dispatch_keeps_files [OF assms, of _ args E] by (auto simp: cli_main_disk fun_eq_iff)
qed

definition demo_env ::
  "(bytes, bytes, bytes, bytes, bytes, bytes, bytes, bytes, bytes, bytes, bytes) cli_env" where
  "demo_env = \<lparr>env_hashing = ref_hashing, env_dilithium = ref_sig, env_kyber = ref_kem, env_sphincs = ref_sig,
     env_bip39 = ref_bip39, env_aead = ref_aead, env_wallet_json = ref_wallet_json,
     env_tx_json = \<lparr>to_vec = (\<lambda>tx. Inr (tx_sender tx @ tx_receiver tx)), from_slice = (\<lambda>_. Inl ''unused'')\<rparr>,
     env_tx_pretty = (\<lambda>tx. Inr (tx_hash tx)), env_date = (\<lambda>_. None),
     run_entropy = replicate 32 (CHR ''e''), run_dilithium_pair = (replicate 32 (CHR ''d''), replicate 32 (CHR ''d'')),
     run_kyber_pair = (''net'', ''net''), run_sphincs_pair = (''epoch'', ''epoch''), run_sign_random = [],
     run_aes_nonce = replicate 12 (CHR ''n''), run_now = 1700000000, run_now_ms = 1700000000000\<rparr>"

definition demo_console :: "(string + string) list \<Rightarrow> (string \<times> bytes) list \<Rightarrow> console" where
  "demo_console input files =
     \<lparr>con_input = input, con_output = [], con_errors = [], con_disk = \<lparr>disk_files = files, disk_faults = []\<rparr>\<rparr>"

theorem existing_files_kept_witness:
  "file_at (con_disk (snd (cli_main demo_env [''kyv-wallet'', ''create'', ''main'', ''my.kyv'']
      (demo_console [Inr ''pw'', Inr ''pw''] [(''my.kyv'', ''precious'')])))) ''my.kyv'' = Some ''precious''"
proof -
  let ?c = "demo_console [Inr ''pw'', Inr ''pw''] [(''my.kyv'', ''precious'')]"
  have "fst (next_fault (con_disk ?c)) = None" "file_at (con_disk ?c) ''my.kyv'' = Some ''precious''"
    by (simp_all add: demo_console_def next_fault_def file_at_def)
  with existing_files_kept [of ?c "[''kyv-wallet'', ''create'', ''main'', ''my.kyv'']" demo_env] show ?thesis by simp
qed

text \<open>C38. A created wallet is shown again: with no file at the path, no faults and the same password
  typed three times, \<open>create\<close> exits with code 0, and \<open>info\<close> after it exits with code 0 and prints the
  label and the address of the created wallet.\<close>

theorem created_wallet_is_shown:
  assumes "hashing_ok (env_hashing E)" "bip39_ok (env_bip39 E)" "aead_ok (env_aead E)" "json_text_ok (env_wallet_json E)"
    and "length (run_entropy E) = 32" "length (run_aes_nonce E) = nonce_size"
    and "16 < length (sig_pk_as_bytes (env_dilithium E) (fst (run_dilithium_pair E)))"
    and "to_vec (env_wallet_json E) (new_wallet E label) = Inr json"
    and "aes_encrypt (env_aead E) (derive_key_for_storage (env_hashing E) pw) (run_aes_nonce E) json = Some ct"
    and "disk_faults (con_disk c) = []" "file_at (con_disk c) path = None" "con_input c = Inr pw # Inr pw # Inr pw # rest"
  shows "\<exists>c1 c2 pre post. cli_main E [prog, ''create'', label, path] c = (Some 0, c1)
    \<and> cli_main E [prog, ''info'', path] c1 = (Some 0, c2)
    \<and> con_output c2 = con_output c1 @ pre @ ''  Label:   '' @ label @ newline
        @ ''  Address: '' @ wal_address (new_wallet E label) @ newline @ post"
proof -
  let ?w = "new_wallet E label"
  have n: "length (run_aes_nonce E) = 12" using assms(6) by (simp add: nonce_size_def)
  obtain phrase sb where phrase: "generate_seed_phrase (env_bip39 E) (run_entropy E) = Some phrase"
    "seed_from_phrase (env_bip39 E) phrase '''' = Inr sb"
    using generated_phrase_restores [OF assms(2,5), where pw = "''''"] by blast
  obtain d where save: "save_wallet_v2 (env_hashing E) (env_aead E) (env_wallet_json E) (run_aes_nonce E) (con_disk c) ?w path pw = (Inr (), d)"
    "disk_faults d = []" "file_at d path = Some (wallet_magic @ run_aes_nonce E @ ct)"
    by (rule no_fault_save [OF assms(10,8,9)])
  obtain c1 where c1: "cmd_create E [prog, ''create'', label, path] c = (Some (Inr ()), c1)" "con_disk c1 = d" "con_input c1 = Inr pw # rest"
    using cmd_create_succeeds [of "[prog, ''create'', label, path]" c pw "Inr pw # rest" E phrase sb d] assms(10-12) phrase save(1)
    by auto
  have ok: "verify_address_integrity (env_hashing E) ?w" unfolding new_wallet_def by (rule generated_wallet_integrity)
  have load: "load_wallet (env_hashing E) (env_aead E) (env_wallet_json E) (con_disk c1) path pw = (Inr ?w, d)"
    unfolding c1(2) by (rule save_v2_load [OF assms(3,4) n ok save(1) refl no_fault_read [OF save(2,3)]])
  have key: "16 < length (kp_public_key (wal_signing_keypair ?w))"
    using assms(7) by (simp add: new_wallet_def wallet_generate_def kp_generate_def case_prod_beta Let_def)
  obtain c2 pre post where c2: "cmd_info E [prog, ''info'', path] c1 = (Some (Inr ()), c2)"
    "con_output c2 = con_output c1 @ pre @ ''  Label:   '' @ wal_label ?w @ newline @ ''  Address: '' @ wal_address ?w @ newline @ post"
    using cmd_info_succeeds [of "[prog, ''info'', path]" c1 pw rest E ?w d] c1(3) load assms(1) key by auto
  have "wal_label ?w = label" by (simp add: new_wallet_def wallet_generate_def Let_def)
  with c1(1) c2 show ?thesis
    by (intro exI [of _ c1] exI [of _ c2] exI [of _ pre] exI [of _ post]) (simp add: cli_main_def cli_dispatch_def)
qed

theorem created_wallet_is_shown_witness:
  "\<exists>c1 c2 pre post. cli_main demo_env [''kyv-wallet'', ''create'', ''main'', ''my.kyv'']
       (demo_console [Inr ''pw'', Inr ''pw'', Inr ''pw''] []) = (Some 0, c1)
    \<and> cli_main demo_env [''kyv-wallet'', ''info'', ''my.kyv''] c1 = (Some 0, c2)
    \<and> con_output c2 = con_output c1 @ pre @ ''  Label:   main'' @ newline
        @ ''  Address: '' @ wal_address (new_wallet demo_env ''main'') @ newline @ post"
proof -
  obtain json where json: "to_vec (env_wallet_json demo_env) (new_wallet demo_env ''main'') = Inr json"
    using ref_wallet_json_ok(2) by (auto simp: codec_total_def demo_env_def)
  obtain ct where ct: "aes_encrypt (env_aead demo_env) (derive_key_for_storage (env_hashing demo_env) ''pw'') (run_aes_nonce demo_env) json = Some ct"
    by (simp add: demo_env_def ref_aead_def)
  show ?thesis
    using created_wallet_is_shown [OF _ _ _ _ _ _ _ json ct, of "demo_console [Inr ''pw'', Inr ''pw'', Inr ''pw''] []" "''my.kyv''" "[]" "''kyv-wallet''"]
    by (simp add: demo_env_def demo_console_def ref_hashing_ok ref_bip39_ok ref_aead_ok ref_wallet_json_ok nonce_size_def
        ref_sig_def file_at_def)
qed

section \<open>Transfers\<close>

text \<open>C39. What \<open>send\<close> signs: a run that exits with code 0 has opened the wallet file with the line it read
  as password, and has printed, last, the text of a transfer from the wallet's address to the given valid
  address, of the given amount and fee, never zero in amount, always with nonce 0, with the hash of
  its own fields; it verifies under the wallet's public key if that is a good key.\<close>

theorem send_signs_what_was_asked:
  assumes "cli_main E args c = (Some 0, c1)" "2 \<le> length args" "args ! 1 = ''send''"
  shows "\<exists>a f pw ls w d tx json pre. f64_parse (args ! 4) = Some a \<and> f64_parse (args ! 5) = Some f \<and> con_input c = Inr pw # ls
    \<and> load_wallet (env_hashing E) (env_aead E) (env_wallet_json E) (con_disk c) (args ! 2) pw = (Inr w, d)
    \<and> tx_sender tx = wal_address w \<and> tx_receiver tx = args ! 3 \<and> validate_address (args ! 3)
    \<and> tx_amount tx = kyv_to_units a \<and> tx_amount tx \<noteq> 0 \<and> tx_fee tx = kyv_to_units f \<and> tx_nonce tx = 0
    \<and> tx_type tx = Transfer \<and> canonical_hash (env_hashing E) tx
    \<and> (kp_good (env_hashing E) (env_dilithium E) (wal_signing_keypair w) \<and> codec_total (env_tx_json E) \<longrightarrow>
         wallet_signed (env_hashing E) (env_dilithium E) (env_tx_json E) (run_now_ms E) (replicate 64 (CHR ''0''))
           (wallet_public_key_hex (env_hashing E) w) tx)
    \<and> env_tx_pretty E tx = Inr json
    \<and> con_output c1 = con_output c @ pre @ ''  Raw signed transaction:'' @ newline @ json @ newline"
proof -
  have run: "cmd_send E args c = (Some (Inr ()), c1)"
    using assms cli_main_code_0 [OF assms(1,2)] by (simp add: cli_dispatch_def)
  obtain a f pw ls w tx d json pre where s: "f64_parse (args ! 4) = Some a" "f64_parse (args ! 5) = Some f" "con_input c = Inr pw # ls"
    "load_wallet (env_hashing E) (env_aead E) (env_wallet_json E) (con_disk c) (args ! 2) pw = (Inr w, d)"
    and b: "build_transfer (env_hashing E) (env_dilithium E) (env_tx_json E) (run_sign_random E) (run_now E) (run_now_ms E)
       w (args ! 3) (kyv_to_units a) (kyv_to_units f) 0 (replicate 64 (CHR ''0'')) = Inr tx"
    and o: "env_tx_pretty E tx = Inr json"
      "con_output c1 = con_output c @ pre @ ''  Raw signed transaction:'' @ newline @ json @ newline"
    using cmd_send_signs [OF run] by (elim exE conjE) (rule that)
  show ?thesis
    using s o build_transfer_fields [OF b] build_transfer_verifies [OF b]
    by (intro exI [of _ a] exI [of _ f] exI [of _ pw] exI [of _ ls] exI [of _ w] exI [of _ d] exI [of _ tx] exI [of _ json] exI [of _ pre]) simp
qed

text \<open>A wallet file as a save writes it, and its owner.\<close>

definition demo_key_wallet :: kyvera_wallet where
  "demo_key_wallet = new_wallet demo_env ''main''"

definition demo_wallet_file :: bytes where
  "demo_wallet_file = wallet_magic @ run_aes_nonce demo_env
     @ the (aes_encrypt ref_aead (derive_key_for_storage ref_hashing ''pw'') (run_aes_nonce demo_env)
         (projr (to_vec ref_wallet_json demo_key_wallet)))"

lemma demo_wallet_loads:
  "load_wallet ref_hashing ref_aead ref_wallet_json (con_disk (demo_console ls [(''my.kyv'', demo_wallet_file)])) ''my.kyv'' ''pw''
     = (Inr demo_key_wallet, con_disk (demo_console ls [(''my.kyv'', demo_wallet_file)]))"
proof -
  let ?d = "con_disk (demo_console ls [(''my.kyv'', demo_wallet_file)])"
  obtain json where json: "to_vec ref_wallet_json demo_key_wallet = Inr json"
    using ref_wallet_json_ok(2) by (auto simp: codec_total_def)
  obtain ct where ct: "aes_encrypt ref_aead (derive_key_for_storage ref_hashing ''pw'') (run_aes_nonce demo_env) json = Some ct"
    by (simp add: ref_aead_def)
  have n: "length (run_aes_nonce demo_env) = 12" by (simp add: demo_env_def)
  have ok: "verify_address_integrity ref_hashing demo_key_wallet"
    using generated_wallet_integrity [of ref_hashing] by (simp add: demo_key_wallet_def new_wallet_def demo_env_def)
  have "fs_read ?d ''my.kyv'' = (Inr (wallet_magic @ run_aes_nonce demo_env @ ct), ?d)"
    by (rule no_fault_read) (simp_all add: demo_console_def file_at_def demo_wallet_file_def json ct)
  from load_wallet_open [OF this] open_wallet_sealed [OF ref_aead_ok ref_wallet_json_ok(1) n ok json ct] show ?thesis by simp
qed

theorem send_signs_what_was_asked_witness:
  "\<exists>c1 (tx :: transaction) pre. cli_main demo_env [''kyv-wallet'', ''send'', ''my.kyv'', wal_address demo_key_wallet, ''4'', ''1'']
       (demo_console [Inr ''pw''] [(''my.kyv'', demo_wallet_file)]) = (Some 0, c1)
     \<and> tx_sender tx = wal_address demo_key_wallet \<and> tx_receiver tx = wal_address demo_key_wallet
     \<and> con_output c1 = pre @ ''  Raw signed transaction:'' @ newline @ tx_hash tx @ newline"
proof -
  let ?args = "[''kyv-wallet'', ''send'', ''my.kyv'', wal_address demo_key_wallet, ''4'', ''1'']"
  let ?c = "demo_console [Inr ''pw''] [(''my.kyv'', demo_wallet_file)]"
  have texts: "dec_string 4 = ''4''" "dec_string 1 = ''1''" by (simp_all add: dec_string.simps digit_char_def char_of_def bit_0)
  obtain a where a: "f64_parse ''4'' = Some a" "unat (kyv_to_units a) = 4000000000"
    using amount_text_whole [of 4] texts by auto
  obtain f where f: "f64_parse ''1'' = Some f" using amount_text_whole [of 1] texts by auto
  have env: "env_hashing demo_env = ref_hashing" "env_dilithium demo_env = ref_sig" "env_aead demo_env = ref_aead"
    "env_wallet_json demo_env = ref_wallet_json" "env_tx_pretty demo_env = (\<lambda>tx. Inr (tx_hash tx))"
    by (simp_all add: demo_env_def)
  have total: "codec_total (env_tx_json demo_env)" by (simp add: codec_total_def demo_env_def)
  have good: "kp_good ref_hashing ref_sig (wal_signing_keypair demo_key_wallet)"
    using ref_kp_good by (simp add: demo_key_wallet_def new_wallet_def wallet_generate_def demo_env_def Let_def)
  have valid: "validate_address (wal_address demo_key_wallet)"
    using generated_address_valid [OF ref_hashing_ok]
    by (simp add: demo_key_wallet_def new_wallet_def wallet_generate_def demo_env_def Let_def)
  have nz: "kyv_to_units a \<noteq> 0" using a(2) by auto
  obtain tx where "build_transfer ref_hashing ref_sig (env_tx_json demo_env) (run_sign_random demo_env) (run_now demo_env) (run_now_ms demo_env)
      demo_key_wallet (wal_address demo_key_wallet) (kyv_to_units a) (kyv_to_units f) 0 (replicate 64 (CHR ''0'')) = Inr tx"
    unfolding builders_sign_and_seal(1) [OF nz valid]
    by (rule sign_and_seal_verifies [OF good total unsigned_new])
  then obtain c1 where "cmd_send demo_env ?args ?c = (Some (Inr ()), c1)"
    using cmd_send_succeeds [of ?args a f ?c "''pw''" "[]" demo_env demo_key_wallet "con_disk ?c" tx "tx_hash tx"] a(1) f demo_wallet_loads [of "[Inr ''pw'']"]
    by (auto simp: env demo_console_def)
  then have run: "cli_main demo_env ?args ?c = (Some 0, c1)" by (simp add: cli_main_def cli_dispatch_def)
  have args: "2 \<le> length ?args" "?args ! 1 = ''send''" by simp_all
  obtain pw ls w d t json pre where t: "con_input ?c = Inr pw # ls"
    "load_wallet (env_hashing demo_env) (env_aead demo_env) (env_wallet_json demo_env) (con_disk ?c) (?args ! 2) pw = (Inr w, d)"
    "tx_sender t = wal_address w" "tx_receiver t = ?args ! 3" "env_tx_pretty demo_env t = Inr json"
    "con_output c1 = con_output ?c @ pre @ ''  Raw signed transaction:'' @ newline @ json @ newline"
    using send_signs_what_was_asked [OF run args] by (elim exE conjE) (rule that)
  have "pw = ''pw''" using t(1) by (simp add: demo_console_def)
  then have "w = demo_key_wallet" using t(2) demo_wallet_loads [of "[Inr ''pw'']"] by (simp add: env)
  moreover have "con_output ?c = []" "json = tx_hash t" using t(5) by (simp_all add: demo_console_def env)
  ultimately show ?thesis using run t(3,4,6) by (intro exI [of _ c1] exI [of _ t] exI [of _ pre]) simp
qed

text \<open>C40. Amounts become units up to one: a decimal text with at most nine digits after the point, worth
  \<open>N\<close> units with \<open>N\<close> below 2^51, is parsed and yields \<open>N\<close> units or one fewer, never more; a whole number
  of KYV up to 4,000,000,000 yields exactly its units. The loss occurs: 4.1 yields 4099999999 units. The
  text a command prints of the amount it read reads back as the same amount.\<close>

theorem amounts_lose_at_most_one_unit:
  assumes "list_all (\<lambda>d. d < 10) fs" "length fs \<le> 9"
    and "N = a * 10 ^ 9 + foldl (\<lambda>n d. 10 * n + d) 0 fs * 10 ^ (9 - length fs)" "N < 2 ^ 51"
    and "n \<le> 4000000000"
  shows "(\<exists>x. f64_parse (dec_string a @ ''.'' @ map digit_char fs) = Some x \<and> unat (kyv_to_units x) \<in> {N - 1, N})
    \<and> (\<exists>x. f64_parse (dec_string n) = Some x \<and> unat (kyv_to_units x) = n * 10 ^ 9)
    \<and> map_option kyv_to_units (f64_parse ''4.1'') = Some 4099999999
    \<and> (\<forall>s x. f64_parse s = Some x \<longrightarrow> f64_parse (f64_display x) = Some x)"
  using amount_text_near [OF assms(1-4)] amount_text_whole [OF assms(5)] units_of_4_1 f64_parse_value f64_display_parses
  by simp

theorem amounts_lose_at_most_one_unit_witness:
  "\<exists>x. f64_parse ''2.5'' = Some x \<and> unat (kyv_to_units x) \<in> {2499999999, 2500000000}"
proof -
  have "dec_string 2 @ ''.'' @ map digit_char [5] = ''2.5''" by (simp add: dec_string.simps digit_char_def char_of_def bit_0)
  then show ?thesis using amounts_lose_at_most_one_unit [of "[5]" 2500000000 2 0] by simp
qed

end
