(* ===== verification/Hash_Rate.thy ===== *)
theory Hash_Rate
  imports Mining Float64
begin

text \<open>
  \<open>estimate_hash_rate\<close> of \<open>src/src/chain/mining.rs\<close>, a display value in the floating point of
  \<open>Float64\<close>. The lemmas show that the number of hashes, 16 per leading zero, is exact up to
  difficulty 255, so that only the division rounds.
\<close>

text \<open>\<open>difficulty as i32\<close> reads the same 32 bits with a sign.\<close>

definition estimate_hash_rate :: "u32 \<Rightarrow> f64 \<Rightarrow> f64" where
  "estimate_hash_rate difficulty average_block_time_seconds =
     (let expected_hashes = f64_powi (f64_lit 16) (sint difficulty)
      in f64_div expected_hashes average_block_time_seconds)"

section \<open>The hash rate\<close>

lemma to_f64_pow16: "n \<le> 255 \<Longrightarrow> to_f64 False (16 ^ n) = F64_Fin False (16 ^ n)"
proof -
  assume n: "n \<le> 255"
  have "(16 :: rat) ^ n = 2 ^ (4 * n)" by (simp add: power_mult)
  then have "(16 :: rat) ^ n = of_int 1 * 2 powi int (4 * n)" by (simp only: power_int_of_nat of_int_1 mult_1_left)
  then have mag: "f64_mag (16 ^ n)"
    unfolding f64_mag_def by (intro exI [of _ 1] exI [of _ "int (4 * n)"]) simp
  have "(16 :: rat) ^ n \<le> 16 ^ 255" by (rule power_increasing) (use n in simp_all)
  also have "\<dots> < 2 ^ 1024" by simp
  finally show ?thesis by (intro to_f64_exact mag) simp_all
qed

lemma powi_loop_pow16:
  "i + j * b \<le> 255 \<Longrightarrow>
   powi_loop (F64_Fin False (16 ^ i)) (F64_Fin False (16 ^ j)) b = F64_Fin False (16 ^ (i + j * b))"
proof (induction b arbitrary: i j rule: less_induct)
  case (less b)
  have mult: "f64_mul (F64_Fin False (16 ^ m)) (F64_Fin False (16 ^ n)) = F64_Fin False (16 ^ (m + n))"
    if "m + n \<le> 255" for m n
    using to_f64_pow16 [OF that] by (simp add: power_add)
  let ?i = "if odd b then i + j else i"
  have split: "?i + (j + j) * (b div 2) = i + j * b"
    by (cases "odd b") (auto simp: algebra_simps elim!: oddE evenE)
  have step: "(if odd b then f64_mul (F64_Fin False (16 ^ i)) (F64_Fin False (16 ^ j)) else F64_Fin False (16 ^ i))
      = F64_Fin False (16 ^ ?i)"
    using less.prems split mult [of i j] by (auto elim!: oddE)
  show ?case
  proof (cases "b div 2 = 0")
    case True
    then show ?thesis using step split by (subst powi_loop.simps) (simp add: Let_def del: f64_mul.simps)
  next
    case False
    then have "j + j \<le> (j + j) * (b div 2)" by simp
    then have "j + j \<le> 255" using less.prems split by linarith
    moreover have "b div 2 < b" using False by simp
    ultimately show ?thesis
      using step split False mult [of j j] less.IH [of "b div 2" ?i "j + j"] less.prems
      by (subst powi_loop.simps) (simp add: Let_def del: f64_mul.simps)
  qed
qed

text \<open>Within the difficulties the rules allow the number of hashes is exact, and only the
  division rounds.\<close>

lemma estimate_hash_rate_exact:
  assumes "unat d \<le> 64" "0 < t"
  shows "estimate_hash_rate d (F64_Fin False t) = to_f64 False (16 ^ unat d / t)"
proof -
  have "uint d \<le> 64" using assms(1) uint_nat [of d] by linarith
  moreover have "- (2 ^ 31) \<le> uint d" by (rule order_trans [OF _ uint_ge_0]) simp
  ultimately have "sint d = uint d" unfolding sint_uint by (intro signed_take_bit_int_eq_self) simp_all
  then show ?thesis
    using assms powi_loop_pow16 [of 0 1 "unat d"] to_f64_pow16 [of 0] to_f64_pow16 [of 1]
    by (simp add: estimate_hash_rate_def f64_powi_def Let_def)
qed

end
