(* ===== verification/Spec2Isabelle.thy ===== *)
theory Spec2Isabelle
  imports Ledger_Properties Chain_Properties Client_Properties Cli_Properties Hash_Rate
begin

text \<open>
  A model of the Rust crate under \<open>src/\<close>: the core of a two-layer blockchain, with micro blocks of
  transactions every few seconds and epoch blocks that commit to them, mine new coins and pay
  validators. The crate has no node loop and no network code; it is a library of operations that a
  node calls, and a command-line wallet.

  \<^bold>\<open>The parts of the program and their theories.\<close> Paths are under \<open>src/src/\<close>.

  \<^item> \<open>types/\<close>: accounts, transactions, blocks and their headers are the records of \<open>Types\<close>.
  \<^item> \<open>storage/db.rs\<close>: five sled trees behind thin wrappers, in \<open>Db\<close>; \<open>account_store.rs\<close>,
    \<open>block_store.rs\<close>, \<open>tx_store.rs\<close> and \<open>state_trie.rs\<close> keep JSON values in them, in
    \<open>Account_Store\<close>, \<open>Block_Store\<close>, \<open>Tx_Store\<close> and \<open>State_Trie\<close>.
  \<^item> \<open>chain/\<close>: header hashes (\<open>Chain_Hash\<close>), Merkle trees (\<open>Merkle\<close>), rewards, mining and difficulty
    (\<open>Mining\<close>), the displayed hash rate (\<open>Hash_Rate\<close>), block production and validation
    (\<open>Block_Producer\<close>).
  \<^item> \<open>consensus/\<close>: coinbase transactions (\<open>Coinbase\<close>), genesis (\<open>Genesis\<close>), validator rewards and
    slashing (\<open>Validators\<close>), the unbonding queue (\<open>Staking\<close>), the block rules (\<open>Rules\<close>).
  \<^item> \<open>mempool/\<close>: fee constants and splits (\<open>Fees\<close>), the fee multiplier (\<open>Dynamic_Fees\<close>), the pool
    (\<open>Pool\<close>).
  \<^item> \<open>crypto/\<close>: Dilithium, SPHINCS+ and Kyber wrappers, identities and the binding of a message to
    a nonce (\<open>Crypto\<close>).
  \<^item> \<open>wallet/\<close>: keys and the transaction builder (\<open>Wallet_Keys\<close>), encrypted files
    (\<open>Wallet_Storage\<close>), seed phrases (\<open>Seed\<close>).
  \<^item> \<open>bin/wallet.rs\<close>: the command line wallet, in \<open>Wallet_Cli\<close>: its commands are functions on a
    console of input lines, output text and disk.

  \<^bold>\<open>How the model reads.\<close> A definition has the name of the function it translates (a method of
  a struct with a short prefix, as \<open>kp_sign\<close> for \<open>KyveraKeyPair::sign\<close>, and \<open>_from\<close>, \<open>_loop\<close> or a noun for
  a loop or an expression inside a function), its branches in the order of the code. A function
  that can fail returns a sum, \<open>Inl\<close> the error with the text or the variant of the code; one that
  also writes returns the sum with the new database, on failure the database as the failed call
  left it, so partial effects are visible. \<open>Prelude\<close> has the operators that write \<open>?\<close>:
  \<open>res_bind\<close> for pure code, \<open>read_bind\<close> for reads, \<open>st_bind\<close> for writes. \<open>u32\<close>, \<open>u64\<close> and \<open>u128\<close> are words,
  a plain operator wraps (a release build), and \<open>checked_\<close> and \<open>saturating_\<close> operations are their
  own definitions; \<open>i64\<close> is an integer with \<open>i64_wrap\<close> where it can leave its range; \<open>usize\<close> lengths
  are naturals. Strings and byte vectors are character lists, one character a byte. Clocks
  (\<open>Utc::now\<close>) and random bytes are arguments. An \<open>f64\<close> is a sign and a rational magnitude, infinite
  or not a number, every operation the exact result rounded to nearest even (\<open>Float64\<close>); its text is
  parsed and printed as the standard library does (\<open>F64_Text\<close>). A panic is \<open>None\<close>.

  \<^bold>\<open>Parameters.\<close> Third-party crates are arguments of the definitions that use them: \<open>hashing\<close> (sha3
  and hex), \<open>backend\<close> (sled and serde_json), \<open>sig_scheme\<close> and \<open>kem_scheme\<close> (pqcrypto), \<open>aead\<close>
  (aes_gcm), \<open>bip39\<close>, and a \<open>disk\<close> with a queue of faults for \<open>std::fs\<close>. What a theorem needs of them is
  a named predicate: \<open>backend_ok\<close> (trees are maps in key order, a failed write wrote nothing or all,
  decoding inverts encoding), \<open>backend_total\<close> (also, no call fails), \<open>hashing_ok\<close> (32-byte digests
  as lower-case hex), \<open>sig_ok\<close>, \<open>kem_ok\<close>, \<open>aead_ok\<close>, \<open>bip39_ok\<close>, \<open>json_text_ok\<close>. SHA3-256 is not
  injective; where a theorem needs that it does not collide, its hypothesis \<open>collision_free\<close>
  names the inputs that are actually hashed. \<open>Reference\<close> and \<open>Reference_Crypto\<close> build instances and
  prove the predicates of them, and every property with a hypothesis is followed by a witness
  that applies it to such an instance.

  \<^bold>\<open>The abstract state.\<close> \<open>ledger B db\<close> is the map from addresses to accounts that the accounts
  tree stores, \<open>queue B db\<close> the map of pending withdrawals, \<open>block_at\<close>, \<open>hash_at\<close>, \<open>tx_at\<close> and
  \<open>hash_sent\<close> the stored blocks and transactions, \<open>pool_txs\<close> the set of pooled transactions.
  \<open>db_ok\<close> says that accounts lie under their own address with the tier of their stake;
  \<open>store_ready\<close> adds that the trees work and the accounts decode. \<open>ledger_apply\<close> is the abstract
  transaction; \<open>ledger_funds\<close> and \<open>all_funds\<close> are the coins of the accounts, without and with the
  withdrawal queue.

  \<^bold>\<open>Interfaces.\<close> The locale \<open>typed_store\<close> (in \<open>Db\<close>) is the contract of a store of JSON values under
  keys, interpreted for accounts, blocks and transactions; \<open>crediting\<close> (in \<open>Account_Store\<close>) is what
  every loop of credits relies on, interpreted by \<open>credit_account\<close> and used by genesis, rewards and
  withdrawals; \<open>ordered_index\<close> (in \<open>Pool\<close>) is the sorted index, interpreted by the fee index;
  \<open>transaction_source\<close> (in \<open>Pipeline\<close>) is what the block producer relies on, interpreted by the pool;
  \<open>signing\<close> (in \<open>Crypto\<close>) is interpreted by the Dilithium and the SPHINCS+ wrappers. \<open>Pipeline\<close> composes
  pool, block producer, rules and state: when a block of selected transactions is accepted and
  executed. \<open>Tx_Effects\<close> writes a transaction as its effect on each address (\<open>enact\<close>) and shows that
  the effects of transactions with different senders commute.

  \<^bold>\<open>What is proved.\<close> \<open>Ledger_Properties\<close> (C1 to C14): transactions refine the abstract ledger and
  succeed exactly when it allows; in every sequence of successful state operations (the step relation
  \<open>node_step\<close> and the runs of \<open>Node\<close>) nonces are taken in order, and, as long as no slash is above
  10000 basis points (a condition of C4 and C6 that the code does not check), coins are created by
  rewards only and lost only by burned fees and overwritten withdrawals; in every session
  of calls, failed ones included (\<open>Node_Session\<close>), accounts stay well-formed; genesis, snapshots, state roots,
  rewards, slashing and unbonding. \<open>Chain_Properties\<close> (C15 to C28): Merkle proofs and binding,
  mining, emission, difficulty, the way of a selection from the pool through a block into the ledger,
  produced blocks against \<open>validate_block\<close>, chains as a relation (\<open>extends\<close>), the rules as one
  equivalence, coinbases, the block and transaction stores. \<open>Client_Properties\<close> (C29 to C36): the pool under every sequence of operations (\<open>pool_run\<close>), admission, selection, fees and
  their multiplier, signatures, a transfer from the wallet to the ledger, wallet files.
  \<open>Cli_Properties\<close> (C37 to C40): runs of the command line keep existing files, a created wallet is
  shown again, what \<open>send\<close> signs, and amounts. \<open>Progress\<close> has the lemmas that operations succeed, so
  that liveness is proved as such.

  \<^bold>\<open>Loops and bounds.\<close> Loops over lists are structural; the Merkle layers
  end by the length of the layer, the nonce search by the distance to the limit. The loop of
  \<open>calculate_mined_supply\<close> does not end for the largest argument, so it is a partial function, and
  C18 proves both that it returns below and that it does not there. The reward
  theorems hold below height 290000 * 2^32, where the halving count is cut to 32 bits. The search for
  the shortest text of a binary64 number is the only function with fuel: it tries 1 to 17 digits, and
  17 are proved enough (\<open>shortest_digits_round\<close> in \<open>F64_Text\<close>).

  \<^bold>\<open>Where the code departs from its comments\<close>, as far as theorems show it: the rules accept epoch
  blocks only at a fixed point of the hash (C25); \<open>validate_block\<close> knows no commitment to micro
  blocks, and takes an epoch block only with transactions whose root is that of its micro block
  hashes (C24); the timestamp of a transaction is never looked at (C30); a very large fee is split
  differently by the fee functions and by the state transition (C32); the reward returns and the
  supply loop diverges (C18); a block made of the pool's selection can be refused by the rules, since the pool admits
  several transactions of one sender (C20) and the coinbase sender
  (\<open>coinbase_sender_admitted\<close>); an amount typed as 4.1 is signed as one unit less (C40). Lemmas beside the properties: a
  second withdrawal request of an epoch replaces the first (\<open>second_request_loses_first\<close>); unbonding
  stake cannot be slashed (\<open>unbonding_stake_escapes_slashing\<close>); a slash above 10000 basis points
  underflows the stake (\<open>oversized_slash_creates_units\<close>); retargeting reads milliseconds as seconds
  (\<open>blocks_on_target_lower_difficulty\<close>); the rules look at the first coinbase of an epoch block only
  (\<open>further_coinbases_unchecked\<close>); hashes of other lengths than 64 can share a root
  (\<open>merkle_root_ignores_boundaries\<close>); an odd block and the same block with
  its last transaction doubled have one root (\<open>duplicated_last_transaction_accepted\<close>); the rules
  accept blocks that cannot be applied (\<open>rules_accept_unappliable\<close>) and one block with different
  bodies (\<open>block_body_not_bound\<close>); a restored wallet does not depend
  on the phrase (\<open>restore_phrase_irrelevant\<close>). Lemmas of the components:
  \<open>interrupted_initialization_credits_twice\<close>, \<open>major_slash_saturates\<close>, \<open>save_snapshot_twice\<close>,
  \<open>calculate_validator_fee_share_wraps\<close>, \<open>header_preimage_shift\<close>, \<open>bind_message_ambiguous\<close>,
  \<open>compute_transaction_hash_ambiguous\<close>, \<open>sender_prefix_overlap\<close>, \<open>save_v1_load\<close>,
  \<open>staking_contract_invalid\<close>, \<open>validate_block_any_difficulty\<close>.

  \<^bold>\<open>Not modelled.\<close> The log lines of \<open>initialize_chain\<close>; failures of writing to the terminal (the
  program panics on them); the formatting of dates, which is the crate chrono; the test modules;
  module declarations and re-exports. Concurrency is not modelled: the functions take \<open>&KyveraDb\<close> and
  the crate starts no threads.
\<close>

end
